(* ===== verification/Prelude.thy ===== *)
theory Prelude
  imports Main "HOL-Library.Word"
begin

text \<open>
  Shared vocabulary of the development: the fixed-width integers of the driver
  (\<^verbatim>\<open>TI_UINT8\<close>, \<^verbatim>\<open>TI_UINT16\<close>, \<^verbatim>\<open>TI_UINT32\<close>), its status codes
  (utils/tidef.h), 32-bit addresses, the generic facts on words and lists that several
  components use, and the locale in which a component's invariant is lifted to its runs.

  The target is a 32-bit little-endian ARM (i.MX25), so a pointer is a 32-bit word, pointer
  arithmetic wraps, and the macros \<^verbatim>\<open>ENDIAN_HANDLE_...\<close> of utils/tidef.h are the identity.
\<close>

unbundle bit_operations_syntax

section \<open>Machine types\<close>

type_synonym u8 = "8 word"
type_synonym u16 = "16 word"
type_synonym u32 = "32 word"
type_synonym ptr = "32 word"

abbreviation (input) NULL :: ptr where
  "NULL \<equiv> 0"

text \<open>
  \<^verbatim>\<open>TI_STATUS\<close> is a 32-bit integer; the modelled code returns \<^verbatim>\<open>TI_OK = 0\<close>, \<^verbatim>\<open>TI_NOK = 1\<close>,
  \<^verbatim>\<open>TI_PENDING = 2\<close> and, from utils/commonTypes.h, \<^verbatim>\<open>PARAM_VALUE_NOT_VALID = 3\<close>.
\<close>

datatype TI_STATUS = TI_OK | TI_NOK | TI_PENDING | PARAM_VALUE_NOT_VALID

text \<open>\<^verbatim>\<open>ETxnStatus\<close> (Txn/TxnDefs.h) is how a bus transaction ended.\<close>

datatype ETxnStatus =
  TXN_STATUS_NONE | TXN_STATUS_OK | TXN_STATUS_COMPLETE | TXN_STATUS_PENDING | TXN_STATUS_ERROR

text \<open>
  The sizes of the tables per access category and per link.  An access category is its number: best
  effort 0, background 1, video 2, voice 3.
\<close>

abbreviation (input) MAX_NUM_OF_AC :: "nat" where "MAX_NUM_OF_AC \<equiv> 4"
abbreviation (input) WLANLINKS_MAX_LINKS :: "nat" where "WLANLINKS_MAX_LINKS \<equiv> 7"

definition WMEQosTagToACTable :: "nat list" where
  "WMEQosTagToACTable = [0, 1, 1, 0, 2, 2, 3, 3]"

text \<open>\<^verbatim>\<open>ETxHwQueStatus\<close> (TWD/TWDriver/TWDriver.h) is a bitmap: the two stop-next bits are or-ed together.\<close>

type_synonym ETxHwQueStatus = u32

abbreviation (input) TX_HW_QUE_STATUS_SUCCESS :: "ETxHwQueStatus" where "TX_HW_QUE_STATUS_SUCCESS \<equiv> 0"
abbreviation (input) TX_HW_QUE_STATUS_STOP_CURRENT :: "ETxHwQueStatus" where "TX_HW_QUE_STATUS_STOP_CURRENT \<equiv> 1"
abbreviation (input) TX_HW_QUE_STATUS_STOP_NEXT :: "ETxHwQueStatus" where "TX_HW_QUE_STATUS_STOP_NEXT \<equiv> 2"
abbreviation (input) TX_HW_LINK_STATUS_STOP_CURRENT :: "ETxHwQueStatus" where "TX_HW_LINK_STATUS_STOP_CURRENT \<equiv> 4"
abbreviation (input) TX_HW_LINK_STATUS_STOP_NEXT :: "ETxHwQueStatus" where "TX_HW_LINK_STATUS_STOP_NEXT \<equiv> 8"

section \<open>Words\<close>

lemma word_less_inc_unat:
  fixes w v :: "'a :: len word"
  assumes "w < v"
  shows "unat (w + 1) = Suc (unat w)"
proof -
  have "unat w < unat v" using assms by (simp add: word_less_nat_alt)
  moreover have "unat v < 2 ^ LENGTH('a)" by (rule unsigned_less)
  ultimately have "Suc (unat w) < 2 ^ LENGTH('a)" by linarith
  then show ?thesis by (simp add: unat_word_ariths)
qed

lemma unat_u32_less: "unat (w :: u32) < 4294967296"
  using unsigned_less [of w] by simp

lemma unat_u8_less: "unat (w :: u8) < 256"
  using unsigned_less [of w] by simp

lemma unat_ucast_u8 [simp]: "unat (ucast (w :: u8) :: u32) = unat w"
  using unat_u8_less [of w] by (simp add: unsigned_ucast_eq take_bit_nat_eq_self)

lemma uint_ucast_u8 [simp]: "uint (ucast (w :: u8) :: u32) = uint w"
  using unat_ucast_u8 [of w] by (metis uint_nat)

lemma unat_u16_less: "unat (w :: u16) < 65536"
  using unsigned_less [of w] by simp

lemma unat_ucast_u16 [simp]: "unat (ucast (w :: u16) :: u32) = unat w"
  using unat_u16_less [of w] by (simp add: unsigned_ucast_eq take_bit_nat_eq_self)

lemma unat_u32_add: "unat a + unat b < 4294967296 \<Longrightarrow> unat (a + b :: u32) = unat a + unat b"
  by (rule unat_add_lem [THEN iffD1]) simp

lemma sint_u32:
  fixes w :: u32
  assumes "uint w = v mod 4294967296" and "- 2147483648 \<le> v" and "v < 2147483648"
  shows "sint w = v"
proof -
  have "sint w = signed_take_bit 31 (take_bit 32 v)"
    using assms(1) by (simp add: sint_uint take_bit_eq_mod)
  then show ?thesis
    using assms(2,3) by (simp add: signed_take_bit_take_bit signed_take_bit_int_eq_self)
qed

lemma list_all_upt: "list_all P [0..<n] \<longleftrightarrow> (\<forall>i < n. P i)"
  by (auto simp: list_all_iff)

lemma sum_map_update:
  fixes g :: "'a \<Rightarrow> nat"
  shows "i < length xs \<Longrightarrow>
    sum_list (map g (xs[i := v])) + g (xs ! i) = sum_list (map g xs) + g v"
  using elem_le_sum_list [of i "map g xs"] by (simp add: map_update sum_list_update)

lemma nth_le_sum_map: "i < length xs \<Longrightarrow> (g (xs ! i) :: nat) \<le> sum_list (map g xs)"
  using elem_le_sum_list [of i "map g xs"] by simp

section \<open>Invariants of a component\<close>

text \<open>
  A component is a set of initial states and a step relation, one case per operation; its
  invariant holds initially and every step keeps it.
\<close>

locale safety =
  fixes init :: "'s \<Rightarrow> bool" and step :: "'s \<Rightarrow> 's \<Rightarrow> bool" and inv :: "'s \<Rightarrow> bool"
  assumes init_inv: "init s \<Longrightarrow> inv s"
    and step_inv: "inv s \<Longrightarrow> step s s' \<Longrightarrow> inv s'"
begin

lemma run_inv: "step\<^sup>*\<^sup>* s s' \<Longrightarrow> inv s \<Longrightarrow> inv s'"
  by (induction rule: rtranclp_induct) (auto intro: step_inv)

lemma reach_inv: "init s \<Longrightarrow> step\<^sup>*\<^sup>* s s' \<Longrightarrow> inv s'"
  using init_inv run_inv by blast

end

end
