(* ===== verification/TxHwQueue.thy ===== *)
theory TxHwQueue
  imports Prelude
begin

text \<open>
  The transmit resources of the device (\<^verbatim>\<open>TWD/Data_Service/txHwQueue.c\<close>, AP build, \<^verbatim>\<open>TNETW1273\<close>).

  The device stores frames in fixed-size memory blocks.  The driver never asks it how many are
  free: it counts what it allocates, per access category (\<open>TTxHwQueueInfo\<close>) and per link
  (\<open>TTxHwLinkInfo\<close>), and learns from free-running firmware counters what was released.  Each
  access category has a number of blocks reserved for it.

  The theory has the operations of the file on the records of the file, the accounting
  invariant, its preservation along every sequence of operations, and what it gives: no category
  is ever denied its reservation, allocation and release cancel, the block estimate is large
  enough.  An index outside an array (a TID above 7, a link above 6) is \<open>None\<close>.
\<close>

section \<open>The source\<close>

abbreviation (input) NUM_TX_DESCRIPTORS :: "u32" where "NUM_TX_DESCRIPTORS \<equiv> 32"
abbreviation (input) MAX_HEADER_SIZE :: "u32" where "MAX_HEADER_SIZE \<equiv> 48"
abbreviation (input) BLKS_HW_ALLOC_SPARE :: "u32" where "BLKS_HW_ALLOC_SPARE \<equiv> 2"
abbreviation (input) HW_RESOURCES_MAX_FW_LINK_BLOCKS :: "u8" where "HW_RESOURCES_MAX_FW_LINK_BLOCKS \<equiv> 72"
abbreviation (input) HW_RESOURCES_MIN_FW_LINK_BLOCKS :: "u8" where "HW_RESOURCES_MIN_FW_LINK_BLOCKS \<equiv> 18"

record TTxHwLinkInfo =
  uFwMax :: u32
  uFwFree :: u8
  uHostAlloc :: u8
  uLastAllocNumBlks :: u32
  bBusy :: bool
  uLinkBlksCausedBusy :: u32
  bEnabled :: bool

record TTxHwQueueInfo =
  uNumBlksThresh :: u32
  uNumBlksUsed :: u32
  uNumBlksReserved :: u32
  uAllocatedBlksCntr :: u32
  uFwFreedBlksCntr :: u32
  uNumBlksCausedBusy :: u32
  bQueueBusy :: bool

record TTxHwQueue =
  fUpdateBusyMapCb :: ptr
  hUpdateBusyMapHndl :: ptr
  uNumTotalBlks :: u32
  uNumTotalBlksFree :: u32
  uNumTotalBlksReserved :: u32
  uNumUsedDescriptors :: u32
  uFwTxResultsCntr :: u8
  uDrvTxPacketsCntr :: u8
  aTxHwQueueInfo :: "TTxHwQueueInfo list"
  aTxHwLinkInfo :: "TTxHwLinkInfo list"
  uNumTotalLinks :: u32

text \<open>The transmit descriptor of a packet, and the status block the firmware writes.\<close>

record TxIfDescriptor_t =
  tx_length :: u16
  extraMemBlks :: u8
  totalMemBlks :: u8
  startTime :: u32
  lifeTime :: u16
  txAttr :: u16
  descID :: u8
  tid :: u8
  hlid :: u8

record FwStatus_t =
  intrStatus :: u32
  counters :: u32
  rxPktsDesc :: "u32 list"
  txReleasedBlks :: "u32 list"
  fwLocalTime :: u32
  linkPsBitmap :: u32
  txLinkFreeBlks :: "u8 list"

text \<open>\<open>FwStatCntrs_t\<close> overlays \<open>counters\<close>; on this little-endian host its last byte is the top one.\<close>

definition txResultsCntr :: "u32 \<Rightarrow> u8" where
  "txResultsCntr c = ucast (drop_bit 24 c)"

definition txHwQueue_Create :: "ptr \<Rightarrow> TTxHwQueue option" where
  "txHwQueue_Create pMem =
     (if pMem = NULL then None
      else Some \<lparr>fUpdateBusyMapCb = NULL, hUpdateBusyMapHndl = NULL, uNumTotalBlks = 0,
        uNumTotalBlksFree = 0, uNumTotalBlksReserved = 0, uNumUsedDescriptors = 0,
        uFwTxResultsCntr = 0, uDrvTxPacketsCntr = 0,
        aTxHwQueueInfo = replicate MAX_NUM_OF_AC
          \<lparr>uNumBlksThresh = 0, uNumBlksUsed = 0, uNumBlksReserved = 0, uAllocatedBlksCntr = 0,
           uFwFreedBlksCntr = 0, uNumBlksCausedBusy = 0, bQueueBusy = False\<rparr>,
        aTxHwLinkInfo = replicate WLANLINKS_MAX_LINKS
          \<lparr>uFwMax = 0, uFwFree = 0, uHostAlloc = 0, uLastAllocNumBlks = 0, bBusy = False,
           uLinkBlksCausedBusy = 0, bEnabled = False\<rparr>,
        uNumTotalLinks = 0\<rparr>)"

definition txHwQueue_Config :: "TTxHwQueue \<Rightarrow> u8 list \<Rightarrow> TTxHwQueue" where
  "txHwQueue_Config p TxBlocksThresholdPerAc =
     p\<lparr>aTxHwQueueInfo := map (\<lambda>TxQid. (aTxHwQueueInfo p ! TxQid)
         \<lparr>uNumBlksThresh := ucast (TxBlocksThresholdPerAc ! TxQid)\<rparr>) [0..<MAX_NUM_OF_AC]\<rparr>"

definition restart_queue :: "TTxHwQueueInfo \<Rightarrow> TTxHwQueueInfo" where
  "restart_queue q = q\<lparr>uNumBlksUsed := 0, uAllocatedBlksCntr := 0, uFwFreedBlksCntr := 0,
     uNumBlksCausedBusy := 0, bQueueBusy := False, uNumBlksReserved := uNumBlksThresh q\<rparr>"

definition restart_link :: "TTxHwLinkInfo \<Rightarrow> TTxHwLinkInfo" where
  "restart_link l = l\<lparr>bBusy := False, uLinkBlksCausedBusy := 0, bEnabled := False, uHostAlloc := 0,
     uFwFree := 0, uFwMax := ucast HW_RESOURCES_MAX_FW_LINK_BLOCKS\<rparr>"

definition txHwQueue_Restart :: "TTxHwQueue \<Rightarrow> TTxHwQueue" where
  "txHwQueue_Restart p =
     (let qs = map restart_queue (aTxHwQueueInfo p)
      in p\<lparr>uNumTotalBlksFree := uNumTotalBlks p,
           uNumTotalBlksReserved := fold (\<lambda>q r. r + uNumBlksReserved q) qs 0,
           uNumUsedDescriptors := 0, uFwTxResultsCntr := 0, uDrvTxPacketsCntr := 0,
           uNumTotalLinks := 0,
           aTxHwQueueInfo := qs,
           aTxHwLinkInfo := map restart_link (aTxHwLinkInfo p)\<rparr>)"

definition txHwQueue_SetHwInfo :: "TTxHwQueue \<Rightarrow> u32 \<Rightarrow> TTxHwQueue" where
  "txHwQueue_SetHwInfo p NumTxBlocks = txHwQueue_Restart (p\<lparr>uNumTotalBlks := NumTxBlocks - 1\<rparr>)"

definition txHwQueue_AddLink :: "TTxHwQueue \<Rightarrow> TTxHwQueue" where
  "txHwQueue_AddLink p = p\<lparr>uNumTotalLinks := uNumTotalLinks p + 1\<rparr>"

definition txHwQueue_RemoveLink :: "TTxHwQueue \<Rightarrow> TTxHwQueue" where
  "txHwQueue_RemoveLink p =
     (if uNumTotalLinks p \<noteq> 0 then p\<lparr>uNumTotalLinks := uNumTotalLinks p - 1\<rparr> else p)"

text \<open>\<open>isBusyMap\<close> says whether the callback id is \<^verbatim>\<open>TWD_INT_UPDATE_BUSY_MAP\<close>, the only one accepted.\<close>

definition txHwQueue_RegisterCb :: "TTxHwQueue \<Rightarrow> bool \<Rightarrow> ptr \<Rightarrow> ptr \<Rightarrow> TTxHwQueue" where
  "txHwQueue_RegisterCb p isBusyMap fCbFunc hCbHndl =
     (if isBusyMap then p\<lparr>fUpdateBusyMapCb := fCbFunc, hUpdateBusyMapHndl := hCbHndl\<rparr> else p)"

definition txHwQueue_CheckResources :: "TTxHwQueue \<Rightarrow> TTxHwQueueInfo \<Rightarrow> u32" where
  "txHwQueue_CheckResources p q =
     (if uNumUsedDescriptors p < NUM_TX_DESCRIPTORS
      then uNumTotalBlksFree p - (uNumTotalBlksReserved p - uNumBlksReserved q)
      else 0)"

text \<open>
  The two 8-bit link counters are promoted to \<^verbatim>\<open>int\<close> before they are subtracted; the result
  is then read as a signed 32-bit number.
\<close>

definition txHwQueue_CheckLinkResources :: "TTxHwQueue \<Rightarrow> TTxHwLinkInfo \<Rightarrow> u32" where
  "txHwQueue_CheckLinkResources p l =
     (if uNumUsedDescriptors p < NUM_TX_DESCRIPTORS
      then (let availabaleLinkBlocks = uFwMax l - (ucast (uHostAlloc l) - ucast (uFwFree l))
            in if sint availabaleLinkBlocks \<le> 0 then 0 else availabaleLinkBlocks)
      else 0)"

subsection \<open>Allocation\<close>

definition num_blks_to_alloc :: "u16 \<Rightarrow> u32" where
  "num_blks_to_alloc len =
     (let uNumBlksToAlloc = drop_bit 8 (ucast len + 20);
          uExcludedLength = push_bit 2 uNumBlksToAlloc + ((ucast len + 20) AND 0xFF)
                            + MAX_HEADER_SIZE - 14
      in uNumBlksToAlloc + (if uExcludedLength > 252 then 2 else 1) + BLKS_HW_ALLOC_SPARE)"

text \<open>The accounting of one allocation: descriptors, reserved, free and used blocks.\<close>

definition alloc_blks :: "TTxHwQueue \<Rightarrow> nat \<Rightarrow> u32 \<Rightarrow> TTxHwQueue" where
  "alloc_blks p uQueueId uNumBlksToAlloc =
     (let q = aTxHwQueueInfo p ! uQueueId;
          uReservedBlks = uNumBlksReserved q;
          (reserved, total) =
            (if uReservedBlks \<noteq> 0
             then if uNumBlksToAlloc > uReservedBlks
                  then (0, uNumTotalBlksReserved p - uReservedBlks)
                  else (uReservedBlks - uNumBlksToAlloc, uNumTotalBlksReserved p - uNumBlksToAlloc)
             else (uReservedBlks, uNumTotalBlksReserved p))
      in p\<lparr>uNumUsedDescriptors := uNumUsedDescriptors p + 1,
           uDrvTxPacketsCntr := uDrvTxPacketsCntr p + 1,
           uNumTotalBlksReserved := total,
           uNumTotalBlksFree := uNumTotalBlksFree p - uNumBlksToAlloc,
           aTxHwQueueInfo := (aTxHwQueueInfo p)[uQueueId :=
             q\<lparr>uAllocatedBlksCntr := uAllocatedBlksCntr q + uNumBlksToAlloc,
               uNumBlksReserved := reserved,
               uNumBlksUsed := uNumBlksUsed q + uNumBlksToAlloc\<rparr>]\<rparr>)"

definition set_queue :: "TTxHwQueue \<Rightarrow> nat \<Rightarrow> (TTxHwQueueInfo \<Rightarrow> TTxHwQueueInfo) \<Rightarrow> TTxHwQueue" where
  "set_queue p i f = p\<lparr>aTxHwQueueInfo := (aTxHwQueueInfo p)[i := f (aTxHwQueueInfo p ! i)]\<rparr>"

definition set_link :: "TTxHwQueue \<Rightarrow> nat \<Rightarrow> (TTxHwLinkInfo \<Rightarrow> TTxHwLinkInfo) \<Rightarrow> TTxHwQueue" where
  "set_link p i f = p\<lparr>aTxHwLinkInfo := (aTxHwLinkInfo p)[i := f (aTxHwLinkInfo p ! i)]\<rparr>"

definition txHwQueue_AllocResources ::
  "TTxHwQueue \<Rightarrow> TxIfDescriptor_t \<Rightarrow> (ETxHwQueStatus \<times> TTxHwQueue \<times> TxIfDescriptor_t) option" where
  "txHwQueue_AllocResources p d =
     (if length WMEQosTagToACTable \<le> unat (tid d) \<or> WLANLINKS_MAX_LINKS \<le> unat (hlid d) then None
      else
       (let uQueueId = WMEQosTagToACTable ! unat (tid d);
            uHlid = unat (hlid d);
            uNumBlksToAlloc = num_blks_to_alloc (tx_length d);
            uAvailableLinkBlks = txHwQueue_CheckLinkResources p (aTxHwLinkInfo p ! uHlid);
            uAvailableBlks = txHwQueue_CheckResources p (aTxHwQueueInfo p ! uQueueId)
        in if uNumBlksToAlloc > uAvailableLinkBlks
           then Some (TX_HW_LINK_STATUS_STOP_CURRENT,
                  set_link p uHlid (\<lambda>l. l\<lparr>uLinkBlksCausedBusy := uNumBlksToAlloc, bBusy := True\<rparr>), d)
           else if uNumBlksToAlloc > uAvailableBlks
           then Some (TX_HW_QUE_STATUS_STOP_CURRENT,
                  set_queue p uQueueId
                    (\<lambda>q. q\<lparr>uNumBlksCausedBusy := uNumBlksToAlloc, bQueueBusy := True\<rparr>), d)
           else
            (let d' = d\<lparr>extraMemBlks := ucast BLKS_HW_ALLOC_SPARE,
                        totalMemBlks := ucast uNumBlksToAlloc\<rparr>;
                 p1 = set_link (alloc_blks p uQueueId uNumBlksToAlloc) uHlid
                        (\<lambda>l. l\<lparr>uLastAllocNumBlks := uNumBlksToAlloc,
                               uHostAlloc := uHostAlloc l + ucast uNumBlksToAlloc\<rparr>);
                 (p2, st2) = (if push_bit 1 uNumBlksToAlloc > uAvailableLinkBlks
                              then (set_link p1 uHlid (\<lambda>l. l\<lparr>bBusy := True\<rparr>),
                                    TX_HW_QUE_STATUS_SUCCESS OR TX_HW_LINK_STATUS_STOP_NEXT)
                              else (p1, TX_HW_QUE_STATUS_SUCCESS));
                 (p3, st3) = (if push_bit 1 uNumBlksToAlloc > uAvailableBlks
                              then (set_queue p2 uQueueId
                                      (\<lambda>q. q\<lparr>uNumBlksCausedBusy := uNumBlksToAlloc, bQueueBusy := True\<rparr>),
                                    st2 OR TX_HW_QUE_STATUS_STOP_NEXT)
                              else (p2, st2))
             in Some (st3, p3, d'))))"

subsection \<open>Release\<close>

definition txHwQueue_UpdateFreeBlocks :: "TTxHwQueue \<Rightarrow> nat \<Rightarrow> u32 \<Rightarrow> TTxHwQueue" where
  "txHwQueue_UpdateFreeBlocks p uQueueId uFreeBlocks =
     (let q = aTxHwQueueInfo p ! uQueueId
      in if uFreeBlocks = uFwFreedBlksCntr q then p
         else
          (let newUsedBlks = uAllocatedBlksCntr q - uFreeBlocks;
               numBlksToFree = uNumBlksUsed q - newUsedBlks;
               lowThreshold = uNumBlksThresh q;
               newReserved = lowThreshold - newUsedBlks;
               p1 = p\<lparr>uNumTotalBlksFree := uNumTotalBlksFree p + numBlksToFree\<rparr>;
               q1 = q\<lparr>uFwFreedBlksCntr := uFreeBlocks, uNumBlksUsed := newUsedBlks\<rparr>
           in if newUsedBlks < lowThreshold
              then p1\<lparr>uNumTotalBlksReserved := uNumTotalBlksReserved p +
                        (if numBlksToFree > newReserved then newReserved else numBlksToFree),
                      aTxHwQueueInfo := (aTxHwQueueInfo p)[uQueueId := q1\<lparr>uNumBlksReserved := newReserved\<rparr>]\<rparr>
              else p1\<lparr>aTxHwQueueInfo := (aTxHwQueueInfo p)[uQueueId := q1]\<rparr>))"

definition update_descriptors :: "TTxHwQueue \<Rightarrow> u8 \<Rightarrow> TTxHwQueue" where
  "update_descriptors p cntr =
     (if cntr \<noteq> uFwTxResultsCntr p
      then p\<lparr>uFwTxResultsCntr := cntr,
             uNumUsedDescriptors :=
               (if cntr \<le> uDrvTxPacketsCntr p
                then ucast (uDrvTxPacketsCntr p) - ucast cntr
                else 0x100 - (ucast cntr - ucast (uDrvTxPacketsCntr p)))\<rparr>
      else p)"

text \<open>One iteration of the loop over the links; the accumulator is the module, the bitmap of links
  that may send, and whether some link changed.\<close>

definition update_link ::
  "FwStatus_t \<Rightarrow> nat \<Rightarrow> TTxHwQueue \<times> u32 \<times> bool \<Rightarrow> TTxHwQueue \<times> u32 \<times> bool" where
  "update_link fw uHlid acc =
     (case acc of (p, uLinkBackpressure, uLinkInfoChanged) \<Rightarrow>
       (let l = aTxHwLinkInfo p ! uHlid;
            new_FwFree = txLinkFreeBlks fw ! uHlid;
            new_FwMax = (if bit (linkPsBitmap fw) uHlid
                         then if uNumTotalLinks p = 1 then HW_RESOURCES_MAX_FW_LINK_BLOCKS
                              else HW_RESOURCES_MIN_FW_LINK_BLOCKS
                         else HW_RESOURCES_MAX_FW_LINK_BLOCKS);
            bp = (if bBusy l then unset_bit uHlid uLinkBackpressure
                  else set_bit uHlid uLinkBackpressure)
        in if uFwFree l \<noteq> new_FwFree \<or> uFwMax l \<noteq> ucast new_FwMax
           then
            (let l1 = l\<lparr>uFwFree := new_FwFree, uFwMax := ucast new_FwMax\<rparr>;
                 uAvailableLinkBlks = txHwQueue_CheckLinkResources p l1;
                 (l2, bp2) =
                   (if bBusy l1
                    then if uAvailableLinkBlks > uLinkBlksCausedBusy l1
                         then (l1\<lparr>bBusy := False\<rparr>, set_bit uHlid bp)
                         else (l1, bp)
                    else if uLastAllocNumBlks l1 > uAvailableLinkBlks
                         then (l1\<lparr>uLinkBlksCausedBusy := uAvailableLinkBlks, bBusy := True\<rparr>,
                               unset_bit uHlid bp)
                         else (l1, bp))
             in (set_link p uHlid (\<lambda>_. l2), bp2, True))
           else (p, bp, uLinkInfoChanged)))"

text \<open>One iteration of the loop over the stopped queues; the accumulator is the module and the
  bitmap of queues that may start again.\<close>

definition release_queue :: "nat \<Rightarrow> TTxHwQueue \<times> u32 \<Rightarrow> TTxHwQueue \<times> u32" where
  "release_queue uQueueId acc =
     (case acc of (p, uBackpressure) \<Rightarrow>
       (let q = aTxHwQueueInfo p ! uQueueId
        in if bQueueBusy q \<and> uNumBlksCausedBusy q \<le> txHwQueue_CheckResources p q
           then (set_queue p uQueueId (\<lambda>q. q\<lparr>bQueueBusy := False\<rparr>), set_bit uQueueId uBackpressure)
           else (p, uBackpressure)))"

text \<open>The result is the call made to the upper layer, if any: its handle and the two bitmaps.\<close>

definition txHwQueue_UpdateFreeResources ::
  "TTxHwQueue \<Rightarrow> FwStatus_t \<Rightarrow> (ptr \<times> u32 \<times> u32) option \<times> TTxHwQueue" where
  "txHwQueue_UpdateFreeResources p fw =
     (let p1 = update_descriptors p (txResultsCntr (counters fw));
          (p2, uLinkBackpressure, uLinkInfoChanged) =
             fold (update_link fw) [0..<WLANLINKS_MAX_LINKS] (p1, 0, False);
          p3 = fold (\<lambda>uQueueId p. txHwQueue_UpdateFreeBlocks p uQueueId (txReleasedBlks fw ! uQueueId))
                 [0..<MAX_NUM_OF_AC] p2;
          (p4, uBackpressure) = fold release_queue [0..<MAX_NUM_OF_AC] (p3, 0)
      in (if (uBackpressure > 0 \<or> uLinkInfoChanged) \<and> fUpdateBusyMapCb p4 \<noteq> NULL
          then Some (hUpdateBusyMapHndl p4, uBackpressure, uLinkBackpressure) else None,
          p4))"

section \<open>The accounting invariant\<close>

text \<open>
  Every block is free or used by exactly one category; what is used is what the free-running
  counters say; what is reserved for a category is the part of its threshold that it does not
  use; the reservations of all categories fit into the free blocks; the descriptors in use are
  what the 8-bit packet counters say.
\<close>

definition hwq_queue_ok :: "TTxHwQueueInfo \<Rightarrow> bool" where
  "hwq_queue_ok q \<longleftrightarrow> uNumBlksUsed q = uAllocatedBlksCntr q - uFwFreedBlksCntr q \<and>
     unat (uNumBlksReserved q) = unat (uNumBlksThresh q) - unat (uNumBlksUsed q)"

definition used_blks :: "TTxHwQueue \<Rightarrow> nat" where
  "used_blks p = sum_list (map (\<lambda>q. unat (uNumBlksUsed q)) (aTxHwQueueInfo p))"

definition reserved_blks :: "TTxHwQueue \<Rightarrow> nat" where
  "reserved_blks p = sum_list (map (\<lambda>q. unat (uNumBlksReserved q)) (aTxHwQueueInfo p))"

definition hwq_inv :: "TTxHwQueue \<Rightarrow> bool" where
  "hwq_inv p \<longleftrightarrow> length (aTxHwQueueInfo p) = MAX_NUM_OF_AC \<and>
     length (aTxHwLinkInfo p) = WLANLINKS_MAX_LINKS \<and>
     list_all hwq_queue_ok (aTxHwQueueInfo p) \<and>
     unat (uNumTotalBlksFree p) + used_blks p = unat (uNumTotalBlks p) \<and>
     unat (uNumTotalBlksReserved p) = reserved_blks p \<and>
     uNumTotalBlksReserved p \<le> uNumTotalBlksFree p \<and>
     unat (uNumUsedDescriptors p) = unat (uDrvTxPacketsCntr p - uFwTxResultsCntr p) \<and>
     uNumUsedDescriptors p \<le> NUM_TX_DESCRIPTORS"

lemma hwq_invD:
  assumes "hwq_inv p" and "i < MAX_NUM_OF_AC"
  shows "hwq_queue_ok (aTxHwQueueInfo p ! i)"
    and "unat (uNumBlksReserved (aTxHwQueueInfo p ! i)) \<le> reserved_blks p"
    and "unat (uNumBlksUsed (aTxHwQueueInfo p ! i)) \<le> used_blks p"
  using assms nth_le_sum_map [of i "aTxHwQueueInfo p"]
  by (auto simp: hwq_inv_def list_all_length reserved_blks_def used_blks_def)

lemma hwq_available:
  assumes inv: "hwq_inv p" and i: "i < MAX_NUM_OF_AC"
    and d: "uNumUsedDescriptors p < NUM_TX_DESCRIPTORS"
  shows "unat (txHwQueue_CheckResources p (aTxHwQueueInfo p ! i)) =
    unat (uNumTotalBlksFree p) -
      (unat (uNumTotalBlksReserved p) - unat (uNumBlksReserved (aTxHwQueueInfo p ! i)))"
proof -
  let ?r = "uNumBlksReserved (aTxHwQueueInfo p ! i)"
  have r: "?r \<le> uNumTotalBlksReserved p"
    using hwq_invD(2) [OF inv i] inv by (simp add: hwq_inv_def word_le_nat_alt)
  have "uNumTotalBlksReserved p - ?r \<le> uNumTotalBlksFree p"
    using inv r unat_sub [OF r] by (auto simp: hwq_inv_def word_le_nat_alt)
  then show ?thesis using d r by (simp add: txHwQueue_CheckResources_def unat_sub)
qed

lemma hwq_inv_set_link [simp]: "hwq_inv (set_link p i f) = hwq_inv p"
  by (simp add: hwq_inv_def set_link_def used_blks_def reserved_blks_def)

lemma set_link_other [simp]:
  "aTxHwQueueInfo (set_link p i f) = aTxHwQueueInfo p"
  "uNumTotalBlksFree (set_link p i f) = uNumTotalBlksFree p"
  "uNumTotalBlks (set_link p i f) = uNumTotalBlks p"
  "uNumTotalBlksReserved (set_link p i f) = uNumTotalBlksReserved p"
  "uNumUsedDescriptors (set_link p i f) = uNumUsedDescriptors p"
  by (simp_all add: set_link_def)

text \<open>The invariant only reads the block accounting of a queue, not its busy state.\<close>

definition same_blks :: "TTxHwQueueInfo \<Rightarrow> TTxHwQueueInfo \<Rightarrow> bool" where
  "same_blks q q' \<longleftrightarrow> uNumBlksThresh q = uNumBlksThresh q' \<and> uNumBlksUsed q = uNumBlksUsed q' \<and>
     uNumBlksReserved q = uNumBlksReserved q' \<and> uAllocatedBlksCntr q = uAllocatedBlksCntr q' \<and>
     uFwFreedBlksCntr q = uFwFreedBlksCntr q'"

lemma map_update_same: "g v = g (xs ! i) \<Longrightarrow> map g (xs[i := v]) = map g xs"
  by (cases "i < length xs") (simp_all add: map_update list_update_same_conv list_update_beyond)

lemma hwq_inv_set_queue:
  assumes "hwq_inv p" and f: "\<And>q. same_blks (f q) q"
  shows "hwq_inv (set_queue p i f)"
proof -
  let ?q = "aTxHwQueueInfo p ! i"
  have "map (\<lambda>q. unat (uNumBlksUsed q)) ((aTxHwQueueInfo p)[i := f ?q]) =
      map (\<lambda>q. unat (uNumBlksUsed q)) (aTxHwQueueInfo p)"
    "map (\<lambda>q. unat (uNumBlksReserved q)) ((aTxHwQueueInfo p)[i := f ?q]) =
      map (\<lambda>q. unat (uNumBlksReserved q)) (aTxHwQueueInfo p)"
    "map hwq_queue_ok ((aTxHwQueueInfo p)[i := f ?q]) = map hwq_queue_ok (aTxHwQueueInfo p)"
    using f [of ?q] by (auto intro!: map_update_same simp: same_blks_def hwq_queue_ok_def)
  moreover have "list_all hwq_queue_ok xs = list_all id (map hwq_queue_ok xs)" for xs
    by (simp add: list.pred_map comp_def)
  ultimately show ?thesis
    using assms(1) by (simp add: hwq_inv_def set_queue_def used_blks_def reserved_blks_def)
qed

section \<open>Every operation keeps the invariant\<close>

lemma desc_inc:
  assumes "u < (32 :: u32)" and "unat u = unat (a - b :: u8)"
  shows "unat (u + 1) = unat (a + 1 - b)"
proof -
  have "unat u < 32" using assms(1) by (simp add: word_less_nat_alt)
  moreover have "unat ((a - b) + 1) = unat (a - b) + 1"
    using calculation(1) assms(2) by (intro unat_add_lem [THEN iffD1, THEN trans]) simp_all
  moreover have "unat (u + 1) = unat u + 1" using calculation(1) by (subst unat_u32_add) simp_all
  moreover have "a + 1 - b = (a - b) + 1" by simp
  ultimately show ?thesis using assms(2) by (simp only:)
qed

lemma alloc_blks_other [simp]:
  "uNumTotalBlks (alloc_blks p i n) = uNumTotalBlks p"
  "aTxHwLinkInfo (alloc_blks p i n) = aTxHwLinkInfo p"
  "uNumUsedDescriptors (alloc_blks p i n) = uNumUsedDescriptors p + 1"
  "uDrvTxPacketsCntr (alloc_blks p i n) = uDrvTxPacketsCntr p + 1"
  "uFwTxResultsCntr (alloc_blks p i n) = uFwTxResultsCntr p"
  by (simp_all add: alloc_blks_def Let_def split: prod.split)

lemma hwq_inv_alloc:
  assumes inv: "hwq_inv p" and i: "i < MAX_NUM_OF_AC" and n: "n \<noteq> 0"
    and av: "n \<le> txHwQueue_CheckResources p (aTxHwQueueInfo p ! i)"
  shows "hwq_inv (alloc_blks p i n)"
proof -
  define q where "q = aTxHwQueueInfo p ! i"
  define q' where "q' = aTxHwQueueInfo (alloc_blks p i n) ! i"
  define R where "R = unat (uNumTotalBlksReserved p)"
  define r where "r = unat (uNumBlksReserved q)"
  define F where "F = unat (uNumTotalBlksFree p)"
  have len: "length (aTxHwQueueInfo p) = 4" using inv by (simp add: hwq_inv_def)
  have d: "uNumUsedDescriptors p < 32"
    using av n by (auto simp: txHwQueue_CheckResources_def split: if_splits)
  have avn: "unat n \<le> F - (R - r)"
    using av hwq_available [OF inv i d] by (simp add: word_le_nat_alt F_def R_def r_def q_def)
  have rR: "r \<le> R" and RF: "R \<le> F" and qok: "hwq_queue_ok q"
    using hwq_invD [OF inv i] inv
    by (simp_all add: hwq_inv_def R_def r_def F_def q_def word_le_nat_alt)
  have tot: "F + used_blks p = unat (uNumTotalBlks p)" and res: "R = reserved_blks p"
    using inv by (simp_all add: hwq_inv_def F_def R_def)
  have uq: "unat (uNumBlksUsed q) \<le> used_blks p" using hwq_invD(3) [OF inv i] by (simp add: q_def)
  have nF: "n \<le> uNumTotalBlksFree p" using avn rR RF by (simp add: word_le_nat_alt F_def)
  have F': "unat (uNumTotalBlksFree (alloc_blks p i n)) = F - unat n"
    using nF by (simp add: alloc_blks_def Let_def unat_sub F_def split: prod.split)
  have U': "unat (uNumBlksUsed q') = unat (uNumBlksUsed q) + unat n"
  proof -
    have "unat (uNumBlksUsed q + n) = unat (uNumBlksUsed q) + unat n"
      using uq tot avn RF rR unat_u32_less [of "uNumTotalBlks p"] by (intro unat_u32_add) simp
    then show ?thesis
      using i len by (simp add: q'_def q_def alloc_blks_def Let_def split: prod.split)
  qed
  have r': "unat (uNumBlksReserved q') = r - unat n"
    using i len by (auto simp: q'_def q_def [symmetric] r_def alloc_blks_def Let_def unat_sub
        word_less_nat_alt not_less word_le_nat_alt)
  have R': "unat (uNumTotalBlksReserved (alloc_blks p i n)) = R - min r (unat n)"
    using rR by (auto simp: q_def [symmetric] r_def R_def alloc_blks_def Let_def
        word_less_nat_alt not_less word_le_nat_alt unat_sub)
  have qs': "aTxHwQueueInfo (alloc_blks p i n) = (aTxHwQueueInfo p)[i := q']"
    using i len by (simp add: q'_def alloc_blks_def Let_def split: prod.split)
  have same: "uAllocatedBlksCntr q' = uAllocatedBlksCntr q + n"
      "uNumBlksUsed q' = uNumBlksUsed q + n" "uFwFreedBlksCntr q' = uFwFreedBlksCntr q"
      "uNumBlksThresh q' = uNumBlksThresh q"
    using i len by (simp_all add: q'_def q_def alloc_blks_def Let_def split: prod.split)
  have q'ok: "hwq_queue_ok q'"
    using qok U' r' same(1,3,4) by (simp add: hwq_queue_ok_def r_def same(2) algebra_simps)
  have used': "used_blks (alloc_blks p i n) = used_blks p + unat n"
    using sum_map_update [of i "aTxHwQueueInfo p" "\<lambda>q. unat (uNumBlksUsed q)" q'] i len U'
    by (simp add: used_blks_def qs' q_def)
  have res': "reserved_blks (alloc_blks p i n) + r = R + (r - unat n)"
    using sum_map_update [of i "aTxHwQueueInfo p" "\<lambda>q. unat (uNumBlksReserved q)" q'] i len r' res
    by (simp add: reserved_blks_def qs' q_def r_def)
  have desc: "unat (uNumUsedDescriptors p + 1) = unat (uDrvTxPacketsCntr p + 1 - uFwTxResultsCntr p)"
      "uNumUsedDescriptors p + 1 \<le> 32"
    using desc_inc [OF d] inv inc_le [OF d] by (simp_all add: hwq_inv_def)
  have "list_all hwq_queue_ok (aTxHwQueueInfo (alloc_blks p i n))"
    using inv q'ok i by (auto simp: qs' hwq_inv_def list_all_length nth_list_update)
  moreover have "unat (uNumTotalBlksReserved (alloc_blks p i n)) = reserved_blks (alloc_blks p i n)"
    using R' res' rR by simp
  moreover have "uNumTotalBlksReserved (alloc_blks p i n) \<le> uNumTotalBlksFree (alloc_blks p i n)"
    using F' R' avn rR RF by (simp add: word_le_nat_alt)
  moreover have "unat (uNumTotalBlksFree (alloc_blks p i n)) + used_blks (alloc_blks p i n) =
      unat (uNumTotalBlks p)"
    using F' used' tot avn by simp
  ultimately show ?thesis
    using inv desc qs' by (simp add: hwq_inv_def)
qed

text \<open>
  What the firmware promises of its counters: it never reports more blocks released than were
  allocated and not yet released, and never more transmit results than packets handed over.
\<close>

definition fw_blks_ok :: "TTxHwQueue \<Rightarrow> nat \<Rightarrow> u32 \<Rightarrow> bool" where
  "fw_blks_ok p i fb \<longleftrightarrow>
     uAllocatedBlksCntr (aTxHwQueueInfo p ! i) - fb \<le> uNumBlksUsed (aTxHwQueueInfo p ! i)"

definition fw_status_ok :: "TTxHwQueue \<Rightarrow> FwStatus_t \<Rightarrow> bool" where
  "fw_status_ok p fw \<longleftrightarrow>
     (\<forall>i < MAX_NUM_OF_AC. fw_blks_ok p i (txReleasedBlks fw ! i)) \<and>
     unat (uDrvTxPacketsCntr p - txResultsCntr (counters fw)) \<le> unat (uNumUsedDescriptors p)"

lemma UpdateFreeBlocks_other [simp]:
  "uNumTotalBlks (txHwQueue_UpdateFreeBlocks p i fb) = uNumTotalBlks p"
  "aTxHwLinkInfo (txHwQueue_UpdateFreeBlocks p i fb) = aTxHwLinkInfo p"
  "uNumUsedDescriptors (txHwQueue_UpdateFreeBlocks p i fb) = uNumUsedDescriptors p"
  "uDrvTxPacketsCntr (txHwQueue_UpdateFreeBlocks p i fb) = uDrvTxPacketsCntr p"
  "uFwTxResultsCntr (txHwQueue_UpdateFreeBlocks p i fb) = uFwTxResultsCntr p"
  by (simp_all add: txHwQueue_UpdateFreeBlocks_def Let_def)

text \<open>The effect of a release on the numbers of one category.\<close>

lemma UpdateFreeBlocks_effect:
  fixes p i fb
  defines "q \<equiv> aTxHwQueueInfo p ! i"
    and "p' \<equiv> txHwQueue_UpdateFreeBlocks p i fb"
  defines "q' \<equiv> aTxHwQueueInfo p' ! i"
  defines "u \<equiv> unat (uNumBlksUsed q)" and "u' \<equiv> unat (uAllocatedBlksCntr q - fb)"
    and "t \<equiv> unat (uNumBlksThresh q)"
  assumes inv: "hwq_inv p" and i: "i < MAX_NUM_OF_AC" and fw: "fw_blks_ok p i fb"
  shows "aTxHwQueueInfo p' = (aTxHwQueueInfo p)[i := q']"
    and "hwq_queue_ok q'" and "unat (uNumBlksUsed q') = u'" and "u' \<le> u"
    and "uAllocatedBlksCntr q' = uAllocatedBlksCntr q"
    and "unat (uNumTotalBlksFree p') = unat (uNumTotalBlksFree p) + (u - u')"
    and "unat (uNumBlksReserved q') = t - u'"
    and "unat (uNumTotalBlksReserved p') = unat (uNumTotalBlksReserved p) + ((t - u') - (t - u))"
proof -
  have len: "length (aTxHwQueueInfo p) = 4" using inv by (simp add: hwq_inv_def)
  have ok: "uNumBlksUsed q = uAllocatedBlksCntr q - uFwFreedBlksCntr q"
      "unat (uNumBlksReserved q) = t - u"
    using hwq_invD(1) [OF inv i] by (simp_all add: hwq_queue_ok_def q_def t_def u_def)
  show le: "u' \<le> u" using fw by (simp add: fw_blks_ok_def u'_def u_def q_def word_le_nat_alt)
  show qs: "aTxHwQueueInfo p' = (aTxHwQueueInfo p)[i := q']"
    using i len by (simp add: q'_def p'_def txHwQueue_UpdateFreeBlocks_def Let_def)
  show "uAllocatedBlksCntr q' = uAllocatedBlksCntr q"
    using i len by (simp add: q'_def p'_def q_def txHwQueue_UpdateFreeBlocks_def Let_def)
  have used: "uNumBlksUsed q' = uAllocatedBlksCntr q - fb" "uFwFreedBlksCntr q' = fb"
      "uAllocatedBlksCntr q' = uAllocatedBlksCntr q" "uNumBlksThresh q' = uNumBlksThresh q"
    using i len ok(1) by (simp_all add: q'_def p'_def q_def txHwQueue_UpdateFreeBlocks_def Let_def)
  then show U': "unat (uNumBlksUsed q') = u'" by (simp add: u'_def)
  have free: "unat (uNumBlksUsed q - (uAllocatedBlksCntr q - fb)) = u - u'"
    using le by (simp add: unat_sub u_def u'_def word_le_nat_alt)
  have unch: "fb = uFwFreedBlksCntr q \<Longrightarrow> u' = u" using ok(1) by (simp add: u_def u'_def)
  have p': "uNumTotalBlksFree p' = uNumTotalBlksFree p + (uNumBlksUsed q - (uAllocatedBlksCntr q - fb))"
    using ok(1) by (simp add: p'_def q_def txHwQueue_UpdateFreeBlocks_def Let_def)
  have bound: "unat (uNumTotalBlksFree p) + u < 4294967296"
    using inv hwq_invD(3) [OF inv i] unat_u32_less [of "uNumTotalBlks p"]
    by (simp add: hwq_inv_def u_def q_def)
  then show "unat (uNumTotalBlksFree p') = unat (uNumTotalBlksFree p) + (u - u')"
    unfolding p' using le free by (subst unat_u32_add) simp_all
  show r': "unat (uNumBlksReserved q') = t - u'"
    using i len ok(2) le unch
    by (auto simp: q'_def p'_def q_def [symmetric] txHwQueue_UpdateFreeBlocks_def Let_def unat_sub
        word_less_nat_alt word_le_nat_alt u'_def [symmetric] t_def [symmetric])
  show "hwq_queue_ok q'"
    using used U' r' by (simp add: hwq_queue_ok_def t_def)
  have RF: "unat (uNumTotalBlksReserved p) \<le> unat (uNumTotalBlksFree p)"
    using inv by (simp add: hwq_inv_def word_le_nat_alt)
  have thr: "u' < t \<Longrightarrow> unat (uNumBlksThresh q - (uAllocatedBlksCntr q - fb)) = t - u'"
    by (simp add: unat_sub word_le_nat_alt t_def u'_def)
  show "unat (uNumTotalBlksReserved p') = unat (uNumTotalBlksReserved p) + ((t - u') - (t - u))"
  proof (cases "fb = uFwFreedBlksCntr q \<or> t \<le> u'")
    case True
    then have "uNumTotalBlksReserved p' = uNumTotalBlksReserved p"
      by (auto simp: p'_def q_def [symmetric] txHwQueue_UpdateFreeBlocks_def Let_def
          word_less_nat_alt t_def u'_def)
    moreover have "(t - u') - (t - u) = 0" using True unch by auto
    ultimately show ?thesis by simp
  next
    case False
    then have "uNumTotalBlksReserved p' = uNumTotalBlksReserved p +
        (if u - u' > t - u' then uNumBlksThresh q - (uAllocatedBlksCntr q - fb)
         else uNumBlksUsed q - (uAllocatedBlksCntr q - fb))"
      using free thr by (auto simp: p'_def q_def [symmetric] txHwQueue_UpdateFreeBlocks_def Let_def
          word_less_nat_alt u'_def [symmetric] t_def [symmetric])
    then show ?thesis using False free thr le bound RF by (auto simp: unat_u32_add)
  qed
qed

lemma hwq_inv_release:
  assumes inv: "hwq_inv p" and i: "i < MAX_NUM_OF_AC" and fw: "fw_blks_ok p i fb"
  shows "hwq_inv (txHwQueue_UpdateFreeBlocks p i fb)"
proof -
  let ?p' = "txHwQueue_UpdateFreeBlocks p i fb"
  let ?q = "aTxHwQueueInfo p ! i" and ?q' = "aTxHwQueueInfo ?p' ! i"
  note eff = UpdateFreeBlocks_effect [OF inv i fw]
  have len: "length (aTxHwQueueInfo p) = 4" using inv by (simp add: hwq_inv_def)
  have fields: "unat (uNumTotalBlksFree p) + used_blks p = unat (uNumTotalBlks p)"
      "unat (uNumTotalBlksReserved p) = reserved_blks p"
      "unat (uNumTotalBlksReserved p) \<le> unat (uNumTotalBlksFree p)"
      "unat (uNumBlksReserved ?q) = unat (uNumBlksThresh ?q) - unat (uNumBlksUsed ?q)"
    using inv hwq_invD(1) [OF inv i] by (simp_all add: hwq_inv_def hwq_queue_ok_def word_le_nat_alt)
  have "used_blks ?p' + unat (uNumBlksUsed ?q) = used_blks p + unat (uNumBlksUsed ?q')"
    using sum_map_update [of i "aTxHwQueueInfo p" "\<lambda>q. unat (uNumBlksUsed q)" ?q'] i len
    unfolding used_blks_def by (subst eff(1)) simp
  then have tot: "unat (uNumTotalBlksFree ?p') + used_blks ?p' = unat (uNumTotalBlks ?p')"
    using eff(3,4,6) fields(1) by simp
  have "reserved_blks ?p' + unat (uNumBlksReserved ?q) =
      reserved_blks p + unat (uNumBlksReserved ?q')"
    using sum_map_update [of i "aTxHwQueueInfo p" "\<lambda>q. unat (uNumBlksReserved q)" ?q'] i len
    unfolding reserved_blks_def by (subst eff(1)) simp
  then have res: "unat (uNumTotalBlksReserved ?p') = reserved_blks ?p'"
    using eff(4,7,8) fields(2,4) by arith
  have fit: "uNumTotalBlksReserved ?p' \<le> uNumTotalBlksFree ?p'"
    using eff(4,6,8) fields(3) unfolding word_le_nat_alt by arith
  have "list_all hwq_queue_ok (aTxHwQueueInfo ?p')"
    using inv eff(2) i by (subst eff(1)) (auto simp: hwq_inv_def list_all_length nth_list_update)
  moreover have "length (aTxHwQueueInfo ?p') = 4" using len by (subst eff(1)) simp
  ultimately show ?thesis using inv tot res fit by (simp add: hwq_inv_def)
qed

lemma fw_blks_ok_release:
  assumes "hwq_inv p" and "i < MAX_NUM_OF_AC" and "fw_blks_ok p i fb" and "fw_blks_ok p j fbj"
    and "j = i \<Longrightarrow> fbj = fb"
  shows "fw_blks_ok (txHwQueue_UpdateFreeBlocks p i fb) j fbj"
proof -
  note eff = UpdateFreeBlocks_effect [OF assms(1-3)]
  have len: "length (aTxHwQueueInfo p) = 4" using assms(1) by (simp add: hwq_inv_def)
  show ?thesis
  proof (cases "j = i")
    case True
    then show ?thesis using assms(5) eff(3,5) by (simp add: fw_blks_ok_def word_le_nat_alt)
  next
    case False
    have "aTxHwQueueInfo (txHwQueue_UpdateFreeBlocks p i fb) ! j = aTxHwQueueInfo p ! j"
      using False by (subst eff(1)) simp
    then show ?thesis using assms(4) by (simp add: fw_blks_ok_def)
  qed
qed

lemma descriptors_diff:
  fixes a c :: u8
  shows "c \<le> a \<Longrightarrow> unat (ucast a - ucast c :: u32) = unat (a - c)"
    and "\<not> c \<le> a \<Longrightarrow> unat (0x100 - (ucast c - ucast a) :: u32) = unat (a - c)"
proof -
  show "c \<le> a \<Longrightarrow> unat (ucast a - ucast c :: u32) = unat (a - c)"
    by (simp add: unat_sub word_le_nat_alt)
  assume "\<not> c \<le> a"
  moreover have "unat c < 256" by (rule unat_u8_less)
  ultimately show "unat (0x100 - (ucast c - ucast a) :: u32) = unat (a - c)"
    by (auto simp: unat_sub word_le_nat_alt unat_sub_if')
qed

lemma update_descriptors_used:
  assumes inv: "hwq_inv p" and le: "unat (uDrvTxPacketsCntr p - c) \<le> unat (uNumUsedDescriptors p)"
  shows "hwq_inv (update_descriptors p c)"
    and "unat (uNumUsedDescriptors (update_descriptors p c)) = unat (uDrvTxPacketsCntr p - c)"
proof -
  have "unat (uNumUsedDescriptors (update_descriptors p c)) = unat (uDrvTxPacketsCntr p - c)"
  proof (cases "c = uFwTxResultsCntr p")
    case True
    then show ?thesis using inv by (simp add: update_descriptors_def hwq_inv_def)
  next
    case False
    then show ?thesis
      by (auto simp: update_descriptors_def descriptors_diff)
  qed
  then show "unat (uNumUsedDescriptors (update_descriptors p c)) = unat (uDrvTxPacketsCntr p - c)" .
  moreover have "uFwTxResultsCntr (update_descriptors p c) = c"
    by (simp add: update_descriptors_def)
  moreover have "uNumUsedDescriptors p \<le> 32" using inv by (simp add: hwq_inv_def)
  ultimately show "hwq_inv (update_descriptors p c)"
    using inv le by (auto simp: hwq_inv_def update_descriptors_def used_blks_def reserved_blks_def
        word_le_nat_alt)
qed

lemma update_link_frame:
  assumes "update_link fw i (p, a, b) = (p', a', b')"
  shows "hwq_inv p' = hwq_inv p \<and> aTxHwQueueInfo p' = aTxHwQueueInfo p \<and>
    uNumUsedDescriptors p' = uNumUsedDescriptors p"
  using assms by (auto simp: update_link_def Let_def split: if_splits prod.splits)

lemma fold_update_link_frame:
  "fold (update_link fw) is (p, a, b) = (p', a', b') \<Longrightarrow>
     hwq_inv p' = hwq_inv p \<and> aTxHwQueueInfo p' = aTxHwQueueInfo p \<and>
     uNumUsedDescriptors p' = uNumUsedDescriptors p"
proof (induction "is" arbitrary: p a b)
  case (Cons i js)
  obtain p1 a1 b1 where "update_link fw i (p, a, b) = (p1, a1, b1)"
    by (cases "update_link fw i (p, a, b)")
  with Cons update_link_frame [OF this] show ?case by simp
qed simp

lemma release_queue_frame:
  "hwq_inv p \<Longrightarrow> release_queue i (p, b) = (p', b') \<Longrightarrow> hwq_inv p'"
  by (auto simp: release_queue_def Let_def same_blks_def intro!: hwq_inv_set_queue split: if_splits)

lemma fold_release_queue_frame:
  "hwq_inv p \<Longrightarrow> fold release_queue is (p, b) = (p', b') \<Longrightarrow> hwq_inv p'"
proof (induction "is" arbitrary: p b)
  case (Cons i js)
  then show ?case
    by (cases "release_queue i (p, b)") (auto dest: release_queue_frame)
qed simp

lemma fold_release_blocks:
  assumes "hwq_inv p" and "\<forall>j < MAX_NUM_OF_AC. fw_blks_ok p j (fb j)" and "set is \<subseteq> {..<MAX_NUM_OF_AC}"
  shows "hwq_inv (fold (\<lambda>i p. txHwQueue_UpdateFreeBlocks p i (fb i)) is p)"
  using assms
proof (induction "is" arbitrary: p)
  case (Cons i js)
  then have "\<forall>j < MAX_NUM_OF_AC. fw_blks_ok (txHwQueue_UpdateFreeBlocks p i (fb i)) j (fb j)"
    by (auto intro!: fw_blks_ok_release)
  then show ?case using Cons by (simp add: hwq_inv_release)
qed simp

lemma hwq_inv_UpdateFreeResources:
  assumes inv: "hwq_inv p" and fw: "fw_status_ok p fw"
    and res: "txHwQueue_UpdateFreeResources p fw = (cb, p')"
  shows "hwq_inv p'"
proof -
  define p1 where "p1 = update_descriptors p (txResultsCntr (counters fw))"
  obtain p2 a b where p2: "fold (update_link fw) [0..<7] (p1, 0, False) = (p2, a, b)"
    by (cases "fold (update_link fw) [0..<7] (p1, 0, False)")
  define p3 where
    "p3 = fold (\<lambda>i p. txHwQueue_UpdateFreeBlocks p i (txReleasedBlks fw ! i)) [0..<4] p2"
  have i1: "hwq_inv p1" and q1: "aTxHwQueueInfo p1 = aTxHwQueueInfo p"
    using update_descriptors_used(1) [OF inv] fw
    by (simp_all add: p1_def fw_status_ok_def) (simp add: update_descriptors_def)
  have i2: "hwq_inv p2" and q2: "aTxHwQueueInfo p2 = aTxHwQueueInfo p"
    using fold_update_link_frame [OF p2] i1 q1 by simp_all
  have i3: "hwq_inv p3" unfolding p3_def
    by (rule fold_release_blocks) (use i2 q2 fw in \<open>auto simp: fw_status_ok_def fw_blks_ok_def\<close>)
  obtain p4 c where p4: "fold release_queue [0..<4] (p3, 0) = (p4, c)"
    by (cases "fold release_queue [0..<4] (p3, 0)")
  have "p' = p4"
    using res p2 p4
    by (simp add: txHwQueue_UpdateFreeResources_def Let_def p1_def [symmetric] p3_def [symmetric]
        del: upt_rec_numeral)
  then show ?thesis using fold_release_queue_frame [OF i3 p4] by simp
qed

text \<open>The block estimate in natural numbers; none of its 32-bit operations wraps.\<close>

lemma unat_num_blks:
  fixes len :: u16
  defines "k \<equiv> (unat len + 20) div 256" and "r \<equiv> (unat len + 20) mod 256"
  shows "unat (num_blks_to_alloc len) = k + (if 4 * k + r + 34 > 252 then 2 else 1) + 2"
proof -
  let ?n = "ucast len + 20 :: u32"
  have l: "unat len < 65536" by (rule unat_u16_less)
  have n: "unat ?n = unat len + 20" using l by (subst unat_u32_add) simp_all
  have k: "unat (drop_bit 8 ?n) = k" by (simp add: drop_bit_eq_div unat_div n k_def)
  have kb: "k \<le> 256" using l by (simp add: k_def)
  have r: "unat (?n AND 0xFF) = r"
  proof -
    have "?n AND 0xFF = take_bit 8 ?n" by (simp add: take_bit_eq_mask mask_eq_exp_minus_1)
    then show ?thesis by (simp add: take_bit_eq_mod unat_mod n r_def)
  qed
  have rb: "r < 256" by (simp add: r_def)
  have p: "unat (push_bit 2 (drop_bit 8 ?n)) = 4 * k"
  proof -
    have "unat (drop_bit 8 ?n * 4) = unat (drop_bit 8 ?n) * unat (4 :: u32)"
      using kb k by (intro unat_mult_lem [THEN iffD1]) simp
    then show ?thesis using k by (simp add: push_bit_eq_mult)
  qed
  have e: "unat (push_bit 2 (drop_bit 8 ?n) + (?n AND 0xFF) + 48 - 14) = 4 * k + r + 34"
    using kb rb by (simp add: unat_sub word_le_nat_alt unat_u32_add p r)
  have "unat (drop_bit 8 ?n + (if b then 2 else 1) + 2) = k + (if b then 2 else 1) + 2" for b
    using kb by (simp add: unat_u32_add k)
  then show ?thesis using e by (simp add: num_blks_to_alloc_def Let_def word_less_nat_alt)
qed

lemma num_blks_pos: "num_blks_to_alloc len \<noteq> 0"
  using unat_num_blks [of len] by (auto simp: unat_eq_0 [symmetric])

section \<open>Allocation, case by case\<close>

lemma table_AC: "t < 8 \<Longrightarrow> WMEQosTagToACTable ! t < MAX_NUM_OF_AC"
  by (auto simp: WMEQosTagToACTable_def less_Suc_eq numeral_eq_Suc)

text \<open>The numbers the accounting is about, without the busy flags and the links.\<close>

definition hwq_acct where
  "hwq_acct p = (uNumTotalBlks p, uNumTotalBlksFree p, uNumTotalBlksReserved p,
     uNumUsedDescriptors p, uFwTxResultsCntr p, uDrvTxPacketsCntr p,
     map (\<lambda>q. (uNumBlksThresh q, uNumBlksUsed q, uNumBlksReserved q, uAllocatedBlksCntr q,
       uFwFreedBlksCntr q)) (aTxHwQueueInfo p))"

lemma hwq_acct_set_link [simp]: "hwq_acct (set_link p i f) = hwq_acct p"
  by (simp add: hwq_acct_def set_link_def)

lemma hwq_acct_set_queue: "(\<And>q. same_blks (f q) q) \<Longrightarrow> hwq_acct (set_queue p i f) = hwq_acct p"
  by (auto simp: hwq_acct_def set_queue_def same_blks_def intro!: map_update_same)

lemma set_queue_links [simp]: "aTxHwLinkInfo (set_queue p i f) = aTxHwLinkInfo p"
  by (simp add: set_queue_def)

lemma hwq_inv_acct:
  assumes "hwq_acct p = hwq_acct p'" and "length (aTxHwLinkInfo p) = length (aTxHwLinkInfo p')"
  shows "hwq_inv p = hwq_inv p'"
proof -
  let ?f = "\<lambda>q. (uNumBlksThresh q, uNumBlksUsed q, uNumBlksReserved q, uAllocatedBlksCntr q,
       uFwFreedBlksCntr q)"
  have f: "map ?f (aTxHwQueueInfo p) = map ?f (aTxHwQueueInfo p')"
    using assms(1) by (simp add: hwq_acct_def)
  have g: "map (g \<circ> ?f) (aTxHwQueueInfo p) = map (g \<circ> ?f) (aTxHwQueueInfo p')" for g :: "_ \<Rightarrow> 'b"
    using arg_cong [OF f, of "map g"] by simp
  have "used_blks p = used_blks p'" "reserved_blks p = reserved_blks p'"
    using g [of "\<lambda>(_, u, _). unat u"] g [of "\<lambda>(_, _, r, _). unat r"]
    by (simp_all add: used_blks_def reserved_blks_def comp_def)
  moreover have "list_all hwq_queue_ok xs = list_all id (map hwq_queue_ok xs)" for xs
    by (simp add: list.pred_map comp_def)
  then have "list_all hwq_queue_ok (aTxHwQueueInfo p) = list_all hwq_queue_ok (aTxHwQueueInfo p')"
    using g [of "\<lambda>(t, u, r, a, f). u = a - f \<and> unat r = unat t - unat u"]
    by (simp add: comp_def hwq_queue_ok_def [abs_def])
  moreover have "length (aTxHwQueueInfo p) = length (aTxHwQueueInfo p')"
    using arg_cong [OF f, of length] by simp
  ultimately show ?thesis using assms by (simp add: hwq_inv_def hwq_acct_def)
qed

lemma AllocResources_cases:
  assumes "txHwQueue_AllocResources p d = Some (st, p', d')"
  obtains
    (stop_link) "st = TX_HW_LINK_STATUS_STOP_CURRENT" "hwq_acct p' = hwq_acct p" "d' = d"
      "length (aTxHwLinkInfo p') = length (aTxHwLinkInfo p)"
  | (stop_queue) "st = TX_HW_QUE_STATUS_STOP_CURRENT" "hwq_acct p' = hwq_acct p" "d' = d"
      "length (aTxHwLinkInfo p') = length (aTxHwLinkInfo p)"
  | (alloc) i n where "i = WMEQosTagToACTable ! unat (tid d)" "i < MAX_NUM_OF_AC"
      "n = num_blks_to_alloc (tx_length d)"
      "n \<le> txHwQueue_CheckResources p (aTxHwQueueInfo p ! i)"
      "n \<le> txHwQueue_CheckLinkResources p (aTxHwLinkInfo p ! unat (hlid d))"
      "hwq_acct p' = hwq_acct (alloc_blks p i n)"
      "length (aTxHwLinkInfo p') = length (aTxHwLinkInfo p)"
      "d' = d\<lparr>extraMemBlks := 2, totalMemBlks := ucast n\<rparr>"
      "st \<in> {TX_HW_QUE_STATUS_SUCCESS, TX_HW_QUE_STATUS_STOP_NEXT, TX_HW_LINK_STATUS_STOP_NEXT,
         TX_HW_LINK_STATUS_STOP_NEXT OR TX_HW_QUE_STATUS_STOP_NEXT}"
proof -
  have len: "length (aTxHwLinkInfo (set_link p i f)) = length (aTxHwLinkInfo p)" for p i f
    by (simp add: set_link_def)
  have acct: "hwq_acct (set_queue p i (\<lambda>q. q\<lparr>uNumBlksCausedBusy := n, bQueueBusy := True\<rparr>)) = hwq_acct p"
    for p i n by (rule hwq_acct_set_queue) (simp add: same_blks_def)
  have "unat (tid d) < 8"
    using assms by (auto simp: txHwQueue_AllocResources_def WMEQosTagToACTable_def split: if_splits)
  then show ?thesis
    using assms stop_link stop_queue alloc [OF refl table_AC refl]
    by (auto simp: txHwQueue_AllocResources_def Let_def len acct not_less split: if_splits)
qed

lemma hwq_inv_AllocResources:
  assumes inv: "hwq_inv p" and res: "txHwQueue_AllocResources p d = Some (st, p', d')"
  shows "hwq_inv p'"
  using res
proof (cases rule: AllocResources_cases)
  case (alloc i n)
  then have "hwq_inv (alloc_blks p i n)" using hwq_inv_alloc [OF inv] num_blks_pos by simp
  then show ?thesis using alloc(6,7) hwq_inv_acct [of p' "alloc_blks p i n"] by simp
qed (use inv hwq_inv_acct [of p' p] in auto)

section \<open>Restart and the run of the module\<close>

lemma fold_reserved:
  "unat r + sum_list (map (\<lambda>q. unat (uNumBlksReserved q)) qs) < 4294967296 \<Longrightarrow>
     unat (fold (\<lambda>q r. r + uNumBlksReserved q) qs r) =
     unat r + sum_list (map (\<lambda>q. unat (uNumBlksReserved q)) qs)"
proof (induction qs arbitrary: r)
  case (Cons q qs)
  have "unat (r + uNumBlksReserved q) = unat r + unat (uNumBlksReserved q)"
    using Cons.prems by (intro unat_u32_add) simp
  with Cons show ?case by (simp add: add.assoc)
qed simp

definition thresh_blks :: "TTxHwQueue \<Rightarrow> nat" where
  "thresh_blks p = sum_list (map (\<lambda>q. unat (uNumBlksThresh q)) (aTxHwQueueInfo p))"

lemma hwq_inv_Restart:
  assumes "length (aTxHwQueueInfo p) = MAX_NUM_OF_AC" "length (aTxHwLinkInfo p) = WLANLINKS_MAX_LINKS"
    and thr: "thresh_blks p \<le> unat (uNumTotalBlks p)"
  shows "hwq_inv (txHwQueue_Restart p)"
proof -
  have res: "reserved_blks (txHwQueue_Restart p) = thresh_blks p"
    by (simp add: reserved_blks_def thresh_blks_def txHwQueue_Restart_def Let_def restart_queue_def
        comp_def)
  have "unat (uNumTotalBlksReserved (txHwQueue_Restart p)) = thresh_blks p"
    using fold_reserved [of 0 "map restart_queue (aTxHwQueueInfo p)"] thr
      unat_u32_less [of "uNumTotalBlks p"]
    by (simp add: txHwQueue_Restart_def Let_def comp_def thresh_blks_def restart_queue_def)
  moreover have "used_blks (txHwQueue_Restart p) = 0"
    by (simp add: used_blks_def txHwQueue_Restart_def Let_def restart_queue_def comp_def)
  moreover have "list_all hwq_queue_ok (aTxHwQueueInfo (txHwQueue_Restart p))"
    by (simp add: txHwQueue_Restart_def Let_def list_all_length hwq_queue_ok_def restart_queue_def)
  ultimately show ?thesis
    using assms res
    by (simp add: hwq_inv_def word_le_nat_alt) (simp add: txHwQueue_Restart_def Let_def)
qed

lemma thresh_le:
  "list_all hwq_queue_ok qs \<Longrightarrow> sum_list (map (\<lambda>q. unat (uNumBlksThresh q)) qs) \<le>
     sum_list (map (\<lambda>q. unat (uNumBlksReserved q)) qs) + sum_list (map (\<lambda>q. unat (uNumBlksUsed q)) qs)"
  by (induction qs) (auto simp: hwq_queue_ok_def)

lemma hwq_inv_thresh: "hwq_inv p \<Longrightarrow> thresh_blks p \<le> unat (uNumTotalBlks p)"
  using thresh_le [of "aTxHwQueueInfo p"]
  by (auto simp: hwq_inv_def thresh_blks_def reserved_blks_def used_blks_def word_le_nat_alt)

text \<open>
  The module starts with creation, configuration of the thresholds and of the number of blocks,
  where the thresholds fit into the blocks.  Then the transmit path allocates, the firmware
  status is processed, links come and go, the upper layer registers its callback, and recovery
  restarts the module.
\<close>

inductive hwq_init :: "TTxHwQueue \<Rightarrow> bool" where
  "txHwQueue_Create pMem = Some p \<Longrightarrow> length thr = MAX_NUM_OF_AC \<Longrightarrow>
   sum_list (map unat thr) \<le> unat (NumTxBlocks - 1) \<Longrightarrow>
   hwq_init (txHwQueue_SetHwInfo (txHwQueue_Config p thr) NumTxBlocks)"

inductive hwq_step :: "TTxHwQueue \<Rightarrow> TTxHwQueue \<Rightarrow> bool" where
  alloc: "txHwQueue_AllocResources p d = Some (st, p', d') \<Longrightarrow> hwq_step p p'"
| free: "fw_status_ok p fw \<Longrightarrow> txHwQueue_UpdateFreeResources p fw = (cb, p') \<Longrightarrow> hwq_step p p'"
| add_link: "hwq_step p (txHwQueue_AddLink p)"
| remove_link: "hwq_step p (txHwQueue_RemoveLink p)"
| register: "hwq_step p (txHwQueue_RegisterCb p b f h)"
| restart: "hwq_step p (txHwQueue_Restart p)"

lemma hwq_inv_init: "hwq_init p \<Longrightarrow> hwq_inv p"
proof (induction rule: hwq_init.induct)
  case (1 pMem p thr NumTxBlocks)
  let ?p = "(txHwQueue_Config p thr)\<lparr>uNumTotalBlks := NumTxBlocks - 1\<rparr>"
  have "map (\<lambda>q. unat (uNumBlksThresh q)) (aTxHwQueueInfo ?p) = map unat thr"
    using 1(1,2) by (intro nth_equalityI) (simp_all add: txHwQueue_Config_def del: upt_rec_numeral)
  then have "thresh_blks ?p = sum_list (map unat thr)" by (simp only: thresh_blks_def)
  moreover have "length (aTxHwLinkInfo ?p) = 7"
    using 1(1) by (auto simp: txHwQueue_Config_def txHwQueue_Create_def split: if_splits)
  moreover have "length (aTxHwQueueInfo ?p) = 4" by (simp add: txHwQueue_Config_def)
  ultimately show ?case
    unfolding txHwQueue_SetHwInfo_def using 1(3) by (intro hwq_inv_Restart) simp_all
qed

lemma hwq_inv_admin:
  "hwq_inv (txHwQueue_AddLink p) = hwq_inv p" "hwq_inv (txHwQueue_RemoveLink p) = hwq_inv p"
  "hwq_inv (txHwQueue_RegisterCb p b f h) = hwq_inv p"
  by (simp_all add: hwq_inv_def used_blks_def reserved_blks_def txHwQueue_AddLink_def
      txHwQueue_RemoveLink_def txHwQueue_RegisterCb_def)

lemma hwq_inv_step: "hwq_inv p \<Longrightarrow> hwq_step p p' \<Longrightarrow> hwq_inv p'"
proof (erule hwq_step.cases, goal_cases)
  case (6 q)
  then show ?case using hwq_inv_Restart hwq_inv_thresh by (simp add: hwq_inv_def)
qed (auto dest: hwq_inv_AllocResources hwq_inv_UpdateFreeResources simp: hwq_inv_admin)

interpretation hwq: safety hwq_init hwq_step hwq_inv
  by unfold_locales (auto intro: hwq_inv_init hwq_inv_step)

section \<open>Stopped queues\<close>

lemma CheckResources_set_queue [simp]:
  "txHwQueue_CheckResources (set_queue p i f) q = txHwQueue_CheckResources p q"
  by (simp add: txHwQueue_CheckResources_def set_queue_def)

text \<open>A queue is left stopped only while the packet that stopped it does not fit.\<close>

definition stop_justified :: "TTxHwQueue \<Rightarrow> nat \<Rightarrow> bool" where
  "stop_justified p i \<longleftrightarrow> (bQueueBusy (aTxHwQueueInfo p ! i) \<longrightarrow>
     txHwQueue_CheckResources p (aTxHwQueueInfo p ! i) < uNumBlksCausedBusy (aTxHwQueueInfo p ! i))"

lemma release_queue_justified:
  assumes "release_queue i (p, b) = (p', b')" and "i < length (aTxHwQueueInfo p)"
  shows "stop_justified p' i" and "j \<noteq> i \<Longrightarrow> stop_justified p' j = stop_justified p j"
    and "length (aTxHwQueueInfo p') = length (aTxHwQueueInfo p)"
    and "bit b' j \<longleftrightarrow> bit b j \<or> j = i \<and> i < 32 \<and>
      bQueueBusy (aTxHwQueueInfo p ! i) \<and> \<not> bQueueBusy (aTxHwQueueInfo p' ! i)"
    and "j \<noteq> i \<Longrightarrow> aTxHwQueueInfo p' ! j = aTxHwQueueInfo p ! j"
  using assms
  by (auto simp: release_queue_def Let_def stop_justified_def not_le set_queue_def
      txHwQueue_CheckResources_def bit_simps split: if_splits)

lemma fold_release_justified:
  assumes "fold release_queue is (p, b) = (p', b')" and "\<forall>i \<in> set is. i < length (aTxHwQueueInfo p)"
    and "distinct is"
  shows "(\<forall>i \<in> set is. stop_justified p' i) \<and>
    (\<forall>j. j \<notin> set is \<longrightarrow> stop_justified p' j = stop_justified p j \<and>
       aTxHwQueueInfo p' ! j = aTxHwQueueInfo p ! j) \<and>
    (\<forall>j. bit b' j \<longleftrightarrow> bit b j \<or> j \<in> set is \<and> j < 32 \<and>
      bQueueBusy (aTxHwQueueInfo p ! j) \<and> \<not> bQueueBusy (aTxHwQueueInfo p' ! j))"
  using assms
proof (induction "is" arbitrary: p b)
  case (Cons i js)
  obtain p1 b1 where r: "release_queue i (p, b) = (p1, b1)" by (cases "release_queue i (p, b)")
  have i: "i < length (aTxHwQueueInfo p)" using Cons.prems(2) by simp
  note j = release_queue_justified [OF r i]
  have IH: "\<And>x. x \<in> set js \<Longrightarrow> stop_justified p' x"
      "\<And>x. x \<notin> set js \<Longrightarrow> stop_justified p' x = stop_justified p1 x"
      "\<And>x. x \<notin> set js \<Longrightarrow> aTxHwQueueInfo p' ! x = aTxHwQueueInfo p1 ! x"
      "\<And>x. bit b' x \<longleftrightarrow> bit b1 x \<or> x \<in> set js \<and> x < 32 \<and>
        bQueueBusy (aTxHwQueueInfo p1 ! x) \<and> \<not> bQueueBusy (aTxHwQueueInfo p' ! x)"
    using Cons.IH [of p1 b1] Cons.prems r j(3) by simp_all
  have "i \<notin> set js" using Cons.prems(3) by simp
  then have "bit b' x \<longleftrightarrow> bit b x \<or> x \<in> set (i # js) \<and> x < 32 \<and>
        bQueueBusy (aTxHwQueueInfo p ! x) \<and> \<not> bQueueBusy (aTxHwQueueInfo p' ! x)" for x
    using IH(3) [of i] IH(4) [of x] j(4) [of x] j(5) [of x] by (cases "x = i") auto
  moreover have "stop_justified p' x" if "x \<in> set (i # js)" for x
    using that IH(1,2) j(1) \<open>i \<notin> set js\<close> by auto
  ultimately show ?case using IH(2,3) j(2,5) by simp
qed simp

lemma fold_release_busy:
  "map bQueueBusy (aTxHwQueueInfo (fold (\<lambda>i p. txHwQueue_UpdateFreeBlocks p i (fb i)) is p)) =
   map bQueueBusy (aTxHwQueueInfo p)"
proof (induction "is" arbitrary: p)
  case (Cons i js)
  have "map bQueueBusy (aTxHwQueueInfo (txHwQueue_UpdateFreeBlocks p i (fb i))) =
      map bQueueBusy (aTxHwQueueInfo p)"
    by (auto simp: txHwQueue_UpdateFreeBlocks_def Let_def intro!: map_update_same)
  with Cons show ?case by simp
qed simp

section \<open>Properties\<close>

text \<open>
  A concrete module for the witnesses: 100 usable blocks, 20 reserved for each category, and the
  state after one voice packet of 1500 bytes on link 1.
\<close>

definition hwq_ex :: TTxHwQueue where
  "hwq_ex = txHwQueue_SetHwInfo (txHwQueue_Config (the (txHwQueue_Create 4096)) [20, 20, 20, 20]) 101"

definition hwq_ex_pkt :: TxIfDescriptor_t where
  "hwq_ex_pkt = \<lparr>tx_length = 1500, extraMemBlks = 0, totalMemBlks = 0, startTime = 0, lifeTime = 0,
     txAttr = 0, descID = 5, tid = 6, hlid = 1\<rparr>"

definition hwq_ex1 :: TTxHwQueue where
  "hwq_ex1 = fst (snd (the (txHwQueue_AllocResources hwq_ex hwq_ex_pkt)))"

lemma hwq_ex_init: "hwq_init hwq_ex"
proof -
  have "txHwQueue_Create 4096 = Some (the (txHwQueue_Create 4096))"
    by (simp add: txHwQueue_Create_def)
  then show ?thesis unfolding hwq_ex_def by (rule hwq_init.intros) simp_all
qed

lemma hwq_ex_eval:
  "fst (the (txHwQueue_AllocResources hwq_ex hwq_ex_pkt)) = TX_HW_QUE_STATUS_SUCCESS"
  "txHwQueue_AllocResources hwq_ex hwq_ex_pkt \<noteq> None"
  "uNumUsedDescriptors hwq_ex1 < NUM_TX_DESCRIPTORS"
  "uNumTotalBlksFree hwq_ex1 = 91" "uNumTotalBlksReserved hwq_ex1 = 71"
  by code_simp+

lemma hwq_ex1_reach: "hwq_step\<^sup>*\<^sup>* hwq_ex hwq_ex1"
proof -
  obtain st p' d' where "txHwQueue_AllocResources hwq_ex hwq_ex_pkt = Some (st, p', d')"
    using hwq_ex_eval(2) by (cases "txHwQueue_AllocResources hwq_ex hwq_ex_pkt") auto
  then show ?thesis using hwq_step.alloc by (simp add: hwq_ex1_def r_into_rtranclp)
qed

text \<open>
  C6: the block accounting is right in every reachable state.  From initialisation on, through any
  sequence of allocations, firmware status updates, link changes, callback registrations and
  restarts, free and used blocks add up to the total, every category reserves exactly what its
  threshold exceeds its use by, the reservations fit into the free blocks, and the descriptor
  count agrees with the 8-bit packet counters and never exceeds the 32 descriptors.
\<close>

theorem hwq_accounting:
  assumes "hwq_init p" and "hwq_step\<^sup>*\<^sup>* p p'"
  shows "hwq_inv p'"
  using assms by (rule hwq.reach_inv)

theorem hwq_accounting_witness: "hwq_inv hwq_ex1 \<and> uNumTotalBlksFree hwq_ex1 = 91"
  using hwq_accounting [OF hwq_ex_init hwq_ex1_reach] hwq_ex_eval(4) by simp

text \<open>
  C14: no category is ever denied its threshold.  In every reachable state with a free descriptor,
  what a category uses plus what is available to it is at least its threshold, however much the
  other categories use; and what is available to it never exceeds the free blocks.
\<close>

theorem hwq_threshold_guaranteed:
  assumes "hwq_init p" and "hwq_step\<^sup>*\<^sup>* p p'" and "i < MAX_NUM_OF_AC"
    and "uNumUsedDescriptors p' < NUM_TX_DESCRIPTORS"
  shows "unat (uNumBlksThresh (aTxHwQueueInfo p' ! i)) \<le>
           unat (uNumBlksUsed (aTxHwQueueInfo p' ! i)) +
           unat (txHwQueue_CheckResources p' (aTxHwQueueInfo p' ! i)) \<and>
         txHwQueue_CheckResources p' (aTxHwQueueInfo p' ! i) \<le> uNumTotalBlksFree p'"
proof -
  have inv: "hwq_inv p'" using assms(1,2) by (rule hwq.reach_inv)
  have "unat (uNumTotalBlksReserved p') \<le> unat (uNumTotalBlksFree p')"
    using inv by (simp add: hwq_inv_def word_le_nat_alt)
  then show ?thesis
    using hwq_available [OF inv assms(3,4)] hwq_invD(1,2) [OF inv assms(3)] inv
    by (auto simp: hwq_queue_ok_def word_le_nat_alt hwq_inv_def)
qed

theorem hwq_threshold_guaranteed_witness:
  "20 \<le> 0 + unat (txHwQueue_CheckResources hwq_ex1 (aTxHwQueueInfo hwq_ex1 ! 0))"
proof -
  have "uNumBlksThresh (aTxHwQueueInfo hwq_ex1 ! 0) = 20" "uNumBlksUsed (aTxHwQueueInfo hwq_ex1 ! 0) = 0"
    by code_simp+
  then show ?thesis
    using hwq_threshold_guaranteed [OF hwq_ex_init hwq_ex1_reach _ hwq_ex_eval(3), of 0] by simp
qed

text \<open>
  C13: releasing what was allocated restores the accounting.  If a category allocates \<open>n\<close> blocks and
  the firmware then reports \<open>n\<close> more released, the free, reserved and used numbers are what they
  were, whatever the values of the free-running counters.
\<close>

theorem hwq_alloc_release_roundtrip:
  assumes "hwq_inv p" and "i < MAX_NUM_OF_AC" and "n \<noteq> 0"
    and "n \<le> txHwQueue_CheckResources p (aTxHwQueueInfo p ! i)"
    and "p' = txHwQueue_UpdateFreeBlocks (alloc_blks p i n) i
           (uFwFreedBlksCntr (aTxHwQueueInfo p ! i) + n)"
  shows "uNumTotalBlksFree p' = uNumTotalBlksFree p \<and>
    uNumTotalBlksReserved p' = uNumTotalBlksReserved p \<and>
    uNumBlksUsed (aTxHwQueueInfo p' ! i) = uNumBlksUsed (aTxHwQueueInfo p ! i) \<and>
    uNumBlksReserved (aTxHwQueueInfo p' ! i) = uNumBlksReserved (aTxHwQueueInfo p ! i)"
proof -
  let ?a = "alloc_blks p i n" and ?q = "aTxHwQueueInfo p ! i"
  let ?qa = "aTxHwQueueInfo ?a ! i" and ?q' = "aTxHwQueueInfo p' ! i"
  let ?fb = "uFwFreedBlksCntr ?q + n"
  have inva: "hwq_inv ?a" using hwq_inv_alloc assms(1-4) by blast
  have len: "length (aTxHwQueueInfo p) = 4" using assms(1) by (simp add: hwq_inv_def)
  have qa: "uAllocatedBlksCntr ?qa = uAllocatedBlksCntr ?q + n" "uNumBlksUsed ?qa = uNumBlksUsed ?q + n"
      "uNumBlksThresh ?qa = uNumBlksThresh ?q"
    using assms(2) len by (simp_all add: alloc_blks_def Let_def split: prod.split)
  have used: "uAllocatedBlksCntr ?qa - ?fb = uNumBlksUsed ?q"
    using hwq_invD(1) [OF assms(1,2)] by (simp add: qa hwq_queue_ok_def)
  have free: "uNumTotalBlksFree ?a = uNumTotalBlksFree p - n"
    by (simp add: alloc_blks_def Let_def split: prod.split)
  have d: "uNumUsedDescriptors p < 32"
    using assms(3,4) by (auto simp: txHwQueue_CheckResources_def split: if_splits)
  have nF: "n \<le> uNumTotalBlksFree p"
    using hwq_available [OF assms(1,2) d] assms(4) by (simp add: word_le_nat_alt)
  have sum: "unat (uNumBlksUsed ?q + n) = unat (uNumBlksUsed ?q) + unat n"
    using nF hwq_invD(3) [OF assms(1,2)] assms(1) unat_u32_less [of "uNumTotalBlks p"]
    by (intro unat_u32_add) (simp add: hwq_inv_def word_le_nat_alt)
  have ok: "fw_blks_ok ?a i ?fb"
    unfolding fw_blks_ok_def used using sum by (simp add: qa word_le_nat_alt)
  note eff = UpdateFreeBlocks_effect [OF inva assms(2) ok, folded assms(5), unfolded used]
  have inv': "hwq_inv p'" unfolding assms(5) by (rule hwq_inv_release [OF inva assms(2) ok])
  have F: "unat (uNumTotalBlksFree p') = unat (uNumTotalBlksFree p)"
    using eff(6) sum nF by (simp add: qa free unat_sub word_le_nat_alt)
  have r: "unat (uNumBlksReserved ?q') = unat (uNumBlksReserved ?q)"
    using eff(7) hwq_invD(1) [OF assms(1,2)] by (simp add: qa hwq_queue_ok_def)
  have "reserved_blks p' = reserved_blks p"
  proof -
    have "aTxHwQueueInfo p' = (aTxHwQueueInfo p)[i := ?q']"
      using eff(1) by (simp add: alloc_blks_def Let_def split: prod.splits)
    then show ?thesis
      using sum_map_update [of i "aTxHwQueueInfo p" "\<lambda>q. unat (uNumBlksReserved q)" ?q'] r assms(2) len
      unfolding reserved_blks_def by (metis add_right_cancel)
  qed
  then have "unat (uNumTotalBlksReserved p') = unat (uNumTotalBlksReserved p)"
    using inv' assms(1) by (simp add: hwq_inv_def)
  then show ?thesis using F r eff(3) by (simp add: word_unat_eq_iff)
qed

theorem hwq_alloc_release_roundtrip_witness:
  "uNumTotalBlksFree (txHwQueue_UpdateFreeBlocks (alloc_blks hwq_ex 3 9) 3 9) = uNumTotalBlksFree hwq_ex"
proof -
  have "(9 :: u32) \<le> txHwQueue_CheckResources hwq_ex (aTxHwQueueInfo hwq_ex ! 3)"
    "uFwFreedBlksCntr (aTxHwQueueInfo hwq_ex ! 3) + 9 = 9"
    by code_simp+
  then show ?thesis
    using hwq_alloc_release_roundtrip [OF hwq_inv_init [OF hwq_ex_init], of 3 9] by simp
qed





text \<open>
  C17: a stopped queue is released as soon as its packet fits.  After a firmware status has been
  processed, a queue is still stopped only if the packet that stopped it needs more blocks than
  are available to it; and when the upper layer is called, the queue bitmap it gets has exactly the
  bits of the queues this status released.
\<close>

theorem hwq_stopped_queue_released:
  assumes "length (aTxHwQueueInfo p) = MAX_NUM_OF_AC"
    and "txHwQueue_UpdateFreeResources p fw = (cb, p')" and "i < MAX_NUM_OF_AC"
  shows "stop_justified p' i \<and>
    (case cb of None \<Rightarrow> True | Some (hCb, uBackpressure, uLinkBackpressure) \<Rightarrow>
       bit uBackpressure i \<longleftrightarrow>
         bQueueBusy (aTxHwQueueInfo p ! i) \<and> \<not> bQueueBusy (aTxHwQueueInfo p' ! i))"
proof -
  define p1 where "p1 = update_descriptors p (txResultsCntr (counters fw))"
  obtain p2 a b where p2: "fold (update_link fw) [0..<7] (p1, 0, False) = (p2, a, b)"
    by (cases "fold (update_link fw) [0..<7] (p1, 0, False)")
  define p3 where
    "p3 = fold (\<lambda>i p. txHwQueue_UpdateFreeBlocks p i (txReleasedBlks fw ! i)) [0..<4] p2"
  obtain p4 c where p4: "fold release_queue [0..<4] (p3, 0) = (p4, c)"
    by (cases "fold release_queue [0..<4] (p3, 0)")
  have q2: "aTxHwQueueInfo p2 = aTxHwQueueInfo p"
    using fold_update_link_frame [OF p2] by (simp add: p1_def update_descriptors_def)
  have q3: "map bQueueBusy (aTxHwQueueInfo p3) = map bQueueBusy (aTxHwQueueInfo p2)"
    unfolding p3_def by (rule fold_release_busy)
  then have len: "length (aTxHwQueueInfo p3) = 4" and
    busy: "bQueueBusy (aTxHwQueueInfo p3 ! i) = bQueueBusy (aTxHwQueueInfo p ! i)"
    using q2 assms(1,3) map_eq_imp_length_eq [OF q3] by (simp, metis nth_map)
  have "p' = p4" "\<And>h x y. cb = Some (h, x, y) \<Longrightarrow> x = c"
    using assms(2) p2 p4
    by (auto simp: txHwQueue_UpdateFreeResources_def Let_def p1_def [symmetric] p3_def [symmetric]
        split: if_splits simp del: upt_rec_numeral)
  then show ?thesis
    using fold_release_justified [OF p4] len assms(3) busy by (auto split: option.split)
qed

definition fw_ex :: FwStatus_t where
  "fw_ex = \<lparr>intrStatus = 0, counters = 0, rxPktsDesc = replicate 8 0, txReleasedBlks = [0, 0, 0, 0],
     fwLocalTime = 0, linkPsBitmap = 0, txLinkFreeBlks = replicate 7 0\<rparr>"

definition hwq_ex_stopped :: TTxHwQueue where
  "hwq_ex_stopped = set_queue (txHwQueue_RegisterCb hwq_ex True 8192 12288) 3
     (\<lambda>q. q\<lparr>uNumBlksCausedBusy := 9, bQueueBusy := True\<rparr>)"

theorem hwq_stopped_queue_released_witness:
  "fst (txHwQueue_UpdateFreeResources hwq_ex_stopped fw_ex) = Some (12288, 8, 127) \<and>
   bit (8 :: u32) 3 \<and> bQueueBusy (aTxHwQueueInfo hwq_ex_stopped ! 3) \<and>
   \<not> bQueueBusy (aTxHwQueueInfo (snd (txHwQueue_UpdateFreeResources hwq_ex_stopped fw_ex)) ! 3)"
proof -
  have "fst (txHwQueue_UpdateFreeResources hwq_ex_stopped fw_ex) = Some (12288, 8, 127)"
    "length (aTxHwQueueInfo hwq_ex_stopped) = 4" "bQueueBusy (aTxHwQueueInfo hwq_ex_stopped ! 3)"
    "bit (8 :: u32) 3"
    by code_simp+
  then show ?thesis
    using hwq_stopped_queue_released [of hwq_ex_stopped fw_ex _ _ 3,
        OF _ prod.collapse [symmetric]] by simp
qed

text \<open>
  C18: the blocks available to a link.  While the firmware's 8-bit release counter of a link has not
  overtaken the driver's 8-bit allocation counter, the result is the link's maximum minus the
  blocks outstanding, and zero when more are outstanding.  Once the allocation counter has wrapped
  and the release counter has not, the promoted subtraction is negative: the result exceeds the
  link's maximum by the difference of the counters, although blocks are still outstanding.
\<close>

theorem hwq_link_available:
  fixes l :: TTxHwLinkInfo
  defines "H \<equiv> unat (uHostAlloc l)" and "F \<equiv> unat (uFwFree l)" and "M \<equiv> unat (uFwMax l)"
  assumes "uNumUsedDescriptors p < NUM_TX_DESCRIPTORS" and "M \<le> 72"
  shows "unat (txHwQueue_CheckLinkResources p l) = (if F \<le> H then M - (H - F) else M + (F - H))"
proof -
  let ?a = "uFwMax l - (ucast (uHostAlloc l) - ucast (uFwFree l)) :: u32"
  have h: "H < 256" and f: "F < 256" by (simp_all add: H_def F_def unat_u8_less)
  have u: "uint ?a = (int M - (int H - int F)) mod 4294967296"
    by (simp add: uint_word_ariths M_def H_def F_def mod_simps flip: uint_nat)
  have "sint ?a = int M - (int H - int F)"
    using h f assms(5) by (intro sint_u32 [OF u]) simp_all
  moreover have "H - F \<le> M \<or> \<not> F \<le> H \<Longrightarrow>
      unat ?a = (if F \<le> H then M - (H - F) else M + (F - H))"
    using u h f assms(5) by (auto simp: nat_eq_iff2 unat_eq_nat_uint of_nat_diff)
  ultimately show ?thesis
    using assms(4) by (auto simp: txHwQueue_CheckLinkResources_def Let_def)
qed

theorem hwq_link_available_witness:
  "let l = \<lparr>uFwMax = 72, uFwFree = 250, uHostAlloc = 10, uLastAllocNumBlks = 9, bBusy = False,
        uLinkBlksCausedBusy = 0, bEnabled = True\<rparr>
   in unat (txHwQueue_CheckLinkResources hwq_ex l) = 312 \<and> uHostAlloc l - uFwFree l = 16"
proof -
  have "uNumUsedDescriptors hwq_ex < 32" by code_simp
  then show ?thesis
    using hwq_link_available [of hwq_ex "\<lparr>uFwMax = 72, uFwFree = 250, uHostAlloc = 10,
        uLastAllocNumBlks = 9, bBusy = False, uLinkBlksCausedBusy = 0, bEnabled = True\<rparr>"]
    by simp
qed

end
