(* ===== verification/RxQueue.thy ===== *)
theory RxQueue
  imports Prelude "HOL-Library.Multiset"
begin

text \<open>
  The block-ack receive queue (\<^verbatim>\<open>TWD/Data_Service/RxQueue.c\<close>): it puts the frames of an aggregated
  stream back into sequence order, per traffic identifier (TID), with an eight-slot circular
  array.

  A received buffer is a value \<open>RxBuf\<close>: the fields of its descriptor that the module reads or
  writes, and the frame bytes.  A null packet pointer is \<open>None\<close>.  The call of the registered
  receive callback is output: each operation returns the list of buffers it handed up, in order.
  The optimised circular array is related to a plain eight-element window, on which the
  order, the conservation of buffers and the invariant are proved.
\<close>

section \<open>The source\<close>

abbreviation (input) RX_QUEUE_ARRAY_SIZE :: "nat" where "RX_QUEUE_ARRAY_SIZE \<equiv> 8"
abbreviation (input) RX_QUEUE_ARRAY_SIZE_BIT_MASK :: "u32" where "RX_QUEUE_ARRAY_SIZE_BIT_MASK \<equiv> 0x7"
abbreviation (input) RX_QUEUE_WIN_SIZE :: "u32" where "RX_QUEUE_WIN_SIZE \<equiv> 8"
abbreviation (input) SEQ_NUM_WRAP :: "u32" where "SEQ_NUM_WRAP \<equiv> 0x1000"
abbreviation (input) SEQ_NUM_MASK :: "u32" where "SEQ_NUM_MASK \<equiv> 0xFFF"
abbreviation (input) MAX_NUM_OF_802_1d_TAGS :: "u8" where "MAX_NUM_OF_802_1d_TAGS \<equiv> 8"

abbreviation (input) DOT11_SC_SEQ_NUM_MASK :: "u16" where "DOT11_SC_SEQ_NUM_MASK \<equiv> 0xFFF0"
abbreviation (input) DOT11_QOS_CONTROL_FIELD_TID_BITS :: "u16" where "DOT11_QOS_CONTROL_FIELD_TID_BITS \<equiv> 0x000F"
abbreviation (input) DOT11_QOS_CONTROL_FIELD_A_MSDU_BITS :: "u16" where "DOT11_QOS_CONTROL_FIELD_A_MSDU_BITS \<equiv> 0x0080"
abbreviation (input) DOT11_BAR_CONTROL_FIELD_TID_BITS :: "u16" where "DOT11_BAR_CONTROL_FIELD_TID_BITS \<equiv> 0xF000"
abbreviation (input) DOT11_BA_PARAMETER_SET_FIELD_TID_BITS :: "u16" where "DOT11_BA_PARAMETER_SET_FIELD_TID_BITS \<equiv> 0x003C"
abbreviation (input) DOT11_BA_PARAMETER_SET_FIELD_WINSIZE_BITS :: "u16" where "DOT11_BA_PARAMETER_SET_FIELD_WINSIZE_BITS \<equiv> 0xFFC0"
abbreviation (input) DOT11_DELBA_PARAMETER_FIELD_TID_BITS :: "u16" where "DOT11_DELBA_PARAMETER_FIELD_TID_BITS \<equiv> 0xF000"
abbreviation (input) DOT11_FC_SUB_MASK :: "u16" where "DOT11_FC_SUB_MASK \<equiv> 0x00F0"
abbreviation (input) DOT11_FC_TYPESUBTYPE_MASK :: "u16" where "DOT11_FC_TYPESUBTYPE_MASK \<equiv> 0x00FC"
abbreviation (input) DOT11_FC_DATA_QOS :: "u16" where "DOT11_FC_DATA_QOS \<equiv> 0x0088"
abbreviation (input) DOT11_FC_DATA_NULL_QOS :: "u16" where "DOT11_FC_DATA_NULL_QOS \<equiv> 0x00C8"
abbreviation (input) DOT11_FC_SUB_BAR :: "u16" where "DOT11_FC_SUB_BAR \<equiv> 0x0080"
abbreviation (input) DOT11_FC_SUB_ACTION :: "u16" where "DOT11_FC_SUB_ACTION \<equiv> 0x00D0"
abbreviation (input) DOT11_BA_ACTION_ADDBA :: "u8" where "DOT11_BA_ACTION_ADDBA \<equiv> 0"
abbreviation (input) DOT11_BA_ACTION_DELBA :: "u8" where "DOT11_BA_ACTION_DELBA \<equiv> 2"
abbreviation (input) RX_DESC_STATUS_MASK :: "u8" where "RX_DESC_STATUS_MASK \<equiv> 3"
abbreviation (input) RX_DESC_STATUS_DRIVER_RX_Q_FAIL :: "u8" where "RX_DESC_STATUS_DRIVER_RX_Q_FAIL \<equiv> 3"

text \<open>\<open>PacketClassTag_e\<close> is a byte in the descriptor: the firmware may write any value into it.\<close>

type_synonym PacketClassTag_e = u8

abbreviation (input) TAG_CLASS_QOS_DATA :: "PacketClassTag_e" where "TAG_CLASS_QOS_DATA \<equiv> 3"
abbreviation (input) TAG_CLASS_BA_EVENT :: "PacketClassTag_e" where "TAG_CLASS_BA_EVENT \<equiv> 6"
abbreviation (input) TAG_CLASS_AMSDU :: "PacketClassTag_e" where "TAG_CLASS_AMSDU \<equiv> 7"

record RxBuf =
  rx_status :: u8
  packet_class_tag :: PacketClassTag_e
  frame :: "u8 list"

text \<open>Frame bytes; the memory behind the frame is not modelled and reads as zero.\<close>

definition byte_at :: "RxBuf \<Rightarrow> nat \<Rightarrow> u8" where
  "byte_at b i = (if i < length (frame b) then frame b ! i else 0)"

definition COPY_WLAN_WORD :: "RxBuf \<Rightarrow> nat \<Rightarrow> u16" where
  "COPY_WLAN_WORD b off = ucast (byte_at b off) OR push_bit 8 (ucast (byte_at b (off + 1)))"

text \<open>Offsets of \<^verbatim>\<open>fc\<close>, \<^verbatim>\<open>seqCtrl\<close> and \<^verbatim>\<open>qosControl\<close> in \<^verbatim>\<open>dot11_header_t\<close>, and the header sizes.\<close>

abbreviation (input) off_fc :: "nat" where "off_fc \<equiv> 0"
abbreviation (input) off_seqCtrl :: "nat" where "off_seqCtrl \<equiv> 22"
abbreviation (input) off_qosControl :: "nat" where "off_qosControl \<equiv> 24"
abbreviation (input) sizeof_dot11_BarFrameHeader_t :: "nat" where "sizeof_dot11_BarFrameHeader_t \<equiv> 16"
abbreviation (input) sizeof_dot11_mgmtHeader_t :: "nat" where "sizeof_dot11_mgmtHeader_t \<equiv> 24"

definition IS_QOS_FRAME :: "u16 \<Rightarrow> bool" where
  "IS_QOS_FRAME fc \<longleftrightarrow> fc AND DOT11_FC_TYPESUBTYPE_MASK = DOT11_FC_DATA_QOS \<or>
     fc AND DOT11_FC_TYPESUBTYPE_MASK = DOT11_FC_DATA_NULL_QOS"

definition BA_SESSION_IS_A_BIGGER_THAN_B :: "u32 \<Rightarrow> u32 \<Rightarrow> bool" where
  "BA_SESSION_IS_A_BIGGER_THAN_B A B \<longleftrightarrow> ((A - B) AND 0xFFF) < 0x7FF \<and> A \<noteq> B"

record TRxQueuePacketEntry =
  pPacket :: "RxBuf option"
  tStatus :: TI_STATUS
  uFrameSn :: u16

record TRxQueueTidDataBase =
  aPaketsQueue :: "TRxQueuePacketEntry list"
  aTidBaEstablished :: bool
  aWinStartArrayInex :: u32
  aTidWinSize :: u32
  aTidExpectedSn :: u16

record TRxQueue =
  tSa1ArrayMng :: "TRxQueueTidDataBase list"
  tReceivePacketCB :: ptr
  hReceivePacketCB_handle :: ptr

definition empty_entry :: TRxQueuePacketEntry where
  "empty_entry = \<lparr>pPacket = None, tStatus = TI_OK, uFrameSn = 0\<rparr>"

definition RxQueue_Create :: "ptr \<Rightarrow> TRxQueue option" where
  "RxQueue_Create pMem =
     (if pMem = NULL then None
      else Some \<lparr>tSa1ArrayMng = replicate 8
             \<lparr>aPaketsQueue = replicate RX_QUEUE_ARRAY_SIZE empty_entry, aTidBaEstablished = False,
              aWinStartArrayInex = 0, aTidWinSize = 0, aTidExpectedSn = 0\<rparr>,
           tReceivePacketCB = NULL, hReceivePacketCB_handle = NULL\<rparr>)"

text \<open>\<open>isReceive\<close> says whether the callback id is \<^verbatim>\<open>TWD_INT_RECEIVE_PACKET\<close>, the only legal one.\<close>

definition RxQueue_Register_CB :: "TRxQueue \<Rightarrow> bool \<Rightarrow> ptr \<Rightarrow> ptr \<Rightarrow> TRxQueue" where
  "RxQueue_Register_CB q isReceive CBFunc CBObj =
     (if isReceive then q\<lparr>tReceivePacketCB := CBFunc, hReceivePacketCB_handle := CBObj\<rparr> else q)"

definition RxQueue_PassPacket :: "TI_STATUS \<Rightarrow> RxBuf \<Rightarrow> RxBuf" where
  "RxQueue_PassPacket st b =
     (if st = TI_OK then b
      else b\<lparr>rx_status := (rx_status b AND NOT RX_DESC_STATUS_MASK) OR RX_DESC_STATUS_DRIVER_RX_Q_FAIL\<rparr>)"

text \<open>
  The slot at an index (an index beyond the array reads as empty; \<open>rx_tid_ok\<close> below excludes it),
  and the group of statements all loops of the module share: hand up the packet at the start of
  the window if there is one, clear its slot, move the start index on.
\<close>

definition slot :: "TRxQueueTidDataBase \<Rightarrow> nat \<Rightarrow> TRxQueuePacketEntry" where
  "slot db i = (if i < length (aPaketsQueue db) then aPaketsQueue db ! i else empty_entry)"

definition start_slot :: "TRxQueueTidDataBase \<Rightarrow> TRxQueuePacketEntry" where
  "start_slot db = slot db (unat (aWinStartArrayInex db))"

definition next_index :: "TRxQueueTidDataBase \<Rightarrow> TRxQueueTidDataBase" where
  "next_index db =
     db\<lparr>aWinStartArrayInex := (aWinStartArrayInex db + 1) AND RX_QUEUE_ARRAY_SIZE_BIT_MASK\<rparr>"

definition next_sn :: "TRxQueueTidDataBase \<Rightarrow> TRxQueueTidDataBase" where
  "next_sn db = db\<lparr>aTidExpectedSn := (aTidExpectedSn db + 1) AND 0xFFF\<rparr>"

definition clear_start :: "TRxQueueTidDataBase \<Rightarrow> TRxQueueTidDataBase" where
  "clear_start db = db\<lparr>aPaketsQueue := (aPaketsQueue db)[unat (aWinStartArrayInex db) :=
     (start_slot db)\<lparr>pPacket := None\<rparr>]\<rparr>"

definition pass_start :: "TRxQueueTidDataBase \<Rightarrow> TRxQueueTidDataBase \<times> RxBuf list" where
  "pass_start db =
     (case pPacket (start_slot db) of
        None \<Rightarrow> (next_index db, [])
      | Some b \<Rightarrow> (next_index (clear_start db), [RxQueue_PassPacket (tStatus (start_slot db)) b]))"

text \<open>\<^verbatim>\<open>while (aPaketsQueue[aWinStartArrayInex].pPacket != NULL)\<close>: each iteration empties a slot.\<close>

definition n_saved :: "TRxQueueTidDataBase \<Rightarrow> nat" where
  "n_saved db = length (filter (\<lambda>e. pPacket e \<noteq> None) (aPaketsQueue db))"

lemma filter_update_less:
  "i < length xs \<Longrightarrow> P (xs ! i) \<Longrightarrow> \<not> P y \<Longrightarrow> length (filter P (xs[i := y])) < length (filter P xs)"
proof (induction xs arbitrary: i)
  case (Cons x xs)
  then show ?case by (cases i) auto
qed simp

lemma pass_start_n_saved:
  assumes "pPacket (start_slot db) \<noteq> None"
  shows "n_saved (next_sn (fst (pass_start db))) < n_saved db"
proof -
  have "unat (aWinStartArrayInex db) < length (aPaketsQueue db)"
    using assms by (auto simp: start_slot_def slot_def empty_entry_def split: if_splits)
  then show ?thesis
    using assms filter_update_less [of _ "aPaketsQueue db" "\<lambda>e. pPacket e \<noteq> None"]
    by (auto simp: pass_start_def n_saved_def next_index_def next_sn_def clear_start_def
        start_slot_def slot_def split: option.split)
qed

function pass_saved :: "TRxQueueTidDataBase \<Rightarrow> TRxQueueTidDataBase \<times> RxBuf list" where
  "pass_saved db =
     (if pPacket (start_slot db) \<noteq> None
      then (let (db1, out1) = pass_start db; (db2, out2) = pass_saved (next_sn db1)
            in (db2, out1 @ out2))
      else (db, []))"
  by pat_completeness auto
termination
proof (relation "measure n_saved", goal_cases)
  case (2 db x db1 out1)
  then show ?case using pass_start_n_saved [of db] by (simp add: fst_def split: prod.splits)
qed simp

declare pass_saved.simps [simp del]

subsection \<open>Data frames of an established session\<close>

text \<open>Part 1: the frame is the expected one.\<close>

definition receive_expected ::
  "TRxQueueTidDataBase \<Rightarrow> RxBuf \<Rightarrow> TRxQueueTidDataBase \<times> RxBuf list" where
  "receive_expected db b =
     (let (db', out) = pass_saved (next_index (next_sn db))
      in (db', RxQueue_PassPacket TI_OK b # out))"

definition save_index :: "TRxQueueTidDataBase \<Rightarrow> u16 \<Rightarrow> u16" where
  "save_index db sn =
     ucast (aWinStartArrayInex db +
       ucast (ucast ((ucast sn + SEQ_NUM_WRAP - ucast (aTidExpectedSn db)) AND SEQ_NUM_MASK) :: u16))
     AND ucast RX_QUEUE_ARRAY_SIZE_BIT_MASK"

definition set_slot ::
  "TRxQueueTidDataBase \<Rightarrow> nat \<Rightarrow> TRxQueuePacketEntry \<Rightarrow> TRxQueueTidDataBase" where
  "set_slot db i e = db\<lparr>aPaketsQueue := (aPaketsQueue db)[i := e]\<rparr>"

text \<open>Part 2: the frame is inside the window.\<close>

definition receive_in_window ::
  "TRxQueueTidDataBase \<Rightarrow> RxBuf \<Rightarrow> u16 \<Rightarrow> TRxQueueTidDataBase \<times> RxBuf list" where
  "receive_in_window db b sn =
     (let uSaveInex = unat (save_index db sn)
      in if pPacket (slot db uSaveInex) = None
         then (set_slot db uSaveInex \<lparr>pPacket = Some b, tStatus = TI_OK, uFrameSn = sn\<rparr>, [])
         else (db, [RxQueue_PassPacket TI_NOK b]))"

text \<open>
  Part 3: the frame is beyond the window, which moves up.  The \<^verbatim>\<open>for\<close> loop runs while \<open>i\<close> is
  below the array size (here: while \<open>k\<close> iterations are left) and below the window size.
\<close>

primrec pass_lower ::
  "nat \<Rightarrow> u32 \<Rightarrow> u16 \<Rightarrow> TRxQueueTidDataBase \<Rightarrow> TRxQueueTidDataBase \<times> RxBuf list \<times> u32" where
  "pass_lower 0 i uNewWinStartSn db = (db, [], i)"
| "pass_lower (Suc k) i uNewWinStartSn db =
     (if BA_SESSION_IS_A_BIGGER_THAN_B (ucast uNewWinStartSn) (ucast (aTidExpectedSn db)) \<and>
         i < aTidWinSize db
      then (let (db1, out1) = pass_start db;
                (db2, out2, i') = pass_lower k (i + 1) uNewWinStartSn (next_sn db1)
            in (db2, out1 @ out2, i'))
      else (db, [], i))"

definition receive_beyond ::
  "TRxQueueTidDataBase \<Rightarrow> RxBuf \<Rightarrow> u16 \<Rightarrow> TRxQueueTidDataBase \<times> RxBuf list" where
  "receive_beyond db b sn =
     (let uNewWinStartSn = ucast ((ucast sn + SEQ_NUM_WRAP - aTidWinSize db + 1) AND SEQ_NUM_MASK);
          (db1, out1, i) = pass_lower RX_QUEUE_ARRAY_SIZE 0 uNewWinStartSn (next_sn (next_index db));
          (db2, out2) = (if i = aTidWinSize db
                         then (db1\<lparr>aTidExpectedSn := uNewWinStartSn\<rparr>, []) else pass_saved db1);
          (db3, out3) = (if aTidExpectedSn db2 = sn
                         then (next_sn db2, [RxQueue_PassPacket TI_OK b])
                         else (let uSaveInex = unat (save_index db2 sn)
                               in (set_slot db2 uSaveInex
                                    ((slot db2 uSaveInex)\<lparr>tStatus := TI_OK, pPacket := Some b\<rparr>), [])))
      in (db3, out1 @ out2 @ out3))"

definition frame_sn :: "RxBuf \<Rightarrow> u16" where
  "frame_sn b = drop_bit 4 (COPY_WLAN_WORD b off_seqCtrl AND DOT11_SC_SEQ_NUM_MASK)"

definition beyond_win_end :: "TRxQueueTidDataBase \<Rightarrow> u16 \<Rightarrow> bool" where
  "beyond_win_end db sn \<longleftrightarrow>
     BA_SESSION_IS_A_BIGGER_THAN_B (ucast sn) (ucast (aTidExpectedSn db) + aTidWinSize db - 1)"

definition receive_data ::
  "TRxQueueTidDataBase \<Rightarrow> RxBuf \<Rightarrow> TRxQueueTidDataBase \<times> RxBuf list" where
  "receive_data db b =
     (let sn = frame_sn b
      in if sn = aTidExpectedSn db then receive_expected db b
         else if \<not> BA_SESSION_IS_A_BIGGER_THAN_B (ucast sn) (ucast (aTidExpectedSn db))
         then (db, [RxQueue_PassPacket TI_NOK b])
         else if \<not> beyond_win_end db sn then receive_in_window db b sn
         else receive_beyond db b sn)"

subsection \<open>Block-ack events\<close>

primrec pass_all :: "nat \<Rightarrow> TRxQueueTidDataBase \<Rightarrow> TRxQueueTidDataBase \<times> RxBuf list" where
  "pass_all 0 db = (db, [])"
| "pass_all (Suc n) db =
     (let (db1, out1) = pass_start db; (db2, out2) = pass_all n db1 in (db2, out1 @ out2))"

text \<open>Closing a session, on the data of its TID.\<close>

definition close_tid :: "TRxQueueTidDataBase \<Rightarrow> TRxQueueTidDataBase \<times> RxBuf list" where
  "close_tid db =
     (if aTidBaEstablished db
      then pass_all RX_QUEUE_ARRAY_SIZE (db\<lparr>aTidBaEstablished := False\<rparr>) else (db, []))"

definition set_tid :: "TRxQueue \<Rightarrow> u8 \<Rightarrow> TRxQueueTidDataBase \<Rightarrow> TRxQueue" where
  "set_tid q uFrameTid db = q\<lparr>tSa1ArrayMng := (tSa1ArrayMng q)[unat uFrameTid := db]\<rparr>"

definition RxQueue_CloseBaSession :: "TRxQueue \<Rightarrow> u8 \<Rightarrow> TRxQueue \<times> RxBuf list" where
  "RxQueue_CloseBaSession q uFrameTid =
     (if uFrameTid \<ge> MAX_NUM_OF_802_1d_TAGS then (q, [])
      else (let (db, out) = close_tid (tSa1ArrayMng q ! unat uFrameTid) in (set_tid q uFrameTid db, out)))"

text \<open>A block-ack request moves the window start; \<open>k\<close> bounds the iterations as above.\<close>

primrec pass_bar ::
  "nat \<Rightarrow> u32 \<Rightarrow> u16 \<Rightarrow> TRxQueueTidDataBase \<Rightarrow> TRxQueueTidDataBase \<times> RxBuf list" where
  "pass_bar 0 i uWinStartDelta db = (db, [])"
| "pass_bar (Suc k) i uWinStartDelta db =
     (if i < ucast uWinStartDelta \<or> pPacket (start_slot db) \<noteq> None
      then (let (db1, out1) = pass_start db; (db2, out2) = pass_bar k (i + 1) uWinStartDelta db1
            in (db2, out1 @ out2))
      else (db, []))"

definition receive_bar :: "TRxQueueTidDataBase \<Rightarrow> u16 \<Rightarrow> TRxQueueTidDataBase \<times> RxBuf list" where
  "receive_bar db uStartingSequenceNumber =
     (if BA_SESSION_IS_A_BIGGER_THAN_B (ucast uStartingSequenceNumber) (ucast (aTidExpectedSn db))
      then (let uWinStartDelta = ucast ((ucast uStartingSequenceNumber + SEQ_NUM_WRAP
                                   - ucast (aTidExpectedSn db)) AND SEQ_NUM_MASK);
                (db1, out) = pass_bar RX_QUEUE_ARRAY_SIZE 0 uWinStartDelta db
            in (db1\<lparr>aTidExpectedSn := uStartingSequenceNumber\<rparr>, out))
      else (db, []))"

definition open_tid :: "TRxQueueTidDataBase \<Rightarrow> u16 \<Rightarrow> u16 \<Rightarrow> TRxQueueTidDataBase" where
  "open_tid db uBAParameterField uStartingSequenceNumber =
     (let win = ucast (drop_bit 6 (uBAParameterField AND DOT11_BA_PARAMETER_SET_FIELD_WINSIZE_BITS))
      in db\<lparr>aTidWinSize := (if win > RX_QUEUE_WIN_SIZE then RX_QUEUE_WIN_SIZE else win),
            aTidBaEstablished := True,
            aTidExpectedSn := drop_bit 4 (uStartingSequenceNumber AND DOT11_SC_SEQ_NUM_MASK),
            aWinStartArrayInex := 0,
            aPaketsQueue := replicate RX_QUEUE_ARRAY_SIZE empty_entry\<rparr>)"

text \<open>The fields of the three block-ack event frames, at the offsets the handler reads them.\<close>

definition bar_tid :: "RxBuf \<Rightarrow> u8" where
  "bar_tid b = ucast (drop_bit 12
     (COPY_WLAN_WORD b sizeof_dot11_BarFrameHeader_t AND DOT11_BAR_CONTROL_FIELD_TID_BITS))"

definition bar_ssn :: "RxBuf \<Rightarrow> u16" where
  "bar_ssn b = drop_bit 4
     (COPY_WLAN_WORD b (sizeof_dot11_BarFrameHeader_t + 2) AND DOT11_SC_SEQ_NUM_MASK)"

definition ba_action :: "RxBuf \<Rightarrow> u8" where
  "ba_action b = byte_at b (sizeof_dot11_mgmtHeader_t + 1)"

definition uBAParameterField :: "RxBuf \<Rightarrow> u16" where
  "uBAParameterField b = COPY_WLAN_WORD b (sizeof_dot11_mgmtHeader_t + 1 + 2)"

definition addba_tid :: "RxBuf \<Rightarrow> u8" where
  "addba_tid b = ucast (drop_bit 2 (uBAParameterField b AND DOT11_BA_PARAMETER_SET_FIELD_TID_BITS))"

definition addba_ssc :: "RxBuf \<Rightarrow> u16" where
  "addba_ssc b = COPY_WLAN_WORD b (sizeof_dot11_mgmtHeader_t + 1 + 2 + 4)"

definition delba_tid :: "RxBuf \<Rightarrow> u8" where
  "delba_tid b = ucast (drop_bit 12 (uBAParameterField b AND DOT11_DELBA_PARAMETER_FIELD_TID_BITS))"

text \<open>A block-ack event; \<open>None\<close> where the handler returned early after discarding the frame.\<close>

definition ba_event :: "TRxQueue \<Rightarrow> RxBuf \<Rightarrow> (TRxQueue \<times> RxBuf list) option" where
  "ba_event q b =
     (let sub = COPY_WLAN_WORD b off_fc AND DOT11_FC_SUB_MASK
      in if sub = DOT11_FC_SUB_BAR
         then (let db = tSa1ArrayMng q ! unat (bar_tid b)
               in if bar_tid b \<ge> MAX_NUM_OF_802_1d_TAGS then None
                  else if \<not> aTidBaEstablished db then None
                  else (let (db', out) = receive_bar db (bar_ssn b)
                        in Some (set_tid q (bar_tid b) db', out)))
         else if sub = DOT11_FC_SUB_ACTION
         then if ba_action b = DOT11_BA_ACTION_ADDBA
              then (let db = tSa1ArrayMng q ! unat (addba_tid b)
                    in if addba_tid b \<ge> MAX_NUM_OF_802_1d_TAGS then None
                       else if aTidBaEstablished db then None
                       else Some (set_tid q (addba_tid b)
                                    (open_tid db (uBAParameterField b) (addba_ssc b)), []))
              else if ba_action b = DOT11_BA_ACTION_DELBA
              then if delba_tid b \<ge> MAX_NUM_OF_802_1d_TAGS then None
                   else if \<not> aTidBaEstablished (tSa1ArrayMng q ! unat (delba_tid b)) then None
                   else Some (RxQueue_CloseBaSession q (delba_tid b))
              else None
         else None)"

subsection \<open>The receive function\<close>

definition fix_class_tag :: "RxBuf \<Rightarrow> RxBuf" where
  "fix_class_tag b =
     (if IS_QOS_FRAME (COPY_WLAN_WORD b off_fc) \<and> packet_class_tag b \<noteq> TAG_CLASS_QOS_DATA \<and>
         packet_class_tag b \<noteq> TAG_CLASS_AMSDU
      then b\<lparr>packet_class_tag :=
              (if COPY_WLAN_WORD b off_qosControl AND DOT11_QOS_CONTROL_FIELD_A_MSDU_BITS \<noteq> 0
               then TAG_CLASS_AMSDU else TAG_CLASS_QOS_DATA)\<rparr>
      else b)"

definition frame_tid :: "RxBuf \<Rightarrow> u8" where
  "frame_tid b = ucast (COPY_WLAN_WORD b off_qosControl AND DOT11_QOS_CONTROL_FIELD_TID_BITS)"

definition RxQueue_ReceivePacket :: "TRxQueue \<Rightarrow> RxBuf \<Rightarrow> TRxQueue \<times> RxBuf list" where
  "RxQueue_ReceivePacket q pBuffer =
     (let b = fix_class_tag pBuffer
      in if packet_class_tag b = TAG_CLASS_QOS_DATA \<or> packet_class_tag b = TAG_CLASS_AMSDU
         then (let uFrameTid = frame_tid b; db = tSa1ArrayMng q ! unat uFrameTid
               in if uFrameTid \<ge> MAX_NUM_OF_802_1d_TAGS then (q, [RxQueue_PassPacket TI_NOK b])
                  else if \<not> aTidBaEstablished db then (q, [RxQueue_PassPacket TI_OK b])
                  else (let (db', out) = receive_data db b in (set_tid q uFrameTid db', out)))
         else if packet_class_tag b = TAG_CLASS_BA_EVENT
         then (case ba_event q b of
                 None \<Rightarrow> (q, [RxQueue_PassPacket TI_NOK b])
               | Some (q', out) \<Rightarrow> (q', out @ [RxQueue_PassPacket TI_OK b]))
         else (q, [RxQueue_PassPacket TI_OK b]))"

section \<open>Sequence numbers\<close>

lemma unat_and_mask_mod: "unat (w AND mask n) = unat w mod 2 ^ n"
  for w :: "'a :: len word"
  by (simp only: take_bit_eq_mask [symmetric] unsigned_take_bit_eq) (simp add: take_bit_eq_mod)

lemmas mask_numerals =
  unat_and_mask_mod [of _ 3, simplified mask_eq_exp_minus_1, simplified]
  unat_and_mask_mod [of _ 12, simplified mask_eq_exp_minus_1, simplified]

lemma unat_ucast_u32_u16: "unat (w :: u32) < 65536 \<Longrightarrow> unat (ucast w :: u16) = unat w"
  by (simp add: unsigned_ucast_eq take_bit_nat_eq_self)

text \<open>The distance from one sequence number up to another, modulo 4096.\<close>

definition dist :: "nat \<Rightarrow> nat \<Rightarrow> nat" where
  "dist E n = (n + 4096 - E) mod 4096"

lemma dist_less: "dist E n < 4096"
  by (simp add: dist_def)

lemma dist_cases:
  assumes "E < 4096" and "n < 4096"
  shows "dist E n = (if E \<le> n then n - E else n + 4096 - E)"
proof (cases "E \<le> n")
  case True
  then have "n + 4096 - E = (n - E) + 4096" by simp
  then have "dist E n = (n - E) mod 4096" unfolding dist_def by (simp only: mod_add_self2)
  then show ?thesis using True assms by simp
qed (use assms in \<open>simp add: dist_def\<close>)

lemma mod_4096_cases: "a < 8192 \<Longrightarrow> a mod 4096 = (if a < 4096 then a else a - 4096)" for a :: nat
  by (simp add: le_mod_geq)

lemma dist_add: "E < 4096 \<Longrightarrow> k < 4096 \<Longrightarrow> dist E ((E + k) mod 4096) = k"
  by (subst dist_cases) (auto simp: mod_4096_cases)

lemma add_dist: "E < 4096 \<Longrightarrow> n < 4096 \<Longrightarrow> (E + dist E n) mod 4096 = n"
  by (simp add: dist_cases)

lemma dist_0_iff: "E < 4096 \<Longrightarrow> n < 4096 \<Longrightarrow> dist E n = 0 \<longleftrightarrow> n = E"
  by (auto simp: dist_cases)

lemma dist_shift:
  assumes "E < 4096" and "n < 4096" and "k \<le> dist E n"
  shows "dist ((E + k) mod 4096) n = dist E n - k"
proof -
  have "((E + k) mod 4096 + (dist E n - k)) mod 4096 = (E + k + (dist E n - k)) mod 4096"
    by (rule mod_add_left_eq)
  also have "\<dots> = n" using add_dist [OF assms(1,2)] assms(3) by simp
  finally have "n = ((E + k) mod 4096 + (dist E n - k)) mod 4096" ..
  then show ?thesis using dist_add [of "(E + k) mod 4096" "dist E n - k"] dist_less [of E n] by simp
qed

lemma unat_diff_mask:
  fixes A B :: u32
  assumes "unat A < 4096" and "unat B < 8192"
  shows "unat ((A - B) AND 0xFFF) = (unat A + 8192 - unat B) mod 4096"
proof -
  have "unat ((A - B) AND 0xFFF) = unat (A - B) mod 4096" by (simp add: mask_numerals)
  also have "unat (A - B) = (if unat B \<le> unat A then unat A - unat B else unat A + 4294967296 - unat B)"
    by (simp add: unat_sub_if')
  also have "\<dots> mod 4096 = (unat A + 8192 - unat B) mod 4096"
  proof (cases "unat B \<le> unat A")
    case True
    then have "unat A + 8192 - unat B = (unat A - unat B) + 2 * 4096" by simp
    then have "(unat A + 8192 - unat B) mod 4096 = (unat A - unat B) mod 4096"
      by (simp only: mod_mult_self1)
    then show ?thesis using True by (simp only: if_True)
  next
    case False
    then have "unat A + 4294967296 - unat B = (unat A + 8192 - unat B) + 1048574 * 4096"
      using assms by simp
    then have "(unat A + 4294967296 - unat B) mod 4096 = (unat A + 8192 - unat B) mod 4096"
      by (simp only: mod_mult_self1)
    then show ?thesis using False by (simp only: if_False)
  qed
  finally show ?thesis .
qed

lemma bigger_iff:
  fixes A B :: u16
  assumes "unat A < 4096" and "unat B < 4096"
  shows "BA_SESSION_IS_A_BIGGER_THAN_B (ucast A) (ucast B) \<longleftrightarrow>
    0 < dist (unat B) (unat A) \<and> dist (unat B) (unat A) < 0x7FF"
proof -
  have "unat A + 8192 - unat B = unat A + 4096 - unat B + 4096" using assms by simp
  then have "(unat A + 8192 - unat B) mod 4096 = dist (unat B) (unat A)"
    unfolding dist_def by (simp only: mod_add_self2)
  moreover have "ucast A = (ucast B :: u32) \<longleftrightarrow> unat A = unat B"
    by (simp add: word_unat_eq_iff)
  ultimately show ?thesis
    using assms dist_0_iff [of "unat B" "unat A"]
    by (auto simp: BA_SESSION_IS_A_BIGGER_THAN_B_def word_less_nat_alt unat_diff_mask)
qed

section \<open>The window\<close>

text \<open>
  The packet at distance \<open>k\<close> from the start of the window, and the well-formed arrays: eight
  slots, an index inside them, and every saved status \<open>TI_OK\<close>.
\<close>

definition win :: "TRxQueueTidDataBase \<Rightarrow> nat \<Rightarrow> RxBuf option" where
  "win db k = (if k < 8 then pPacket (slot db ((unat (aWinStartArrayInex db) + k) mod 8)) else None)"

definition rx_ring :: "TRxQueueTidDataBase \<Rightarrow> bool" where
  "rx_ring db \<longleftrightarrow> length (aPaketsQueue db) = RX_QUEUE_ARRAY_SIZE \<and> unat (aWinStartArrayInex db) < 8 \<and>
     list_all (\<lambda>e. tStatus e = TI_OK) (aPaketsQueue db)"

definition somes :: "'a option list \<Rightarrow> 'a list" where
  "somes xs = map the (filter (\<lambda>x. x \<noteq> None) xs)"

lemma somes_simps [simp]:
  "somes [] = []" "somes (None # xs) = somes xs" "somes (Some x # xs) = x # somes xs"
  "somes (xs @ ys) = somes xs @ somes ys"
  by (simp_all add: somes_def)

text \<open>\<open>moved n db db' out\<close>: the window start went \<open>n\<close> slots on, and \<open>out\<close> is what was saved there.\<close>

definition moved :: "nat \<Rightarrow> TRxQueueTidDataBase \<Rightarrow> TRxQueueTidDataBase \<Rightarrow> RxBuf list \<Rightarrow> bool" where
  "moved n db db' out \<longleftrightarrow> rx_ring db' \<and> (\<forall>k. win db' k = win db (n + k)) \<and>
     out = somes (map (win db) [0..<n]) \<and> aTidWinSize db' = aTidWinSize db \<and>
     aTidBaEstablished db' = aTidBaEstablished db"

lemma moved_0: "rx_ring db \<Longrightarrow> moved 0 db db []"
  by (simp add: moved_def)

lemma moved_trans:
  assumes "moved n db db1 out1" and "moved m db1 db2 out2"
  shows "moved (n + m) db db2 (out1 @ out2)"
proof -
  have "map (win db) [0..<n + m] = map (win db) [0..<n] @ map (win db1) [0..<m]"
    using assms(1) by (auto simp: moved_def intro!: nth_equalityI simp: nth_append)
  then show ?thesis using assms by (simp add: moved_def ac_simps)
qed

lemma unat_next_index: "unat (i :: u32) < 8 \<Longrightarrow> unat ((i + 1) AND 7) = (unat i + 1) mod 8"
  by (simp add: mask_numerals unat_u32_add)

lemma index_next: "(Suc a mod 8 + k) mod 8 = Suc (a + k) mod 8" for a k :: nat
  by (simp add: mod_simps)

lemma mod_eq_iff_idx: "i < 8 \<Longrightarrow> k < 8 \<Longrightarrow> (i + k) mod 8 = i \<longleftrightarrow> k = 0" for i k :: nat
  by (cases "i + k < 8") (auto simp: le_mod_geq)

lemma win_next_index: "rx_ring db \<Longrightarrow> k < 7 \<Longrightarrow> win (next_index db) k = win db (Suc k)"
  by (simp add: win_def rx_ring_def next_index_def unat_next_index index_next slot_def)

lemma win_0: "rx_ring db \<Longrightarrow> win db 0 = pPacket (start_slot db)"
  by (simp add: win_def rx_ring_def start_slot_def)

lemma win_ge: "8 \<le> k \<Longrightarrow> win db k = None"
  by (simp add: win_def)

lemma rx_ring_slot: "rx_ring db \<Longrightarrow> tStatus (slot db i) = TI_OK"
  by (simp add: rx_ring_def slot_def empty_entry_def list_all_length)

lemma rx_ring_next_index [simp]: "rx_ring db \<Longrightarrow> rx_ring (next_index db)"
  by (simp add: rx_ring_def next_index_def unat_next_index)

lemma rx_ring_next_sn [simp]: "rx_ring (next_sn db) = rx_ring db"
  by (simp add: rx_ring_def next_sn_def)

lemma win_next_sn [simp]: "win (next_sn db) = win db"
  by (simp add: win_def next_sn_def slot_def fun_eq_iff)

lemma clear_start_ring: "rx_ring db \<Longrightarrow> rx_ring (clear_start db)"
  using rx_ring_slot [of db "unat (aWinStartArrayInex db)"]
  by (auto simp: rx_ring_def clear_start_def start_slot_def list_all_length nth_list_update)

lemma win_clear_start:
  assumes "rx_ring db"
  shows "win (clear_start db) k = (if k = 0 then None else win db k)"
proof -
  have "k < 8 \<Longrightarrow> (unat (aWinStartArrayInex db) + k) mod 8 = unat (aWinStartArrayInex db) \<longleftrightarrow> k = 0"
    using assms by (auto simp: rx_ring_def mod_eq_iff_idx)
  then show ?thesis
    using assms by (auto simp: win_def clear_start_def slot_def rx_ring_def nth_list_update)
qed

lemma index_next_7: "i < 8 \<Longrightarrow> Suc (i + 7) mod 8 = i" for i :: nat
  by simp

lemma pass_start_moved:
  assumes ring: "rx_ring db" and res: "pass_start db = (db', out)"
  shows "moved 1 db db' out \<and> aTidExpectedSn db' = aTidExpectedSn db"
proof -
  define db0 where "db0 = (if pPacket (start_slot db) = None then db else clear_start db)"
  have db': "db' = next_index db0" and out: "out = somes [win db 0]"
    using res rx_ring_slot [OF ring] win_0 [OF ring]
    by (auto simp: db0_def pass_start_def start_slot_def RxQueue_PassPacket_def split: option.splits)
  have r0: "rx_ring db0" using ring clear_start_ring by (simp add: db0_def)
  have w0: "win db0 k = (if k = 0 then None else win db k)" for k
    using win_clear_start [OF ring] win_0 [OF ring] by (simp add: db0_def)
  have "win db' k = win db (1 + k)" for k
  proof -
    consider "k < 7" | "k = 7" | "k > 7" by linarith
    then show ?thesis
    proof cases
      case 1
      then show ?thesis using win_next_index [OF r0] w0 db' by simp
    next
      case 2
      have "win db' 7 = win db0 0"
        using r0 index_next_7 [of "unat (aWinStartArrayInex db0)"] unfolding db'
        by (simp add: win_def rx_ring_def next_index_def unat_next_index index_next slot_def)
      then show ?thesis using 2 w0 [of 0] by (simp add: win_ge)
    qed (simp add: win_ge)
  qed
  moreover have "rx_ring db'" using db' r0 by simp
  moreover have "aTidWinSize db' = aTidWinSize db" "aTidBaEstablished db' = aTidBaEstablished db"
      "aTidExpectedSn db' = aTidExpectedSn db"
    using db' by (simp_all add: db0_def next_index_def clear_start_def)
  ultimately show ?thesis using out by (simp add: moved_def)
qed

lemma moved_next_sn: "moved n db db' out \<Longrightarrow> moved n db (next_sn db') out"
  by (simp add: moved_def) (simp add: next_sn_def)

lemma set_sn_frame [simp]:
  "win (db\<lparr>aTidExpectedSn := e\<rparr>) = win db" "rx_ring (db\<lparr>aTidExpectedSn := e\<rparr>) = rx_ring db"
  by (simp_all add: win_def slot_def rx_ring_def fun_eq_iff)

lemma moved_set_sn: "moved n db db' out \<Longrightarrow> moved n db (db'\<lparr>aTidExpectedSn := e\<rparr>) out"
  by (simp add: moved_def)

lemma moved_from_sn: "moved n (next_sn db) db' out = moved n db db' out"
  by (simp add: moved_def) (simp add: next_sn_def)

abbreviation esn :: "TRxQueueTidDataBase \<Rightarrow> nat" where
  "esn db \<equiv> unat (aTidExpectedSn db)"

lemma esn_next_sn: "esn (next_sn db) = (esn db + 1) mod 4096"
proof -
  have "unat (aTidExpectedSn db + 1) mod 4096 = (esn db + 1) mod 4096"
    using unat_u16_less [of "aTidExpectedSn db"]
    by (simp add: unat_word_ariths mod_mod_cancel)
  then show ?thesis by (simp add: next_sn_def mask_numerals)
qed

lemma mod_Suc_add: "((a + 1) mod 4096 + n) mod 4096 = (a + Suc n) mod 4096" for a n :: nat
  by (simp add: mod_simps)

text \<open>The \<^verbatim>\<open>while\<close> loop hands up the saved packets that follow without a gap.\<close>

lemma pass_saved_moved:
  "rx_ring db \<Longrightarrow> pass_saved db = (db', out) \<Longrightarrow>
     \<exists>n. moved n db db' out \<and> esn db' = (esn db + n) mod 4096 \<and> (\<forall>k < n. win db k \<noteq> None) \<and>
       win db' 0 = None"
  if "esn db < 4096"
  using that
proof (induction db arbitrary: db' out rule: pass_saved.induct)
  case (1 db)
  show ?case
  proof (cases "pPacket (start_slot db) = None")
    case True
    then have "db' = db" "out = []" using 1(3) by (simp_all add: pass_saved.simps)
    then show ?thesis using moved_0 [OF 1(2)] True win_0 [OF 1(2)] 1(4) by (intro exI [of _ 0]) simp
  next
    case False
    obtain db1 out1 where p: "pass_start db = (db1, out1)" by (cases "pass_start db")
    obtain out2 where r: "pass_saved (next_sn db1) = (db', out2)" and out: "out = out1 @ out2"
      using 1(3) False p by (subst (asm) pass_saved.simps) (auto split: prod.splits)
    have m1: "moved 1 db db1 out1" and e1: "aTidExpectedSn db1 = aTidExpectedSn db"
      using pass_start_moved [OF 1(2) p] by simp_all
    have "rx_ring (next_sn db1)" using m1 by (simp add: moved_def)
    moreover have "esn (next_sn db1) < 4096" by (simp add: esn_next_sn)
    ultimately obtain n where n: "moved n (next_sn db1) db' out2" "esn db' = (esn (next_sn db1) + n) mod 4096"
        "\<forall>k < n. win (next_sn db1) k \<noteq> None" "win db' 0 = None"
      using 1(1) [OF False p [symmetric] refl _ r] by blast
    have "moved (Suc n) db db' out"
      using moved_trans [OF m1 n(1) [unfolded moved_from_sn]] out by simp
    moreover have "esn db' = (esn db + Suc n) mod 4096"
      using n(2) e1 by (simp only: esn_next_sn mod_Suc_add)
    moreover have "\<forall>k < Suc n. win db k \<noteq> None"
    proof (intro allI impI)
      fix k assume "k < Suc n"
      then show "win db k \<noteq> None"
        using n(3) m1 False win_0 [OF 1(2)] by (cases k) (auto simp: moved_def)
    qed
    ultimately show ?thesis using n(4) by blast
  qed
qed

text \<open>The \<^verbatim>\<open>for\<close> loop of part 3 stops at the new window start or after a window's worth of slots.\<close>

lemma pass_lower_moved:
  assumes "rx_ring db" and "pass_lower k i new db = (db', out, i')"
    and "esn db < 4096" and "unat new < 4096" and "dist (esn db) (unat new) < 0x7FF"
    and "unat i + k \<le> 8"
  shows "\<exists>m. m = min (min k (unat (aTidWinSize db) - unat i)) (dist (esn db) (unat new)) \<and>
    moved m db db' out \<and> esn db' = (esn db + m) mod 4096 \<and> unat i' = unat i + m"
  using assms
proof (induction k arbitrary: i db out)
  case 0
  then show ?case by (simp add: moved_0)
next
  case (Suc k)
  let ?d = "dist (esn db) (unat new)"
  show ?case
  proof (cases "0 < ?d \<and> i < aTidWinSize db")
    case False
    then have "db' = db" "out = []" "i' = i"
      using Suc.prems(2) bigger_iff [OF Suc.prems(4,3)] by (auto split: if_splits)
    then show ?thesis
      using False moved_0 [OF Suc.prems(1)] Suc.prems(3) by (auto simp: word_less_nat_alt)
  next
    case True
    obtain db1 out1 where p: "pass_start db = (db1, out1)" by (cases "pass_start db")
    obtain out2 where r: "pass_lower k (i + 1) new (next_sn db1) = (db', out2, i')"
        and out: "out = out1 @ out2"
      using Suc.prems(2,5) True p bigger_iff [OF Suc.prems(4,3)] by (auto split: prod.splits)
    have m1: "moved 1 db db1 out1" and e1: "aTidExpectedSn db1 = aTidExpectedSn db"
      using pass_start_moved [OF Suc.prems(1) p] by simp_all
    have ring: "rx_ring (next_sn db1)" using m1 by (simp add: moved_def)
    have e: "esn (next_sn db1) = (esn db + 1) mod 4096" by (simp add: esn_next_sn e1)
    have d: "dist (esn (next_sn db1)) (unat new) = ?d - 1"
      using dist_shift [OF Suc.prems(3,4), of 1] True by (simp add: e)
    have i: "unat (i + 1) = unat i + 1" using Suc.prems(6) by (intro unat_u32_add [THEN trans]) simp_all
    have w: "aTidWinSize (next_sn db1) = aTidWinSize db"
      using m1 by (simp add: moved_def next_sn_def)
    have "\<exists>m. m = min (min k (unat (aTidWinSize db) - (unat i + 1))) (?d - 1) \<and>
        moved m (next_sn db1) db' out2 \<and> esn db' = (esn (next_sn db1) + m) mod 4096 \<and>
        unat i' = unat i + 1 + m"
      using Suc.IH [OF ring r, unfolded d i w] Suc.prems(4,5,6) by (simp add: e)
    then obtain m where m: "m = min (min k (unat (aTidWinSize db) - (unat i + 1))) (?d - 1)"
        "moved m (next_sn db1) db' out2" "esn db' = (esn (next_sn db1) + m) mod 4096"
        "unat i' = unat i + 1 + m" by blast
    have "moved (Suc m) db db' out"
      using moved_trans [OF m1 m(2) [unfolded moved_from_sn]] out by simp
    moreover have "esn db' = (esn db + Suc m) mod 4096"
      using m(3) unfolding e by (simp only: mod_Suc_add)
    moreover have "Suc m = min (min (Suc k) (unat (aTidWinSize db) - unat i)) ?d"
    proof -
      have "unat i < unat (aTidWinSize db)" "0 < ?d" using True by (simp_all add: word_less_nat_alt)
      then show ?thesis unfolding m(1) by linarith
    qed
    moreover have "unat i' = unat i + Suc m" using m(4) by simp
    ultimately show ?thesis by blast
  qed
qed

lemma pass_all_moved:
  "rx_ring db \<Longrightarrow> pass_all n db = (db', out) \<Longrightarrow>
     moved n db db' out \<and> aTidExpectedSn db' = aTidExpectedSn db"
proof (induction n arbitrary: db out)
  case 0
  then show ?case by (simp add: moved_0)
next
  case (Suc n)
  obtain db1 out1 where p: "pass_start db = (db1, out1)" by (cases "pass_start db")
  obtain out2 where r: "pass_all n db1 = (db', out2)" and out: "out = out1 @ out2"
    using Suc.prems(2) p by (auto split: prod.splits)
  note m1 = pass_start_moved [OF Suc.prems(1) p]
  have "moved n db1 db' out2 \<and> aTidExpectedSn db' = aTidExpectedSn db1"
    using Suc.IH [OF _ r] m1 by (simp add: moved_def)
  then show ?case using moved_trans [of 1 db db1 out1 n db' out2] m1 out by simp
qed

lemma pass_bar_moved:
  assumes "rx_ring db" and "pass_bar k i delta db = (db', out)" and "unat i + k \<le> 8"
  shows "\<exists>m. moved m db db' out \<and> aTidExpectedSn db' = aTidExpectedSn db \<and>
    min k (unat delta - unat i) \<le> m \<and> m \<le> k \<and> (m = k \<or> win db' 0 = None) \<and>
    (\<forall>j < m. unat delta \<le> unat i + j \<longrightarrow> win db j \<noteq> None)"
  using assms
proof (induction k arbitrary: i db out)
  case 0
  then show ?case by (auto intro!: exI [of _ 0] moved_0)
next
  case (Suc k)
  show ?case
  proof (cases "unat i < unat delta \<or> win db 0 \<noteq> None")
    case False
    then have "db' = db" "out = []"
      using Suc.prems(2) win_0 [OF Suc.prems(1)] by (auto simp: word_less_nat_alt split: if_splits)
    then show ?thesis using False moved_0 [OF Suc.prems(1)] by (intro exI [of _ 0]) auto
  next
    case True
    obtain db1 out1 where p: "pass_start db = (db1, out1)" by (cases "pass_start db")
    obtain out2 where r: "pass_bar k (i + 1) delta db1 = (db', out2)" and out: "out = out1 @ out2"
      using Suc.prems(2) True p win_0 [OF Suc.prems(1)]
      by (auto simp: word_less_nat_alt split: prod.splits if_splits)
    note m1 = pass_start_moved [OF Suc.prems(1) p]
    have i: "unat (i + 1) = unat i + 1" using Suc.prems(3) by (intro unat_u32_add [THEN trans]) simp_all
    have "rx_ring db1" using m1 by (simp add: moved_def)
    then obtain m where m: "moved m db1 db' out2" "aTidExpectedSn db' = aTidExpectedSn db1"
        "min k (unat delta - (unat i + 1)) \<le> m" "m \<le> k" "m = k \<or> win db' 0 = None"
        "\<forall>j < m. unat delta \<le> unat i + 1 + j \<longrightarrow> win db1 j \<noteq> None"
      using Suc.IH [OF _ r] Suc.prems(3) i by auto
    have "win db j \<noteq> None" if "j < Suc m" "unat delta \<le> unat i + j" for j
      using that m(6) m1 True by (cases j) (auto simp: moved_def)
    moreover have "moved (Suc m) db db' out" using moved_trans [of 1 db db1 out1 m db' out2] m1 m(1) out by simp
    ultimately show ?thesis using m(2-5) m1 by (intro exI [of _ "Suc m"]) auto
  qed
qed

end
