(* ===== verification/RxReorder.thy ===== *)
theory RxReorder
  imports RxQueue
begin

text \<open>
  What the block-ack receive queue guarantees: the invariant of the window of a TID, in-order
  delivery, conservation of the buffers, and the corner cases in which the source misses its
  intention.
\<close>

section \<open>The invariant of a TID with an established session\<close>

text \<open>
  The frame expected next is not saved; a frame saved at distance \<open>k\<close> has the sequence number
  expected plus \<open>k\<close>, and lies inside the negotiated window of one to eight frames.
\<close>

definition rx_tid_ok :: "TRxQueueTidDataBase \<Rightarrow> bool" where
  "rx_tid_ok db \<longleftrightarrow> rx_ring db \<and> esn db < 4096 \<and>
     1 \<le> unat (aTidWinSize db) \<and> unat (aTidWinSize db) \<le> 8 \<and>
     list_all (\<lambda>k. case win db k of None \<Rightarrow> True
        | Some b \<Rightarrow> 0 < k \<and> k < unat (aTidWinSize db) \<and>
            unat (frame_sn b) = (esn db + k) mod 4096) [0..<8]"

lemma rx_tid_okD:
  assumes "rx_tid_ok db"
  shows "rx_ring db" "esn db < 4096" "1 \<le> unat (aTidWinSize db)" "unat (aTidWinSize db) \<le> 8"
    and "win db k = Some b \<Longrightarrow> 0 < k \<and> k < unat (aTidWinSize db) \<and>
      unat (frame_sn b) = (esn db + k) mod 4096"
    and "win db 0 = None"
    and "unat (aTidWinSize db) \<le> k \<Longrightarrow> win db k = None"
proof -
  show sn: "win db k = Some b \<Longrightarrow> 0 < k \<and> k < unat (aTidWinSize db) \<and>
      unat (frame_sn b) = (esn db + k) mod 4096" for k b
    using assms win_ge [of k db] by (cases "k < 8") (auto simp: rx_tid_ok_def list_all_iff dest!: bspec [of _ _ k])
  show "win db 0 = None" using sn [of 0] by (cases "win db 0") auto
  show "unat (aTidWinSize db) \<le> k \<Longrightarrow> win db k = None" using sn [of k] by (cases "win db k") auto
qed (use assms in \<open>simp_all add: rx_tid_ok_def\<close>)

lemma rx_tid_okI:
  assumes "rx_ring db" "esn db < 4096" "1 \<le> unat (aTidWinSize db)" "unat (aTidWinSize db) \<le> 8"
    and "\<And>k b. win db k = Some b \<Longrightarrow> 0 < k \<and> k < unat (aTidWinSize db) \<and>
      unat (frame_sn b) = (esn db + k) mod 4096"
  shows "rx_tid_ok db"
  using assms by (auto simp: rx_tid_ok_def list_all_iff split: option.split)

lemma frame_sn_less: "unat (frame_sn b) < 4096"
  using unat_u16_less [of "COPY_WLAN_WORD b 22 AND 0xFFF0"]
  by (simp add: frame_sn_def drop_bit_eq_div unat_div)

text \<open>Moving the window on keeps the invariant, when the sequence number moves with it.\<close>

lemma rx_tid_ok_moved:
  assumes ok: "rx_tid_ok db" and m: "moved n db db' out" and e: "esn db' = (esn db + n) mod 4096"
    and z: "win db' 0 = None"
  shows "rx_tid_ok db'"
proof (rule rx_tid_okI)
  fix k b assume w: "win db' k = Some b"
  then have w': "win db (n + k) = Some b" using m by (simp add: moved_def)
  have "k \<noteq> 0" using z w by (cases k) auto
  then show "0 < k \<and> k < unat (aTidWinSize db') \<and> unat (frame_sn b) = (esn db' + k) mod 4096"
    using rx_tid_okD(5) [OF ok w'] m e by (simp add: moved_def mod_simps add.assoc)
qed (use m e rx_tid_okD [OF ok] in \<open>simp_all add: moved_def\<close>)

section \<open>Saving a frame\<close>

lemma unat_save_index:
  assumes "rx_tid_ok db" and "unat sn < 4096"
  shows "unat (save_index db sn) =
    (unat (aWinStartArrayInex db) + dist (esn db) (unat sn)) mod 8"
proof -
  let ?x = "(ucast sn + 0x1000 - ucast (aTidExpectedSn db)) AND 0xFFF :: u32"
  have e: "esn db < 4096" and i: "unat (aWinStartArrayInex db) < 8"
    using rx_tid_okD(1,2) [OF assms(1)] by (simp_all add: rx_ring_def)
  have "unat (ucast sn + 0x1000 :: u32) = unat sn + 4096"
    using assms(2) by (subst unat_u32_add) simp_all
  then have "unat (ucast sn + 0x1000 - ucast (aTidExpectedSn db) :: u32) = unat sn + 4096 - esn db"
    using e by (subst unat_sub) (simp_all add: word_le_nat_alt)
  then have x: "unat ?x = dist (esn db) (unat sn)" by (simp add: mask_numerals dist_def)
  then have x16: "unat (ucast ?x :: u16) = dist (esn db) (unat sn)"
    using dist_less [of "esn db" "unat sn"] by (simp add: unat_ucast_u32_u16)
  have "unat (aWinStartArrayInex db + ucast (ucast ?x :: u16)) =
      unat (aWinStartArrayInex db) + dist (esn db) (unat sn)"
    using i dist_less [of "esn db" "unat sn"] by (subst unat_u32_add) (simp_all add: x16)
  then have "unat (ucast (aWinStartArrayInex db + ucast (ucast ?x :: u16)) :: u16) =
      unat (aWinStartArrayInex db) + dist (esn db) (unat sn)"
    using i dist_less [of "esn db" "unat sn"] by (subst unat_ucast_u32_u16) simp_all
  then show ?thesis by (simp add: save_index_def mask_numerals)
qed

lemma index_inj: "i < 8 \<Longrightarrow> k < 8 \<Longrightarrow> d < 8 \<Longrightarrow> (i + k) mod 8 = (i + d) mod 8 \<longleftrightarrow> k = d"
  for i k d :: nat
  by (auto simp: le_mod_geq mod_if split: if_splits)

lemma win_set_slot:
  assumes "rx_ring db" and "d < 8"
  shows "win (set_slot db ((unat (aWinStartArrayInex db) + d) mod 8) e) k =
    (if k = d then pPacket e else win db k)"
  using assms index_inj [of "unat (aWinStartArrayInex db)" k d]
  by (auto simp: win_def set_slot_def slot_def rx_ring_def nth_list_update)

lemma set_slot_frame:
  "rx_ring db \<Longrightarrow> tStatus e = TI_OK \<Longrightarrow> rx_ring (set_slot db i e)"
  "aTidExpectedSn (set_slot db i e) = aTidExpectedSn db"
  "aTidWinSize (set_slot db i e) = aTidWinSize db"
  "aTidBaEstablished (set_slot db i e) = aTidBaEstablished db"
  by (cases "i < 8"; auto simp: rx_ring_def set_slot_def list_all_length nth_list_update)+

text \<open>A frame put into the free slot at its distance keeps the invariant.\<close>

definition saved_at :: "TRxQueueTidDataBase \<Rightarrow> nat \<Rightarrow> RxBuf \<Rightarrow> TRxQueueTidDataBase \<Rightarrow> bool" where
  "saved_at db d b db' \<longleftrightarrow> rx_ring db' \<and> win db' = (win db)(d := Some b) \<and>
     aTidExpectedSn db' = aTidExpectedSn db \<and> aTidWinSize db' = aTidWinSize db \<and>
     aTidBaEstablished db' = aTidBaEstablished db"

lemma saved_at_set_slot:
  assumes "rx_tid_ok db" and "unat sn < 4096" and "dist (esn db) (unat sn) < 8"
    and "tStatus e = TI_OK" and "pPacket e = Some b"
  shows "saved_at db (dist (esn db) (unat sn)) b (set_slot db (unat (save_index db sn)) e)"
  using win_set_slot [OF rx_tid_okD(1) [OF assms(1)] assms(3), of e] assms(4,5)
    set_slot_frame rx_tid_okD(1) [OF assms(1)]
  by (simp add: saved_at_def unat_save_index [OF assms(1,2)] fun_eq_iff)

lemma rx_tid_ok_saved:
  assumes ok: "rx_tid_ok db" and s: "saved_at db d b db'" and d: "d = dist (esn db) (unat (frame_sn b))"
    and r: "0 < d" "d < unat (aTidWinSize db)"
  shows "rx_tid_ok db'"
proof (rule rx_tid_okI)
  fix k c assume "win db' k = Some c"
  then have "k = d \<and> c = b \<or> k \<noteq> d \<and> win db k = Some c"
    using s by (auto simp: saved_at_def split: if_splits)
  then show "0 < k \<and> k < unat (aTidWinSize db') \<and> unat (frame_sn c) = (esn db' + k) mod 4096"
    using rx_tid_okD(5) [OF ok, of k c] s r d add_dist [OF rx_tid_okD(2) [OF ok] frame_sn_less, of b]
    by (auto simp: saved_at_def)
qed (use s rx_tid_okD [OF ok] in \<open>simp_all add: saved_at_def\<close>)

section \<open>The window test of the source\<close>

text \<open>
  The end of the window is computed without reduction modulo 4096.  When it passes 4095, the
  frame at exactly the end of the window compares unequal to it, and is taken to lie beyond.
\<close>

definition wrap_edge :: "TRxQueueTidDataBase \<Rightarrow> nat \<Rightarrow> bool" where
  "wrap_edge db sn \<longleftrightarrow> dist (esn db) sn = unat (aTidWinSize db) - 1 \<and>
     4096 \<le> esn db + unat (aTidWinSize db) - 1"

lemma beyond_win_end_iff:
  assumes ok: "rx_tid_ok db" and sn: "unat sn < 4096"
    and d: "0 < dist (esn db) (unat sn)" "dist (esn db) (unat sn) < 0x7FF"
  shows "beyond_win_end db sn \<longleftrightarrow>
    unat (aTidWinSize db) \<le> dist (esn db) (unat sn) \<or> wrap_edge db (unat sn)"
proof -
  define E where "E = esn db"
  define W where "W = unat (aTidWinSize db)"
  define n where "n = unat sn"
  let ?B = "ucast (aTidExpectedSn db) + aTidWinSize db - 1 :: u32"
  have E: "E < 4096" and W: "1 \<le> W" "W \<le> 8" using rx_tid_okD(2-4) [OF ok] by (simp_all add: E_def W_def)
  have "unat (ucast (aTidExpectedSn db) + aTidWinSize db :: u32) = E + W"
    using E W by (subst unat_u32_add) (simp_all add: E_def W_def)
  then have B: "unat ?B = E + W - 1"
    using W by (subst unat_sub) (simp_all add: word_le_nat_alt)
  have m: "unat ((ucast sn - ?B) AND 0xFFF) = (n + 8192 - (E + W - 1)) mod 4096"
    using sn E W by (subst unat_diff_mask) (simp_all add: B n_def)
  have ne: "ucast sn \<noteq> ?B \<longleftrightarrow> n \<noteq> E + W - 1"
    by (simp add: word_unat_eq_iff B n_def)
  have n: "n = (E + dist E n) mod 4096" using add_dist [OF E, of n] sn by (simp add: n_def)
  have "(n + 8192 - (E + W - 1)) mod 4096 = (dist E n + 4096 - (W - 1)) mod 4096"
  proof (cases "E \<le> n")
    case True
    then have "n + 8192 - (E + W - 1) = (dist E n + 4096 - (W - 1)) + 4096"
      using E sn W by (simp add: dist_cases n_def)
    then show ?thesis by (simp only: mod_add_self2)
  next
    case False
    then show ?thesis using E sn W by (simp add: dist_cases n_def)
  qed
  moreover have "(dist E n + 4096 - (W - 1)) mod 4096 < 0x7FF \<longleftrightarrow> W - 1 \<le> dist E n"
    using d W by (cases "W - 1 \<le> dist E n") (auto simp: le_mod_geq E_def n_def)
  moreover have "unat (0x7FF :: u32) = 0x7FF" by simp
  ultimately have less: "((ucast sn - ?B) AND 0xFFF) < 0x7FF \<longleftrightarrow> W - 1 \<le> dist E n"
    unfolding word_less_nat_alt m by (simp only:)
  have "beyond_win_end db sn \<longleftrightarrow> W - 1 \<le> dist E n \<and> n \<noteq> E + W - 1"
    unfolding beyond_win_end_def BA_SESSION_IS_A_BIGGER_THAN_B_def by (simp only: less ne)
  moreover have "W \<le> dist E n \<Longrightarrow> n \<noteq> E + W - 1"
    using E W sn by (auto simp: dist_cases n_def split: if_splits)
  moreover have "dist E n = W - 1 \<Longrightarrow> n \<noteq> E + W - 1 \<longleftrightarrow> 4096 \<le> E + W - 1"
    using E W sn by (auto simp: dist_cases n_def split: if_splits)
  moreover have "W - 1 \<le> dist E n \<longleftrightarrow> W \<le> dist E n \<or> dist E n = W - 1" using W by linarith
  ultimately show ?thesis
    unfolding wrap_edge_def E_def [symmetric] W_def [symmetric] n_def [symmetric] by blast
qed

section \<open>Data frames, case by case\<close>

text \<open>
  What \<open>receive_data\<close> does with a frame at distance \<open>d\<close> from the expected sequence number, outside
  of the corner case: the five outcomes of the reordering.
\<close>

inductive rx_outcome ::
  "TRxQueueTidDataBase \<Rightarrow> RxBuf \<Rightarrow> TRxQueueTidDataBase \<Rightarrow> RxBuf list \<Rightarrow> bool"
  for db b where
  old: "0x7FF \<le> dist (esn db) (unat (frame_sn b)) \<Longrightarrow>
    rx_outcome db b db [RxQueue_PassPacket TI_NOK b]"
| duplicate: "d = dist (esn db) (unat (frame_sn b)) \<Longrightarrow> 0 < d \<Longrightarrow> d < unat (aTidWinSize db) \<Longrightarrow>
    win db d \<noteq> None \<Longrightarrow> rx_outcome db b db [RxQueue_PassPacket TI_NOK b]"
| expected: "unat (frame_sn b) = esn db \<Longrightarrow> moved (Suc n) db db' out \<Longrightarrow>
    esn db' = (esn db + Suc n) mod 4096 \<Longrightarrow> win db' 0 = None \<Longrightarrow> n < 8 \<Longrightarrow>
    rx_outcome db b db' (b # out)"
| saved: "d = dist (esn db) (unat (frame_sn b)) \<Longrightarrow> 0 < d \<Longrightarrow> d < unat (aTidWinSize db) \<Longrightarrow>
    win db d = None \<Longrightarrow> saved_at db d b db' \<Longrightarrow> rx_outcome db b db' []"
| moved_saved: "d = dist (esn db) (unat (frame_sn b)) \<Longrightarrow> unat (aTidWinSize db) \<le> d \<Longrightarrow> d < 0x7FF \<Longrightarrow>
    moved n db db1 out \<Longrightarrow> esn db1 = (esn db + n) mod 4096 \<Longrightarrow> win db1 0 = None \<Longrightarrow>
    0 < n \<Longrightarrow> n < d \<Longrightarrow> d - n < unat (aTidWinSize db) \<Longrightarrow> saved_at db1 (d - n) b db' \<Longrightarrow>
    rx_outcome db b db' out"
| moved_passed: "d = dist (esn db) (unat (frame_sn b)) \<Longrightarrow> unat (aTidWinSize db) \<le> d \<Longrightarrow> d < 0x7FF \<Longrightarrow>
    moved (Suc d) db db' out \<Longrightarrow> esn db' = (esn db + Suc d) mod 4096 \<Longrightarrow>
    rx_outcome db b db' (out @ [b])"

lemma moved_next_index:
  assumes "rx_tid_ok db"
  shows "moved 1 db (next_index db) []" and "aTidExpectedSn (next_index db) = aTidExpectedSn db"
proof -
  have "pPacket (start_slot db) = None"
    using rx_tid_okD(1,6) [OF assms] by (simp add: win_0)
  then have "pass_start db = (next_index db, [])" by (simp add: pass_start_def)
  then show "moved 1 db (next_index db) []" "aTidExpectedSn (next_index db) = aTidExpectedSn db"
    using pass_start_moved [OF rx_tid_okD(1) [OF assms]] by simp_all
qed

lemma PassPacket_ok [simp]: "RxQueue_PassPacket TI_OK b = b"
  by (simp add: RxQueue_PassPacket_def)

lemma receive_expected_outcome:
  assumes ok: "rx_tid_ok db" and sn: "frame_sn b = aTidExpectedSn db"
    and res: "receive_expected db b = (db', out)"
  shows "rx_outcome db b db' out"
proof -
  let ?db1 = "next_index (next_sn db)"
  have eq: "?db1 = next_sn (next_index db)" by (simp add: next_index_def next_sn_def)
  obtain out1 where p: "pass_saved ?db1 = (db', out1)" and out: "out = b # out1"
    using res by (auto simp: receive_expected_def split: prod.splits)
  have m1: "moved 1 db ?db1 []" using moved_next_index(1) [OF ok] by (simp add: eq moved_next_sn)
  have e1: "esn ?db1 = (esn db + 1) mod 4096"
    by (simp only: eq esn_next_sn moved_next_index(2) [OF ok])
  have "rx_ring ?db1" "esn ?db1 < 4096" using m1 e1 by (simp_all add: moved_def)
  then obtain n where n: "moved n ?db1 db' out1" "esn db' = (esn ?db1 + n) mod 4096"
      "\<forall>k < n. win ?db1 k \<noteq> None" "win db' 0 = None"
    using pass_saved_moved p by blast
  have "n < 8"
  proof (rule ccontr)
    assume "\<not> n < 8"
    then have "win ?db1 7 \<noteq> None" using n(3) by simp
    then show False using m1 by (simp add: moved_def win_ge)
  qed
  moreover have "moved (Suc n) db db' out1" using moved_trans [OF m1 n(1)] by simp
  moreover have "esn db' = (esn db + Suc n) mod 4096" using n(2) unfolding e1 by (simp only: mod_Suc_add)
  ultimately show ?thesis using n(4) sn unfolding out by (intro rx_outcome.expected) simp_all
qed

text \<open>Slots past the window are empty, so moving further over them changes nothing.\<close>

lemma moved_extend:
  assumes ok: "rx_tid_ok db" and m: "moved n db db' out" and n: "unat (aTidWinSize db) \<le> n" "n \<le> N"
  shows "moved N db db' out"
proof -
  have none: "win db k = None" if "n \<le> k" for k using rx_tid_okD(7) [OF ok] n(1) that by simp
  have "[0..<N] = [0..<n] @ [n..<N]" using n(2) by (metis le0 le_iff_add upt_add_eq_append)
  moreover have "somes (map (win db) [n..<N]) = []"
    using none by (auto simp: somes_def filter_empty_conv)
  ultimately have "somes (map (win db) [0..<N]) = somes (map (win db) [0..<n])" by simp
  then show ?thesis using m none n by (simp add: moved_def)
qed

text \<open>The part of \<open>receive_beyond\<close> before the frame itself is placed.\<close>

lemma beyond_moved:
  fixes db :: TRxQueueTidDataBase and sn :: u16
  defines "E \<equiv> esn db" and "W \<equiv> unat (aTidWinSize db)" and "d \<equiv> dist (esn db) (unat sn)"
    and "new \<equiv> ucast ((ucast sn + 0x1000 - aTidWinSize db + 1) AND 0xFFF) :: u16"
  assumes ok: "rx_tid_ok db" and sn: "unat sn < 4096" and d: "W \<le> d" "d < 0x7FF"
    and p1: "pass_lower 8 0 new (next_sn (next_index db)) = (db1, out1, i)"
    and p2: "(db2, out2) = (if i = aTidWinSize db then (db1\<lparr>aTidExpectedSn := new\<rparr>, []) else pass_saved db1)"
  shows "\<exists>N. moved N db db2 (out1 @ out2) \<and> esn db2 = (E + N) mod 4096 \<and> win db2 0 = None \<and>
    0 < N \<and> N \<le> d \<and> d - N < W"
proof -
  let ?db0 = "next_sn (next_index db)"
  have E: "E < 4096" and W: "1 \<le> W" "W \<le> 8"
    using rx_tid_okD(2-4) [OF ok] by (simp_all add: E_def W_def)
  have m0: "moved 1 db ?db0 []" using moved_next_index(1) [OF ok] by (simp add: moved_next_sn)
  have e0: "esn ?db0 = (E + 1) mod 4096" by (simp only: esn_next_sn moved_next_index(2) [OF ok] E_def)
  have new: "unat new = (E + (d - W + 1)) mod 4096"
  proof -
    have "unat (ucast sn + 0x1000 :: u32) = unat sn + 4096" using sn by (subst unat_u32_add) simp_all
    then have "unat (ucast sn + 0x1000 - aTidWinSize db :: u32) = unat sn + 4096 - W"
      using W by (subst unat_sub) (simp_all add: word_le_nat_alt W_def)
    then have "unat (ucast sn + 0x1000 - aTidWinSize db + 1 :: u32) = unat sn + 4096 - W + 1"
      using sn by (subst unat_u32_add) simp_all
    then have "unat new = (unat sn + 4096 - W + 1) mod 4096"
      unfolding new_def by (subst unat_ucast_u32_u16) (simp_all add: mask_numerals)
    also have "\<dots> = ((unat sn mod 4096) + (4096 - W + 1)) mod 4096" using W sn by simp
    also have "unat sn mod 4096 = (E + d) mod 4096"
      using add_dist [OF E sn] sn by (simp add: d_def E_def)
    also have "((E + d) mod 4096 + (4096 - W + 1)) mod 4096 = (E + d + (4096 - W + 1)) mod 4096"
      by (rule mod_add_left_eq)
    also have "E + d + (4096 - W + 1) = E + (d - W + 1) + 4096" using W d by simp
    also have "\<dots> mod 4096 = (E + (d - W + 1)) mod 4096" by (rule mod_add_self2)
    finally show ?thesis .
  qed
  have dn: "dist (esn ?db0) (unat new) = d - W"
  proof -
    have "unat new = ((E + 1) mod 4096 + (d - W)) mod 4096" unfolding new by (simp add: mod_simps)
    then show ?thesis using dist_add [of "(E + 1) mod 4096" "d - W"] d unfolding e0 by simp
  qed
  have r0: "rx_ring ?db0" and w0: "aTidWinSize ?db0 = aTidWinSize db"
    using m0 by (simp_all add: moved_def)
  obtain m where m: "m = min (min 8 W) (d - W)" "moved m ?db0 db1 out1"
      "esn db1 = (esn ?db0 + m) mod 4096" "unat i = m"
  proof -
    have "esn ?db0 < 4096" "unat new < 4096" unfolding e0 new by simp_all
    from pass_lower_moved [OF r0 p1 this, unfolded dn w0] d(2) that show thesis
      unfolding unat_0 W_def [symmetric] by simp
  qed
  have m1: "moved (Suc m) db db1 out1" using moved_trans [OF m0 m(2)] by simp
  have e1: "esn db1 = (E + Suc m) mod 4096" using m(3) unfolding e0 by (simp only: mod_Suc_add)
  show ?thesis
  proof (cases "m = W")
    case True
    then have "i = aTidWinSize db" using m(4) by (simp add: word_unat_eq_iff W_def)
    then have 2: "db2 = db1\<lparr>aTidExpectedSn := new\<rparr>" "out2 = []" using p2 by simp_all
    have le: "Suc m \<le> d - W + 1" using True m(1) by simp
    have "moved (d - W + 1) db db1 out1"
      by (rule moved_extend [OF ok m1 _ le]) (simp add: True flip: W_def)
    then have "moved (d - W + 1) db db2 (out1 @ out2)" by (simp add: 2 moved_set_sn)
    moreover have "esn db2 = (E + (d - W + 1)) mod 4096" using new by (simp add: 2)
    moreover have "win db2 0 = None"
      using m1 rx_tid_okD(7) [OF ok, of "Suc m"] True by (simp add: 2 moved_def W_def)
    ultimately show ?thesis using d(1) W by (intro exI [of _ "d - W + 1"]) auto
  next
    case False
    then have "i \<noteq> aTidWinSize db" using m(4) by (auto simp: W_def)
    then have p: "pass_saved db1 = (db2, out2)" using p2 by simp
    have "rx_ring db1" "esn db1 < 4096" using m1 e1 by (simp_all add: moved_def)
    then obtain n where n: "moved n db1 db2 out2" "esn db2 = (esn db1 + n) mod 4096"
        "\<forall>k < n. win db1 k \<noteq> None" "win db2 0 = None"
      using pass_saved_moved p by blast
    have md: "m = d - W" and mW: "m < W" using False m(1) W by auto
    have "n = 0 \<or> Suc m + n \<le> W"
    proof (cases n)
      case (Suc j)
      then have "win db (Suc m + j) \<noteq> None" using n(3) m1 by (simp add: moved_def)
      then show ?thesis using rx_tid_okD(7) [OF ok, of "Suc m + j"] Suc by (force simp: W_def)
    qed simp
    then have "Suc m + n \<le> W" using mW by auto
    moreover have "moved (Suc m + n) db db2 (out1 @ out2)" using moved_trans [OF m1 n(1)] by simp
    moreover have "esn db2 = (E + (Suc m + n)) mod 4096"
      unfolding n(2) e1 by (simp add: mod_simps add.assoc)
    ultimately show ?thesis using n(4) d(1) md W by (intro exI [of _ "Suc m + n"]) auto
  qed
qed

lemma receive_beyond_outcome:
  assumes ok: "rx_tid_ok db" and res: "receive_beyond db b (frame_sn b) = (db', out)"
    and d: "unat (aTidWinSize db) \<le> dist (esn db) (unat (frame_sn b))"
      "dist (esn db) (unat (frame_sn b)) < 0x7FF"
  shows "rx_outcome db b db' out"
proof -
  define dd where "dd = dist (esn db) (unat (frame_sn b))"
  define new where
    "new = (ucast ((ucast (frame_sn b) + 0x1000 - aTidWinSize db + 1) AND 0xFFF) :: u16)"
  obtain db1 out1 i where p1: "pass_lower 8 0 new (next_sn (next_index db)) = (db1, out1, i)"
    by (cases "pass_lower 8 0 new (next_sn (next_index db))")
  obtain db2 out2 where p2:
    "(db2, out2) = (if i = aTidWinSize db then (db1\<lparr>aTidExpectedSn := new\<rparr>, []) else pass_saved db1)"
    by (metis surj_pair)
  obtain N where N: "moved N db db2 (out1 @ out2)" "esn db2 = (esn db + N) mod 4096"
      "win db2 0 = None" "0 < N" "N \<le> dd" "dd - N < unat (aTidWinSize db)"
    using beyond_moved [OF ok frame_sn_less d p1 [unfolded new_def] p2 [unfolded new_def]]
    by (auto simp: dd_def)
  have ok2: "rx_tid_ok db2" by (rule rx_tid_ok_moved [OF ok N(1-3)])
  have d2: "dist (esn db2) (unat (frame_sn b)) = dd - N"
    unfolding N(2) dd_def
    using N(5) by (intro dist_shift) (simp_all add: rx_tid_okD(2) [OF ok] frame_sn_less dd_def)
  have eq: "aTidExpectedSn db2 = frame_sn b \<longleftrightarrow> N = dd"
    using dist_0_iff [OF rx_tid_okD(2) [OF ok2] frame_sn_less, of b] N(5)
    by (auto simp: d2 word_unat_eq_iff)
  define ix where "ix = unat (save_index db2 (frame_sn b))"
  let ?e = "(slot db2 ix)\<lparr>tStatus := TI_OK, pPacket := Some b\<rparr>"
  have result: "(db', out) = (if aTidExpectedSn db2 = frame_sn b then (next_sn db2, out1 @ out2 @ [b])
      else (set_slot db2 ix ?e, out1 @ out2))"
    using res p1 p2 unfolding receive_beyond_def new_def ix_def
    by (auto simp: Let_def split: prod.splits if_splits)
  show ?thesis
  proof (cases "N = dd")
    case True
    then have out: "db' = next_sn db2" "out = (out1 @ out2) @ [b]" using result eq by simp_all
    have "moved (Suc dd) db db2 (out1 @ out2)"
      by (rule moved_extend [OF ok N(1)]) (use True d(1) in \<open>simp_all add: dd_def\<close>)
    moreover have "esn db' = (esn db + Suc dd) mod 4096"
      unfolding out(1) esn_next_sn N(2) True by (simp add: mod_simps)
    ultimately show ?thesis
      unfolding out(2) using d
      by (intro rx_outcome.moved_passed [OF dd_def]) (simp_all add: out(1) moved_next_sn dd_def)
  next
    case False
    then have out: "db' = set_slot db2 ix ?e" "out = out1 @ out2" using result eq by simp_all
    have "dd - N < 8" using N(6) rx_tid_okD(4) [OF ok] by simp
    then have "saved_at db2 (dd - N) b db'"
      using saved_at_set_slot [OF ok2 frame_sn_less, of b ?e b] unfolding d2 out(1) ix_def by simp
    then show ?thesis
      unfolding out(2) using N d False
      by (intro rx_outcome.moved_saved [OF dd_def]) (simp_all add: dd_def)
  qed
qed

text \<open>Every data frame has one of the outcomes, unless it hits the corner case of the window test.\<close>

lemma receive_data_outcome:
  assumes ok: "rx_tid_ok db" and res: "receive_data db b = (db', out)"
    and edge: "\<not> wrap_edge db (unat (frame_sn b))"
  shows "rx_outcome db b db' out"
proof -
  define d where "d = dist (esn db) (unat (frame_sn b))"
  have E: "esn db < 4096" and W: "unat (aTidWinSize db) \<le> 8" using rx_tid_okD(2,4) [OF ok] .
  have big: "BA_SESSION_IS_A_BIGGER_THAN_B (ucast (frame_sn b)) (ucast (aTidExpectedSn db)) \<longleftrightarrow>
      0 < d \<and> d < 0x7FF"
    using bigger_iff [OF frame_sn_less E] by (simp add: d_def)
  have z: "frame_sn b = aTidExpectedSn db \<longleftrightarrow> d = 0"
    using dist_0_iff [OF E frame_sn_less, of b] by (simp add: d_def word_unat_eq_iff)
  consider "d = 0" | "0x7FF \<le> d" | "0 < d" "d < 0x7FF" "d < unat (aTidWinSize db)"
    | "0 < d" "d < 0x7FF" "unat (aTidWinSize db) \<le> d" by linarith
  then show ?thesis
  proof cases
    case 1
    then show ?thesis using receive_expected_outcome [OF ok] z res by (simp add: receive_data_def)
  next
    case 2
    then have "db' = db" "out = [RxQueue_PassPacket TI_NOK b]"
      using res z big by (auto simp: receive_data_def Let_def)
    then show ?thesis using 2 rx_outcome.old by (simp add: d_def)
  next
    case 3
    define ix where "ix = unat (save_index db (frame_sn b))"
    have nb: "\<not> beyond_win_end db (frame_sn b)"
      using beyond_win_end_iff [OF ok frame_sn_less] 3 edge by (simp add: d_def)
    have slot: "pPacket (slot db ix) = win db d"
      using 3(3) W by (simp add: ix_def unat_save_index [OF ok frame_sn_less] win_def d_def)
    have result: "(db', out) = (if win db d = None
        then (set_slot db ix \<lparr>pPacket = Some b, tStatus = TI_OK, uFrameSn = frame_sn b\<rparr>, [])
        else (db, [RxQueue_PassPacket TI_NOK b]))"
      using res z big 3 nb slot
      by (simp add: receive_data_def receive_in_window_def Let_def ix_def [symmetric])
    show ?thesis
    proof (cases "win db d = None")
      case True
      have "saved_at db d b (set_slot db ix \<lparr>pPacket = Some b, tStatus = TI_OK, uFrameSn = frame_sn b\<rparr>)"
        using saved_at_set_slot [OF ok frame_sn_less, of b] 3(3) W unfolding d_def ix_def by simp
      then show ?thesis using True 3 result rx_outcome.saved [OF d_def] by simp
    next
      case False
      then have "db' = db" "out = [RxQueue_PassPacket TI_NOK b]" using result by auto
      then show ?thesis using rx_outcome.duplicate [OF d_def 3(1,3) False] by simp
    qed
  next
    case 4
    then have "receive_beyond db b (frame_sn b) = (db', out)"
      using res z big beyond_win_end_iff [OF ok frame_sn_less, of b]
      by (simp add: receive_data_def Let_def d_def)
    then show ?thesis using receive_beyond_outcome [OF ok] 4 by (simp add: d_def)
  qed
qed

section \<open>Order and conservation\<close>

definition contents :: "TRxQueueTidDataBase \<Rightarrow> RxBuf list" where
  "contents db = somes (map (win db) [0..<8])"

lemma moved_contents: "moved n db db' out \<Longrightarrow> contents db = out @ contents db'"
proof -
  assume m: "moved n db db' out"
  have "somes (map (win db) [8..<8 + n]) = []"
    by (auto simp: somes_def filter_empty_conv win_ge)
  then have "contents db = somes (map (win db) [0..<8 + n])"
    by (simp only: upt_add_eq_append [OF le0, of 8 n]) (simp add: contents_def)
  also have "map (win db) [0..<8 + n] = map (win db) [0..<n] @ map (win db') [0..<8]"
    using m by (intro nth_equalityI) (auto simp: moved_def nth_append)
  finally show ?thesis using m by (simp add: moved_def contents_def)
qed


lemma rx_outcome_ok:
  assumes "rx_outcome db b db' out" and ok: "rx_tid_ok db"
  shows "rx_tid_ok db'"
  using assms(1)
proof cases
  case (expected n out')
  then show ?thesis using rx_tid_ok_moved [OF ok] by blast
next
  case (saved d)
  then show ?thesis using rx_tid_ok_saved [OF ok] by blast
next
  case (moved_saved d n db1)
  have ok1: "rx_tid_ok db1" using rx_tid_ok_moved [OF ok moved_saved(4,5,6)] .
  have "dist (esn db1) (unat (frame_sn b)) = d - n"
    unfolding moved_saved(5) moved_saved(1)
    using moved_saved(8) by (intro dist_shift) (simp_all add: rx_tid_okD(2) [OF ok] frame_sn_less moved_saved(1))
  then show ?thesis
    using rx_tid_ok_saved [OF ok1 moved_saved(10)] moved_saved(4,8,9) by (simp add: moved_def)
next
  case (moved_passed d out')
  have "win db' 0 = win db (Suc d)" using moved_passed(5) by (simp add: moved_def)
  also have "\<dots> = None" using rx_tid_okD(7) [OF ok] moved_passed(3) by simp
  finally show ?thesis using rx_tid_ok_moved [OF ok moved_passed(5,6)] by simp
qed (use ok in simp_all)


text \<open>Handed up in order: distances from the expected number increase, up to the new one.\<close>

lemma dist_saved:
  "rx_tid_ok db \<Longrightarrow> win db k = Some b \<Longrightarrow> dist (esn db) (unat (frame_sn b)) = k"
  using rx_tid_okD(2,4,5) [of db] dist_add [of "esn db" k] by fastforce

lemma somes_in_order:
  assumes ok: "rx_tid_ok db"
  shows "map (\<lambda>b. dist (esn db) (unat (frame_sn b))) (somes (map (win db) ks)) =
    filter (\<lambda>k. win db k \<noteq> None) ks"
  by (induction ks) (auto simp: somes_def dist_saved [OF ok])

definition in_order :: "nat \<Rightarrow> nat \<Rightarrow> RxBuf list \<Rightarrow> bool" where
  "in_order E n out \<longleftrightarrow> sorted_wrt (<) (map (\<lambda>b. dist E (unat (frame_sn b))) out) \<and>
     list_all (\<lambda>b. dist E (unat (frame_sn b)) < n) out"

lemma window_in_order:
  assumes ok: "rx_tid_ok db"
  shows "in_order (esn db) n (somes (map (win db) [0..<n]))"
proof -
  let ?out = "somes (map (win db) [0..<n])"
  have out: "map (\<lambda>b. dist (esn db) (unat (frame_sn b))) ?out = filter (\<lambda>k. win db k \<noteq> None) [0..<n]"
    by (rule somes_in_order [OF ok])
  have "sorted_wrt (<) (filter (\<lambda>k. win db k \<noteq> None) [0..<n])"
    by (intro sorted_wrt_filter) simp
  moreover have "dist (esn db) (unat (frame_sn b)) < n" if "b \<in> set ?out" for b
  proof -
    have "dist (esn db) (unat (frame_sn b)) \<in> set (map (\<lambda>b. dist (esn db) (unat (frame_sn b))) ?out)"
      unfolding set_map using that by blast
    then show ?thesis unfolding out by simp
  qed
  ultimately show ?thesis unfolding in_order_def out list_all_iff by blast
qed

lemma moved_in_order: "rx_tid_ok db \<Longrightarrow> moved n db db' out \<Longrightarrow> in_order (esn db) n out"
  using window_in_order [of db n] by (simp add: moved_def)

lemma rx_outcome_in_order:
  assumes "rx_outcome db b db' out" and ok: "rx_tid_ok db"
  shows "out = [RxQueue_PassPacket TI_NOK b] \<and> db' = db \<or>
    (\<exists>n < 4096. in_order (esn db) n out \<and> esn db' = (esn db + n) mod 4096)"
  using assms(1)
proof cases
  case (expected n out')
  have "dist (esn db) (unat (frame_sn b)) = 0"
    using expected(2) dist_0_iff rx_tid_okD(2) [OF ok] by simp
  moreover have "list_all (\<lambda>b. 0 < dist (esn db) (unat (frame_sn b))) out'"
  proof -
    have "map (\<lambda>b. dist (esn db) (unat (frame_sn b))) out' =
        filter (\<lambda>k. win db k \<noteq> None) [0..<Suc n]"
      using expected(3) somes_in_order [OF ok, of "[0..<Suc n]"] by (simp only: moved_def)
    then have "set (map (\<lambda>b. dist (esn db) (unat (frame_sn b))) out') \<subseteq> {k. win db k \<noteq> None}"
      by (simp only: set_filter) blast
    then have "\<forall>k \<in> set (map (\<lambda>b. dist (esn db) (unat (frame_sn b))) out'). 0 < k"
      using rx_tid_okD(6) [OF ok] by (metis (mono_tags) gr0I mem_Collect_eq subsetD)
    then show ?thesis by (simp add: list_all_iff)
  qed
  ultimately have "in_order (esn db) (Suc n) out"
    using moved_in_order [OF ok expected(3)] expected(1) by (simp add: in_order_def list_all_iff)
  then show ?thesis using expected(4,6) by (intro disjI2 exI [of _ "Suc n"]) simp
next
  case (saved d)
  then show ?thesis using rx_tid_okD(2) [OF ok]
    by (intro disjI2 exI [of _ 0]) (simp add: in_order_def saved_at_def)
next
  case (moved_saved d n db1)
  then show ?thesis using moved_in_order [OF ok moved_saved(4)]
    by (intro disjI2 exI [of _ n]) (simp add: saved_at_def)
next
  case (moved_passed d out')
  have "in_order (esn db) (Suc d) out"
  proof -
    have "map (\<lambda>b. dist (esn db) (unat (frame_sn b))) out' =
        filter (\<lambda>k. win db k \<noteq> None) [0..<Suc d]"
      using moved_passed(5) somes_in_order [OF ok, of "[0..<Suc d]"] by (simp only: moved_def)
    then have "set (map (\<lambda>b. dist (esn db) (unat (frame_sn b))) out') \<subseteq> {k. win db k \<noteq> None}"
      by (simp only: set_filter) blast
    then have "\<forall>k \<in> set (map (\<lambda>b. dist (esn db) (unat (frame_sn b))) out'). k < d"
      using rx_tid_okD(7) [OF ok] moved_passed(3) by (metis (mono_tags) mem_Collect_eq not_less subsetD le_trans)
    then show ?thesis
      using moved_in_order [OF ok moved_passed(5)] moved_passed(1,2)
      by (simp add: in_order_def list_all_iff sorted_wrt_append)
  qed
  then show ?thesis using moved_passed(4,6) by (intro disjI2 exI [of _ "Suc d"]) simp
qed auto

section \<open>Block-ack events\<close>



lemma close_tid_flushes:
  assumes "rx_tid_ok db" and "aTidBaEstablished db" and "close_tid db = (db', out)"
  shows "out = contents db \<and> contents db' = [] \<and> \<not> aTidBaEstablished db' \<and> in_order (esn db) 8 out"
proof -
  let ?db0 = "db\<lparr>aTidBaEstablished := False\<rparr>"
  have w: "win ?db0 = win db" by (simp add: win_def slot_def fun_eq_iff)
  have r: "rx_ring ?db0" using rx_tid_okD(1) [OF assms(1)] by (simp add: rx_ring_def)
  have m: "moved 8 ?db0 db' out" using pass_all_moved [OF r] assms(2,3) by (simp add: close_tid_def)
  have out: "out = contents db" using m by (simp add: moved_def w contents_def)
  moreover have "contents db' = []"
    using moved_contents [OF m] out by (simp add: contents_def w)
  moreover have "in_order (esn db) 8 (contents db)"
    using window_in_order [OF assms(1), of 8] by (simp only: contents_def)
  ultimately show ?thesis using m by (simp add: moved_def)
qed


section \<open>The module\<close>

definition rxq_ok :: "TRxQueue \<Rightarrow> bool" where
  "rxq_ok q \<longleftrightarrow> length (tSa1ArrayMng q) = 8 \<and>
     list_all (\<lambda>db. aTidBaEstablished db \<longrightarrow> rx_tid_ok db) (tSa1ArrayMng q)"


lemma rxq_okD:
  "rxq_ok q \<Longrightarrow> t < 8 \<Longrightarrow> aTidBaEstablished (tSa1ArrayMng q ! unat t) \<Longrightarrow>
     rx_tid_ok (tSa1ArrayMng q ! unat t)" for t :: u8
  by (simp add: rxq_ok_def list_all_length word_less_nat_alt)









section \<open>Properties\<close>

text \<open>
  Buffers for the witnesses: a QoS data frame of TID 5 with a given sequence number, an ADDBA
  frame that opens TID 5, and a block-ack request for TID 5.
\<close>

definition ex_data :: "u16 \<Rightarrow> RxBuf" where
  "ex_data n = \<lparr>rx_status = 0, packet_class_tag = TAG_CLASS_QOS_DATA,
     frame = [0x88, 0] @ replicate 20 0 @ [ucast (push_bit 4 n), ucast (drop_bit 4 n), 5, 0]\<rparr>"

definition ex_addba :: "u16 \<Rightarrow> u16 \<Rightarrow> RxBuf" where
  "ex_addba w n = \<lparr>rx_status = 0, packet_class_tag = TAG_CLASS_BA_EVENT,
     frame = [0xD0, 0] @ replicate 22 0 @ [3, 0, 1, ucast (push_bit 6 w OR 0x14),
       ucast (drop_bit 2 w), 0, 0, ucast (push_bit 4 n), ucast (drop_bit 4 n)]\<rparr>"


primrec rx_run :: "TRxQueue \<Rightarrow> RxBuf list \<Rightarrow> TRxQueue \<times> RxBuf list" where
  "rx_run q [] = (q, [])"
| "rx_run q (b # bs) = (let (q1, out1) = RxQueue_ReceivePacket q b; (q2, out2) = rx_run q1 bs
                        in (q2, out1 @ out2))"

definition rx_ex :: "u16 \<Rightarrow> u16 \<Rightarrow> u16 list \<Rightarrow> TRxQueue" where
  "rx_ex w n sns = fst (rx_run (the (RxQueue_Create 4096)) (ex_addba w n # map ex_data sns))"

abbreviation (input) tid5 :: "TRxQueue \<Rightarrow> TRxQueueTidDataBase" where "tid5 q \<equiv> tSa1ArrayMng q ! 5"

lemma rx_ex_eval:
  "rx_tid_ok (tid5 (rx_ex 8 10 [12, 11, 14]))"
  "aTidBaEstablished (tid5 (rx_ex 8 10 [12, 11, 14]))"
  "contents (tid5 (rx_ex 8 10 [12, 11, 14])) = [ex_data 11, ex_data 12, ex_data 14]"
  "\<not> wrap_edge (tid5 (rx_ex 8 10 [12, 11, 14])) (unat (frame_sn (ex_data 10)))"
  by code_simp+

text \<open>
  C1: frames are handed up in sequence order.  A data frame on a TID whose window is well formed is
  either refused (old or duplicate: handed up alone, with error status, and the window is
  unchanged), or what is handed up has strictly increasing distances from the expected sequence
  number, all below the distance by which the expected number advances; the window stays well
  formed, so everything still saved comes later.
\<close>

theorem rx_data_in_order:
  assumes "rx_tid_ok db" and "\<not> wrap_edge db (unat (frame_sn b))"
    and "receive_data db b = (db', out)"
  shows "rx_tid_ok db' \<and> (out = [RxQueue_PassPacket TI_NOK b] \<and> db' = db \<or>
    (\<exists>n < 4096. in_order (esn db) n out \<and> esn db' = (esn db + n) mod 4096))"
  using receive_data_outcome [OF assms(1,3,2)] rx_outcome_ok rx_outcome_in_order assms(1) by blast

theorem rx_data_in_order_witness:
  "let r = receive_data (tid5 (rx_ex 8 10 [12, 11, 14])) (ex_data 10)
   in snd r = map ex_data [10, 11, 12] \<and> rx_tid_ok (fst r)"
proof -
  let ?r = "receive_data (tid5 (rx_ex 8 10 [12, 11, 14])) (ex_data 10)"
  have "snd ?r = map ex_data [10, 11, 12]" by code_simp
  then show ?thesis
    using rx_data_in_order [OF rx_ex_eval(1,4) prod.collapse [symmetric]] by (simp only: Let_def simp_thms)
qed






text \<open>
  C19: closing a session hands up everything that was saved, in sequence order, leaves nothing
  behind and marks the session as not established.
\<close>

theorem rx_close_flushes:
  assumes "rxq_ok q" and "t < MAX_NUM_OF_802_1d_TAGS" and "aTidBaEstablished (tSa1ArrayMng q ! unat t)"
    and "RxQueue_CloseBaSession q t = (q', out)"
  shows "out = contents (tSa1ArrayMng q ! unat t) \<and>
    in_order (esn (tSa1ArrayMng q ! unat t)) 8 out \<and>
    contents (tSa1ArrayMng q' ! unat t) = [] \<and> \<not> aTidBaEstablished (tSa1ArrayMng q' ! unat t)"
proof -
  obtain db where db: "close_tid (tSa1ArrayMng q ! unat t) = (db, out)" "q' = set_tid q t db"
    using assms(2,4) by (auto simp: RxQueue_CloseBaSession_def not_le [symmetric] split: prod.splits)
  have "tSa1ArrayMng q' ! unat t = db"
    using db(2) assms(1,2) by (simp add: set_tid_def rxq_ok_def word_less_nat_alt)
  then show ?thesis
    using close_tid_flushes [OF rxq_okD [OF assms(1-3)] assms(3) db(1)] by auto
qed

theorem rx_close_flushes_witness:
  "snd (RxQueue_CloseBaSession (rx_ex 8 10 [12, 11, 14]) 5) = map ex_data [11, 12, 14]"
proof -
  have "rxq_ok (rx_ex 8 10 [12, 11, 14])" "unat (5 :: u8) = 5" "(5 :: u8) < 8" by code_simp+
  then show ?thesis
    using rx_close_flushes [OF _ _ _ prod.collapse [symmetric], of "rx_ex 8 10 [12, 11, 14]" 5]
      rx_ex_eval(2,3) by simp
qed





end
