(* ===== verification/TxCtrlBlk.thy ===== *)
theory TxCtrlBlk
  imports Prelude
begin

text \<open>
  The table of transmit control blocks (\<^verbatim>\<open>TWD/Data_Service/txCtrlBlk.c\<close>): 160 entries, the free
  ones chained through \<open>pNextFreeEntry\<close> starting at entry 0, which is never handed out.

  Pointers into the table are entry numbers; the address past the last entry, which
  initialisation writes and then overwrites, is 160.  A read through a null or foreign pointer
  is the outer \<open>None\<close> of an operation.  The critical sections of the source make each operation
  one step.  The interface \<open>entry_pool\<close> states what the transmit path relies on.
\<close>

section \<open>The source\<close>

abbreviation (input) CTRL_BLK_ENTRIES_NUM :: "nat" where "CTRL_BLK_ENTRIES_NUM \<equiv> 160"

text \<open>The fields of a control block that the module reads or writes.\<close>

record TTxCtrlBlk =
  uTxnParams :: u32
  descID :: u8
  hlid :: u8
  reserved :: u8
  uFlags :: u16
  uHeadroomSize :: u32
  pNextFreeEntry :: "nat option"

record TTxCtrlBlkObj =
  hReport :: ptr
  hContext :: ptr
  aTxCtrlBlkTbl :: "TTxCtrlBlk list"
  uNumUsedEntries :: u32

definition txCtrlBlk_Create :: "ptr \<Rightarrow> TTxCtrlBlkObj option" where
  "txCtrlBlk_Create pMem =
     (if pMem = NULL then None
      else Some \<lparr>hReport = NULL, hContext = NULL,
        aTxCtrlBlkTbl = replicate CTRL_BLK_ENTRIES_NUM
          \<lparr>uTxnParams = 0, descID = 0, hlid = 0, reserved = 0, uFlags = 0, uHeadroomSize = 0,
           pNextFreeEntry = None\<rparr>,
        uNumUsedEntries = 0\<rparr>)"

definition set_entry :: "TTxCtrlBlkObj \<Rightarrow> nat \<Rightarrow> (TTxCtrlBlk \<Rightarrow> TTxCtrlBlk) \<Rightarrow> TTxCtrlBlkObj" where
  "set_entry p i f = p\<lparr>aTxCtrlBlkTbl := (aTxCtrlBlkTbl p)[i := f (aTxCtrlBlkTbl p ! i)]\<rparr>"

text \<open>The transaction parameters are bit fields of one word.\<close>

abbreviation (input) TXN_LOW_PRIORITY :: "u32" where "TXN_LOW_PRIORITY \<equiv> 1"
abbreviation (input) TXN_FUNC_ID_WLAN :: "u32" where "TXN_FUNC_ID_WLAN \<equiv> 2"
abbreviation (input) TXN_DIRECTION_WRITE :: "u32" where "TXN_DIRECTION_WRITE \<equiv> 0"
abbreviation (input) TXN_FIXED_ADDR :: "u32" where "TXN_FIXED_ADDR \<equiv> 1"

definition TXN_PARAM_SET :: "u32 \<Rightarrow> u32 \<Rightarrow> u32 \<Rightarrow> u32 \<Rightarrow> u32 \<Rightarrow> u32" where
  "TXN_PARAM_SET w uPriority uId uDirection uAddrMode =
     (let w1 = (w AND NOT 0x00000003) OR push_bit 0 uPriority;
          w2 = (w1 AND NOT 0x0000000C) OR push_bit 2 uId;
          w3 = (w2 AND NOT 0x00000010) OR push_bit 4 uDirection
      in (w3 AND NOT 0x00000020) OR push_bit 5 uAddrMode)"

definition init_entry :: "nat \<Rightarrow> TTxCtrlBlk \<Rightarrow> TTxCtrlBlk" where
  "init_entry entry e = e\<lparr>descID := of_nat entry, pNextFreeEntry := Some (entry + 1), hlid := 0,
     reserved := 0, uTxnParams := TXN_PARAM_SET (uTxnParams e) TXN_LOW_PRIORITY TXN_FUNC_ID_WLAN
       TXN_DIRECTION_WRITE TXN_FIXED_ADDR\<rparr>"

definition txCtrlBlk_Init :: "TTxCtrlBlkObj \<Rightarrow> ptr \<Rightarrow> ptr \<Rightarrow> TTxCtrlBlkObj" where
  "txCtrlBlk_Init p report context =
     (let p1 = fold (\<lambda>entry p. set_entry p entry (init_entry entry)) [0..<CTRL_BLK_ENTRIES_NUM]
                 (p\<lparr>hReport := report, hContext := context\<rparr>)
      in (set_entry p1 (CTRL_BLK_ENTRIES_NUM - 1) (\<lambda>e. e\<lparr>pNextFreeEntry := None\<rparr>))\<lparr>uNumUsedEntries := 0\<rparr>)"

text \<open>
  Allocation returns the entry, or a null pointer (the inner \<open>None\<close>).  In a \<^verbatim>\<open>TI_DBG\<close> build it first
  looks whether the first free entry has a successor.
\<close>

definition txCtrlBlk_Alloc :: "bool \<Rightarrow> TTxCtrlBlkObj \<Rightarrow> (nat option \<times> TTxCtrlBlkObj) option" where
  "txCtrlBlk_Alloc TI_DBG p =
     (case pNextFreeEntry (aTxCtrlBlkTbl p ! 0) of
        None \<Rightarrow> None
      | Some cur \<Rightarrow>
         if length (aTxCtrlBlkTbl p) \<le> cur then None
         else if TI_DBG \<and> pNextFreeEntry (aTxCtrlBlkTbl p ! cur) = None then Some (None, p)
         else (let p1 = (if TI_DBG then p\<lparr>uNumUsedEntries := uNumUsedEntries p + 1\<rparr> else p);
                   p2 = set_entry p1 0 (\<lambda>e. e\<lparr>pNextFreeEntry := pNextFreeEntry (aTxCtrlBlkTbl p ! cur)\<rparr>);
                   p3 = set_entry p2 cur (\<lambda>e. e\<lparr>pNextFreeEntry := None, uFlags := 0, uHeadroomSize := 0\<rparr>)
               in Some (Some cur, p3)))"

definition txCtrlBlk_Free :: "bool \<Rightarrow> TTxCtrlBlkObj \<Rightarrow> nat \<Rightarrow> TTxCtrlBlkObj" where
  "txCtrlBlk_Free TI_DBG p cur =
     (if TI_DBG \<and> pNextFreeEntry (aTxCtrlBlkTbl p ! cur) \<noteq> None then p
      else (let p1 = (if TI_DBG then p\<lparr>uNumUsedEntries := uNumUsedEntries p - 1\<rparr> else p);
                p2 = set_entry p1 cur (\<lambda>e. e\<lparr>pNextFreeEntry := pNextFreeEntry (aTxCtrlBlkTbl p ! 0)\<rparr>)
            in set_entry p2 0 (\<lambda>e. e\<lparr>pNextFreeEntry := Some cur\<rparr>)))"

text \<open>\<open>None\<close> for a descriptor id beyond the table, which the source does not check.\<close>

definition txCtrlBlk_GetPointer :: "TTxCtrlBlkObj \<Rightarrow> u8 \<Rightarrow> TTxCtrlBlk option" where
  "txCtrlBlk_GetPointer p descId =
     (if unat descId < length (aTxCtrlBlkTbl p) then Some (aTxCtrlBlkTbl p ! unat descId) else None)"

section \<open>The free list\<close>

abbreviation nxt :: "TTxCtrlBlkObj \<Rightarrow> nat \<Rightarrow> nat option" where
  "nxt p i \<equiv> pNextFreeEntry (aTxCtrlBlkTbl p ! i)"

primrec chain :: "TTxCtrlBlkObj \<Rightarrow> nat \<Rightarrow> nat list \<Rightarrow> bool" where
  "chain p i [] \<longleftrightarrow> nxt p i = None"
| "chain p i (x # xs) \<longleftrightarrow> nxt p i = Some x \<and> chain p x xs"

primrec free_walk :: "TTxCtrlBlkObj \<Rightarrow> nat \<Rightarrow> nat \<Rightarrow> nat list" where
  "free_walk p 0 i = []"
| "free_walk p (Suc n) i = (case nxt p i of None \<Rightarrow> [] | Some j \<Rightarrow> j # free_walk p n j)"

definition free_entries :: "TTxCtrlBlkObj \<Rightarrow> nat list" where
  "free_entries p = free_walk p CTRL_BLK_ENTRIES_NUM 0"

text \<open>
  The table is well formed: the chain from entry 0 runs over distinct entries of the table and
  ends, everything else has a null link, each entry carries its own number, and the counter of
  the debug build counts the entries outside of the chain.
\<close>

definition cb_ok :: "TTxCtrlBlkObj \<Rightarrow> bool" where
  "cb_ok p \<longleftrightarrow> length (aTxCtrlBlkTbl p) = CTRL_BLK_ENTRIES_NUM \<and>
     chain p 0 (free_entries p) \<and> distinct (0 # free_entries p) \<and> free_entries p \<noteq> [] \<and>
     list_all (\<lambda>i. i < CTRL_BLK_ENTRIES_NUM) (free_entries p) \<and>
     list_all (\<lambda>i. descID (aTxCtrlBlkTbl p ! i) = of_nat i) [0..<CTRL_BLK_ENTRIES_NUM] \<and>
     list_all (\<lambda>i. i \<in> set (0 # free_entries p) \<or> nxt p i = None) [0..<CTRL_BLK_ENTRIES_NUM] \<and>
     unat (uNumUsedEntries p) + length (free_entries p) = CTRL_BLK_ENTRIES_NUM - 1"

lemma free_walk_chain: "chain p i xs \<Longrightarrow> length xs \<le> n \<Longrightarrow> free_walk p n i = xs"
proof (induction xs arbitrary: i n)
  case Nil
  then show ?case by (cases n) auto
next
  case (Cons x xs)
  then show ?case by (cases n) auto
qed

lemma chain_cong: "(\<And>j. j \<in> set (i # xs) \<Longrightarrow> nxt p j = nxt p' j) \<Longrightarrow> chain p i xs = chain p' i xs"
  by (induction xs arbitrary: i) auto

lemma cb_okI:
  assumes "length (aTxCtrlBlkTbl p) = 160" "chain p 0 xs" "distinct (0 # xs)" "xs \<noteq> []"
    and "\<And>i. i \<in> set xs \<Longrightarrow> i < 160" and "\<And>i. i < 160 \<Longrightarrow> descID (aTxCtrlBlkTbl p ! i) = of_nat i"
    and "\<And>i. i < 160 \<Longrightarrow> i \<notin> set (0 # xs) \<Longrightarrow> nxt p i = None"
    and "unat (uNumUsedEntries p) + length xs = 159"
  shows "cb_ok p \<and> free_entries p = xs"
proof -
  have "set xs \<subseteq> {..<160}" using assms(5) by auto
  then have "card (set xs) \<le> 160" using card_mono [of "{..<160}" "set xs"] by simp
  then have "length xs \<le> 160" using assms(3) by (simp add: distinct_card)
  then have "free_entries p = xs" using free_walk_chain [OF assms(2)] by (simp add: free_entries_def)
  moreover have "\<forall>i < 160. i \<notin> set (0 # xs) \<longrightarrow> nxt p i = None" by (intro allI impI assms(7))
  ultimately show ?thesis using assms(1-6,8) by (auto simp: cb_ok_def list_all_upt list_all_iff [of _ xs] simp del: upt_rec_numeral)
qed

lemma cb_okD:
  assumes "cb_ok p"
  shows "length (aTxCtrlBlkTbl p) = 160" "chain p 0 (free_entries p)" "distinct (0 # free_entries p)"
    "free_entries p \<noteq> []" and "\<And>i. i \<in> set (free_entries p) \<Longrightarrow> i < 160"
    and "\<And>i. i < 160 \<Longrightarrow> descID (aTxCtrlBlkTbl p ! i) = of_nat i"
    and "\<And>i. i < 160 \<Longrightarrow> i \<notin> set (0 # free_entries p) \<Longrightarrow> nxt p i = None"
    and "unat (uNumUsedEntries p) + length (free_entries p) = 159"
  using assms
  by (auto simp: cb_ok_def list_all_upt list_all_iff [of _ "free_entries p"] simp del: upt_rec_numeral)

lemma set_entry_simps [simp]:
  "length (aTxCtrlBlkTbl (set_entry p i f)) = length (aTxCtrlBlkTbl p)"
  "uNumUsedEntries (set_entry p i f) = uNumUsedEntries p"
  "i < length (aTxCtrlBlkTbl p) \<Longrightarrow> aTxCtrlBlkTbl (set_entry p i f) ! j =
     (if j = i then f (aTxCtrlBlkTbl p ! i) else aTxCtrlBlkTbl p ! j)"
  by (auto simp: set_entry_def nth_list_update)

lemma fold_init_entry:
  "n \<le> length (aTxCtrlBlkTbl p) \<Longrightarrow>
   (let p' = fold (\<lambda>entry p. set_entry p entry (init_entry entry)) [0..<n] p
    in length (aTxCtrlBlkTbl p') = length (aTxCtrlBlkTbl p) \<and> uNumUsedEntries p' = uNumUsedEntries p \<and>
       (\<forall>j. aTxCtrlBlkTbl p' ! j =
         (if j < n then init_entry j (aTxCtrlBlkTbl p ! j) else aTxCtrlBlkTbl p ! j)))"
  by (induction n) (auto simp: Let_def less_Suc_eq)

lemma chain_upt:
  assumes "\<And>j. i \<le> j \<Longrightarrow> j < n \<Longrightarrow> nxt p j = Some (Suc j)" and "nxt p n = None" and "i \<le> n"
  shows "chain p i [Suc i..<Suc n]"
  using assms(3,1)
proof (induction "n - i" arbitrary: i)
  case 0
  then show ?case using assms(2) by simp
next
  case (Suc k)
  then have "chain p (Suc i) [Suc (Suc i)..<Suc n]" by simp
  moreover have "[Suc i..<Suc n] = Suc i # [Suc (Suc i)..<Suc n]"
    using Suc.hyps(2) by (simp add: upt_conv_Cons del: upt_Suc)
  ultimately show ?case using Suc by (simp del: upt_Suc)
qed

lemma Init_ok:
  assumes "txCtrlBlk_Create m = Some p"
  shows "cb_ok (txCtrlBlk_Init p report context) \<and>
    free_entries (txCtrlBlk_Init p report context) = [1..<160]"
proof -
  let ?start = "p\<lparr>hReport := report, hContext := context\<rparr>"
  define p1 where "p1 = fold (\<lambda>entry p. set_entry p entry (init_entry entry)) [0..<160] ?start"
  let ?p = "txCtrlBlk_Init p report context"
  have len: "length (aTxCtrlBlkTbl p) = 160"
    using assms by (auto simp: txCtrlBlk_Create_def split: if_splits)
  have p1: "length (aTxCtrlBlkTbl p1) = 160"
      "\<And>j. j < 160 \<Longrightarrow> aTxCtrlBlkTbl p1 ! j = init_entry j (aTxCtrlBlkTbl p ! j)"
    using fold_init_entry [of 160 ?start] len by (simp_all add: p1_def Let_def del: upt_rec_numeral)
  have p: "?p = (set_entry p1 159 (\<lambda>e. e\<lparr>pNextFreeEntry := None\<rparr>))\<lparr>uNumUsedEntries := 0\<rparr>"
    by (simp add: txCtrlBlk_Init_def p1_def Let_def del: upt_rec_numeral)
  have e: "aTxCtrlBlkTbl ?p ! j = (init_entry j (aTxCtrlBlkTbl p ! j))
      \<lparr>pNextFreeEntry := (if j = 159 then None else Some (Suc j))\<rparr>" if "j < 160" for j
    using that p1 unfolding p by (auto simp: init_entry_def)
  have "chain ?p 0 [Suc 0..<Suc 159]" by (rule chain_upt) (simp_all add: e)
  moreover have "[Suc 0..<Suc 159] = [1..<160]" by (rule arg_cong2 [of _ _ _ _ upt]) simp_all
  ultimately have c: "chain ?p 0 [1..<160]" by (simp only:)
  show ?thesis
  proof (rule cb_okI [OF _ c])
    show "length (aTxCtrlBlkTbl ?p) = 160" using p1(1) unfolding p by simp
    show "unat (uNumUsedEntries ?p) + length [1..<160] = 159"
      unfolding p by (simp del: upt_rec_numeral)
    show "descID (aTxCtrlBlkTbl ?p ! i) = of_nat i" if "i < 160" for i
      using e [OF that] by (simp add: init_entry_def)
    show "nxt ?p i = None" if "i < 160" "i \<notin> set (0 # [1..<160])" for i
      using that by (auto simp del: upt_rec_numeral)
  qed (simp_all del: upt_rec_numeral)
qed

section \<open>The pool interface\<close>

text \<open>
  A pool of numbered entries: an allocation hands out an entry that is not in use and marks it,
  or fails and changes nothing; a release of an entry in use makes it available again.
\<close>

primrec alloc_n :: "('s \<Rightarrow> nat option \<times> 's) \<Rightarrow> nat \<Rightarrow> 's \<Rightarrow> nat list \<times> 's" where
  "alloc_n alloc 0 s = ([], s)"
| "alloc_n alloc (Suc n) s = (case alloc s of (None, s1) \<Rightarrow> ([], s1)
     | (Some x, s1) \<Rightarrow> (let (xs, s2) = alloc_n alloc n s1 in (x # xs, s2)))"

locale entry_pool =
  fixes inv :: "'s \<Rightarrow> bool" and used :: "'s \<Rightarrow> nat set"
    and alloc :: "'s \<Rightarrow> nat option \<times> 's" and release :: "'s \<Rightarrow> nat \<Rightarrow> 's"
  assumes alloc_some: "inv s \<Longrightarrow> alloc s = (Some x, s') \<Longrightarrow> inv s' \<and> x \<notin> used s \<and> used s' = insert x (used s)"
    and alloc_none: "inv s \<Longrightarrow> alloc s = (None, s') \<Longrightarrow> s' = s"
    and release_used: "inv s \<Longrightarrow> x \<in> used s \<Longrightarrow> inv (release s x) \<and> used (release s x) = used s - {x}"
begin

lemma alloc_n_distinct:
  "inv s \<Longrightarrow> alloc_n alloc n s = (xs, s') \<Longrightarrow>
     inv s' \<and> distinct xs \<and> set xs \<inter> used s = {} \<and> used s' = used s \<union> set xs"
proof (induction n arbitrary: s xs)
  case (Suc n)
  obtain r s1 where a: "alloc s = (r, s1)" by (cases "alloc s")
  show ?case
  proof (cases r)
    case None
    then show ?thesis using a Suc.prems alloc_none by auto
  next
    case (Some x)
    obtain ys where ys: "alloc_n alloc n s1 = (ys, s')" "xs = x # ys"
      using Suc.prems(2) a Some by (auto split: prod.splits)
    then show ?thesis
      using Suc.IH [OF _ ys(1)] alloc_some [OF Suc.prems(1)] a Some by auto
  qed
qed simp

end

definition cb_used :: "TTxCtrlBlkObj \<Rightarrow> nat set" where
  "cb_used p = {1..<CTRL_BLK_ENTRIES_NUM} - set (free_entries p)"

text \<open>The debug build's allocation as a total function; on a well-formed table it never faults.\<close>

definition cb_alloc :: "TTxCtrlBlkObj \<Rightarrow> nat option \<times> TTxCtrlBlkObj" where
  "cb_alloc p = (case txCtrlBlk_Alloc True p of None \<Rightarrow> (None, p) | Some r \<Rightarrow> r)"

lemma Alloc_dbg:
  assumes ok: "cb_ok p" and fl: "free_entries p = x # xs"
  shows "xs = [] \<Longrightarrow> txCtrlBlk_Alloc True p = Some (None, p)"
    and "xs \<noteq> [] \<Longrightarrow> \<exists>p'. txCtrlBlk_Alloc True p = Some (Some x, p') \<and> cb_ok p' \<and> free_entries p' = xs \<and>
      uFlags (aTxCtrlBlkTbl p' ! x) = 0 \<and> uHeadroomSize (aTxCtrlBlkTbl p' ! x) = 0"
proof -
  have len: "length (aTxCtrlBlkTbl p) = 160" and x: "x < 160" "x \<noteq> 0" "x \<notin> set xs" "0 \<notin> set xs"
      "distinct xs" and n0: "nxt p 0 = Some x" and c: "chain p x xs"
    using cb_okD(1,2,3) [OF ok] cb_okD(5) [OF ok, of x] fl by auto
  show "xs = [] \<Longrightarrow> txCtrlBlk_Alloc True p = Some (None, p)"
    using n0 c len x by (simp add: txCtrlBlk_Alloc_def)
  assume ne: "xs \<noteq> []"
  then have nx: "nxt p x = Some (hd xs)" using c by (cases xs) auto
  define p' where "p' = set_entry (set_entry (p\<lparr>uNumUsedEntries := uNumUsedEntries p + 1\<rparr>) 0
      (\<lambda>e. e\<lparr>pNextFreeEntry := nxt p x\<rparr>)) x (\<lambda>e. e\<lparr>pNextFreeEntry := None, uFlags := 0, uHeadroomSize := 0\<rparr>)"
  have a: "txCtrlBlk_Alloc True p = Some (Some x, p')"
    using n0 nx len x by (simp add: txCtrlBlk_Alloc_def p'_def)
  have n': "nxt p' i = (if i = x then None else if i = 0 then nxt p x else nxt p i)" for i
    using len x by (simp add: p'_def)
  have "chain p' 0 xs"
  proof (cases xs)
    case (Cons y ys)
    then have "nxt p' 0 = Some y" using nx n' x by simp
    moreover have "chain p' y ys = chain p y ys" using n' x Cons by (intro chain_cong) auto
    ultimately show ?thesis using c Cons by simp
  qed (use ne in simp)
  moreover have "unat (uNumUsedEntries p') = unat (uNumUsedEntries p) + 1"
    using cb_okD(8) [OF ok] fl unfolding p'_def by (simp add: unat_u32_add)
  moreover have "i < 160 \<Longrightarrow> i \<notin> set (0 # xs) \<Longrightarrow> nxt p' i = None" for i
    using n' cb_okD(7) [OF ok, of i] fl by auto
  moreover have "i < 160 \<Longrightarrow> descID (aTxCtrlBlkTbl p' ! i) = of_nat i" for i
    using cb_okD(6) [OF ok, of i] len x unfolding p'_def by auto
  moreover have "length (aTxCtrlBlkTbl p') = 160" using len by (simp add: p'_def)
  ultimately have "cb_ok p' \<and> free_entries p' = xs"
    using cb_okI [of p' xs] cb_okD(5,8) [OF ok] fl x ne by simp
  moreover have "uFlags (aTxCtrlBlkTbl p' ! x) = 0" "uHeadroomSize (aTxCtrlBlkTbl p' ! x) = 0"
    using len x by (simp_all add: p'_def)
  ultimately show "\<exists>p'. txCtrlBlk_Alloc True p = Some (Some x, p') \<and> cb_ok p' \<and> free_entries p' = xs \<and>
      uFlags (aTxCtrlBlkTbl p' ! x) = 0 \<and> uHeadroomSize (aTxCtrlBlkTbl p' ! x) = 0"
    using a by blast
qed

lemma Free_dbg:
  assumes ok: "cb_ok p" and x: "x \<in> cb_used p"
  shows "cb_ok (txCtrlBlk_Free True p x) \<and> free_entries (txCtrlBlk_Free True p x) = x # free_entries p"
proof -
  let ?p' = "txCtrlBlk_Free True p x"
  have len: "length (aTxCtrlBlkTbl p) = 160" and xr: "x < 160" "x \<noteq> 0" "x \<notin> set (free_entries p)"
    using cb_okD(1) [OF ok] x by (auto simp: cb_used_def)
  have nx: "nxt p x = None" using cb_okD(7) [OF ok, of x] xr by simp
  have p': "?p' = set_entry (set_entry (p\<lparr>uNumUsedEntries := uNumUsedEntries p - 1\<rparr>) x
      (\<lambda>e. e\<lparr>pNextFreeEntry := nxt p 0\<rparr>)) 0 (\<lambda>e. e\<lparr>pNextFreeEntry := Some x\<rparr>)"
    using nx by (simp add: txCtrlBlk_Free_def)
  have n': "nxt ?p' i = (if i = 0 then Some x else if i = x then nxt p 0 else nxt p i)" for i
    using len xr unfolding p' by simp
  have "chain ?p' x (free_entries p)"
  proof (cases "free_entries p")
    case (Cons y ys)
    then have "nxt ?p' x = Some y" using cb_okD(2) [OF ok] n' xr by simp
    moreover have "chain ?p' y ys = chain p y ys"
      using n' xr Cons cb_okD(3) [OF ok] by (intro chain_cong) auto
    ultimately show ?thesis using cb_okD(2) [OF ok] Cons by simp
  qed (use cb_okD(4) [OF ok] in simp)
  then have "chain ?p' 0 (x # free_entries p)" using n' by simp
  moreover have "unat (uNumUsedEntries ?p') + 1 = unat (uNumUsedEntries p)"
  proof -
    have "set (x # free_entries p) \<subseteq> {1..<160}"
      using xr cb_okD(3,5) [OF ok] by (auto simp: Suc_le_eq intro: gr0I)
    then have "card (set (x # free_entries p)) \<le> 159" using card_mono [of "{1..<160}"] by force
    then have "length (free_entries p) < 159"
      using xr(3) cb_okD(3) [OF ok] by (simp add: distinct_card)
    then have "1 \<le> uNumUsedEntries p" using cb_okD(8) [OF ok] by (simp add: word_le_nat_alt)
    then have "unat (uNumUsedEntries p - 1) = unat (uNumUsedEntries p) - 1" by (simp add: unat_sub)
    then show ?thesis using \<open>1 \<le> uNumUsedEntries p\<close> unfolding p' by (simp add: word_le_nat_alt)
  qed
  moreover have "i < 160 \<Longrightarrow> i \<notin> set (0 # x # free_entries p) \<Longrightarrow> nxt ?p' i = None" for i
    using n' cb_okD(7) [OF ok, of i] by auto
  moreover have "i < 160 \<Longrightarrow> descID (aTxCtrlBlkTbl ?p' ! i) = of_nat i" for i
    using cb_okD(6) [OF ok, of i] len xr unfolding p' by auto
  moreover have "length (aTxCtrlBlkTbl ?p') = 160" using len unfolding p' by simp
  ultimately show ?thesis
    using cb_okI [of ?p' "x # free_entries p"] cb_okD(3,5,8) [OF ok] xr by force
qed

lemma cb_alloc_cases:
  assumes ok: "cb_ok p" and fl: "free_entries p = x # xs"
  shows "if xs = [] then cb_alloc p = (None, p)
    else \<exists>p'. cb_alloc p = (Some x, p') \<and> cb_ok p' \<and> free_entries p' = xs"
  using Alloc_dbg [OF assms] by (auto simp: cb_alloc_def)

interpretation cb: entry_pool cb_ok cb_used cb_alloc "txCtrlBlk_Free True"
proof
  fix p p' x
  assume ok: "cb_ok p"
  obtain y ys where fl: "free_entries p = y # ys" using cb_okD(4) [OF ok] by (cases "free_entries p") auto
  have y: "y < 160" "y \<noteq> 0" using cb_okD(3) [OF ok] cb_okD(5) [OF ok, of y] fl by auto
  show "cb_alloc p = (Some x, p') \<Longrightarrow> cb_ok p' \<and> x \<notin> cb_used p \<and> cb_used p' = insert x (cb_used p)"
    using cb_alloc_cases [OF ok fl] y fl cb_okD(3) [OF ok] by (auto simp: cb_used_def split: if_splits)
  show "cb_alloc p = (None, p') \<Longrightarrow> p' = p"
    using cb_alloc_cases [OF ok fl] by (auto split: if_splits)
  show "x \<in> cb_used p \<Longrightarrow> cb_ok (txCtrlBlk_Free True p x) \<and>
      cb_used (txCtrlBlk_Free True p x) = cb_used p - {x}"
    using Free_dbg [OF ok, of x] by (auto simp: cb_used_def)
qed

section \<open>Properties\<close>

definition cb_ex :: TTxCtrlBlkObj where
  "cb_ex = txCtrlBlk_Init (the (txCtrlBlk_Create 4096)) 16 32"

lemma cb_ex_ok: "cb_ok cb_ex" "free_entries cb_ex = [1..<160]"
  using Init_ok [of 4096 "the (txCtrlBlk_Create 4096)"]
  by (simp_all add: cb_ex_def txCtrlBlk_Create_def del: upt_rec_numeral)

text \<open>
  C27: control blocks are never shared.  However many are allocated in a row from a well-formed
  table, they are distinct, none of them was in use, and each is the one that its descriptor id
  leads back to when the firmware reports the transmission complete.
\<close>

theorem cb_alloc_never_shared:
  assumes "cb_ok p" and "alloc_n cb_alloc n p = (xs, p')"
  shows "cb_ok p' \<and> distinct xs \<and> set xs \<inter> cb_used p = {} \<and> cb_used p' = cb_used p \<union> set xs \<and>
    list_all (\<lambda>x. txCtrlBlk_GetPointer p' (descID (aTxCtrlBlkTbl p' ! x)) = Some (aTxCtrlBlkTbl p' ! x)) xs"
proof -
  note d = cb.alloc_n_distinct [OF assms]
  have "txCtrlBlk_GetPointer p' (descID (aTxCtrlBlkTbl p' ! x)) = Some (aTxCtrlBlkTbl p' ! x)"
    if "x \<in> set xs" for x
  proof -
    have "x < 160" using that d by (auto simp: cb_used_def)
    then have "unat (of_nat x :: u8) = x" by (simp add: unsigned_of_nat take_bit_nat_eq_self)
    then show ?thesis
      using cb_okD(1,6) [of p'] d \<open>x < 160\<close> by (simp add: txCtrlBlk_GetPointer_def)
  qed
  then show ?thesis using d by (simp add: list_all_iff)
qed

theorem cb_alloc_never_shared_witness:
  "distinct (fst (alloc_n cb_alloc 3 cb_ex)) \<and> cb_ok (snd (alloc_n cb_alloc 3 cb_ex))"
  using cb_alloc_never_shared [OF cb_ex_ok(1) prod.collapse [symmetric]] by blast

text \<open>
  The debug build hands out all free entries but the last.  Asked for \<open>n\<close> entries in a row, a
  well-formed table yields exactly the first \<open>n\<close> of its free list, or all but the last of it when
  \<open>n\<close> is larger: the test for an empty list looks at the successor of the first free entry.
\<close>

lemma cb_alloc_capacity:
  "cb_ok p \<Longrightarrow> fst (alloc_n cb_alloc n p) = take n (butlast (free_entries p))"
proof (induction n arbitrary: p)
  case (Suc n)
  obtain x xs where fl: "free_entries p = x # xs"
    using cb_okD(4) [OF Suc.prems] by (cases "free_entries p") auto
  show ?case
  proof (cases "xs = []")
    case False
    then obtain p' where p': "cb_alloc p = (Some x, p')" "cb_ok p'" "free_entries p' = xs"
      using cb_alloc_cases [OF Suc.prems fl] by auto
    then show ?thesis using Suc.IH [OF p'(2)] fl False by (simp add: case_prod_beta Let_def)
  qed (use cb_alloc_cases [OF Suc.prems fl] fl in simp)
qed simp

text \<open>
  A released entry is the next one handed out, with its flags and headroom cleared, and the
  free list is as it was before the release.
\<close>

lemma cb_free_then_alloc:
  assumes "cb_ok p" and "x \<in> cb_used p"
  shows "\<exists>p'. txCtrlBlk_Alloc True (txCtrlBlk_Free True p x) = Some (Some x, p') \<and> cb_ok p' \<and>
    free_entries p' = free_entries p \<and> uFlags (aTxCtrlBlkTbl p' ! x) = 0 \<and>
    uHeadroomSize (aTxCtrlBlkTbl p' ! x) = 0"
  using Free_dbg [OF assms] Alloc_dbg(2) [of "txCtrlBlk_Free True p x" x "free_entries p"]
    cb_okD(4) [OF assms(1)] by simp

end
