(* ===== verification/Queue.thy ===== *)
theory Queue
  imports Prelude
begin

text \<open>
  The intrusive doubly-linked queue of utils/queue.c, which every other module of the driver
  uses (timers, transmit queues, transaction queues).  A queued item embeds a node header
  \<^verbatim>\<open>TQueNodeHdr\<close> with its two links; the queue object itself holds the head node of the
  ring.  The links of all node headers form one shared heap (\<open>qheap\<close>), because an item may
  be linked to one of several queues; the counters of one queue are a record (\<open>TQueue\<close>).

  The second half relates the ring to a plain list of items: a well-formedness invariant, an
  interface locale \<open>fifo\<close> for a bounded first-in first-out queue, and its interpretation on
  the pointer operations.
\<close>

section \<open>The source\<close>

record qheap =
  pNext :: "ptr \<Rightarrow> ptr"
  pPrev :: "ptr \<Rightarrow> ptr"

text \<open>
  \<open>tHead\<close> is the address of the head node inside the queue object.  \<open>uMaxCount\<close> and
  \<open>uOverflow\<close> are only written when the driver is built with \<^verbatim>\<open>TI_DBG\<close>, which
  the operations take as their first argument.
\<close>

record TQueue =
  tHead :: ptr
  uCount :: u32
  uLimit :: u32
  uMaxCount :: u32
  uOverflow :: u32
  uNodeHeaderOffset :: u32
  hOs :: ptr
  hReport :: ptr

abbreviation QUE_UNLIMITED_SIZE :: u32 where
  "QUE_UNLIMITED_SIZE \<equiv> 0xFFFFFFFF"

definition InsertNode :: "qheap \<Rightarrow> ptr \<Rightarrow> ptr \<Rightarrow> ptr \<Rightarrow> qheap" where
  "InsertNode h pNode pPrv pNxt =
     (let h1 = h\<lparr>pPrev := (pPrev h)(pNxt := pNode)\<rparr>;
          h2 = h1\<lparr>pNext := (pNext h1)(pNode := pNxt)\<rparr>;
          h3 = h2\<lparr>pPrev := (pPrev h2)(pNode := pPrv)\<rparr>
      in h3\<lparr>pNext := (pNext h3)(pPrv := pNode)\<rparr>)"

definition RemoveNode :: "qheap \<Rightarrow> ptr \<Rightarrow> ptr \<Rightarrow> qheap" where
  "RemoveNode h pPrv pNxt =
     (let h1 = h\<lparr>pPrev := (pPrev h)(pNxt := pPrv)\<rparr>
      in h1\<lparr>pNext := (pNext h1)(pPrv := pNxt)\<rparr>)"

definition AddToHead :: "qheap \<Rightarrow> ptr \<Rightarrow> ptr \<Rightarrow> qheap" where
  "AddToHead h pNode pListHead = InsertNode h pNode pListHead (pNext h pListHead)"

definition AddToTail :: "qheap \<Rightarrow> ptr \<Rightarrow> ptr \<Rightarrow> qheap" where
  "AddToTail h pNode pListHead = InsertNode h pNode (pPrev h pListHead) pListHead"

definition DelFromTail :: "qheap \<Rightarrow> ptr \<Rightarrow> qheap" where
  "DelFromTail h pNode = RemoveNode h (pPrev h pNode) (pNext h pNode)"

text \<open>
  \<open>pQue\<close> is what \<^verbatim>\<open>os_memoryAlloc\<close> returned.  \<^verbatim>\<open>tHead\<close> is the first field of the
  object, so the head node has the address of the object.
\<close>

definition que_Create ::
  "ptr \<Rightarrow> qheap \<Rightarrow> ptr \<Rightarrow> ptr \<Rightarrow> u32 \<Rightarrow> u32 \<Rightarrow> (qheap \<times> TQueue) option" where
  "que_Create pQue h os report limit off =
     (if pQue = NULL then None
      else Some (h\<lparr>pNext := (pNext h)(pQue := pQue), pPrev := (pPrev h)(pQue := pQue)\<rparr>,
                 \<lparr>tHead = pQue, uCount = 0, uLimit = limit, uMaxCount = 0, uOverflow = 0,
                  uNodeHeaderOffset = off, hOs = os, hReport = report\<rparr>))"

definition que_Init :: "TQueue \<Rightarrow> ptr \<Rightarrow> ptr \<Rightarrow> TI_STATUS \<times> TQueue" where
  "que_Init q os report = (TI_OK, q\<lparr>hOs := os, hReport := report\<rparr>)"

definition que_Enqueue ::
  "bool \<Rightarrow> qheap \<Rightarrow> TQueue \<Rightarrow> ptr \<Rightarrow> TI_STATUS \<times> qheap \<times> TQueue" where
  "que_Enqueue TI_DBG h q hItem =
     (if uCount q < uLimit q
      then (let pQueNodeHdr = hItem + uNodeHeaderOffset q
            in if pNext h pQueNodeHdr \<noteq> NULL then (TI_NOK, h, q)
               else (let h' = AddToHead h pQueNodeHdr (tHead q);
                         q' = q\<lparr>uCount := uCount q + 1\<rparr>;
                         q'' = (if TI_DBG \<and> uCount q' > uMaxCount q'
                                then q'\<lparr>uMaxCount := uCount q'\<rparr> else q')
                     in (TI_OK, h', q'')))
      else (TI_NOK, h, if TI_DBG then q\<lparr>uOverflow := uOverflow q + 1\<rparr> else q))"

definition que_Dequeue :: "bool \<Rightarrow> qheap \<Rightarrow> TQueue \<Rightarrow> ptr \<times> qheap \<times> TQueue" where
  "que_Dequeue TI_DBG h q =
     (if uCount q \<noteq> 0
      then (let hItem = pPrev h (tHead q) - uNodeHeaderOffset q;
                h' = DelFromTail h (pPrev h (tHead q));
                q' = q\<lparr>uCount := uCount q - 1\<rparr>;
                h'' = (if TI_DBG
                       then h'\<lparr>pNext := (pNext h')(hItem + uNodeHeaderOffset q := NULL)\<rparr>
                       else h')
            in (hItem, h'', q'))
      else (NULL, h, q))"

definition que_Requeue ::
  "bool \<Rightarrow> qheap \<Rightarrow> TQueue \<Rightarrow> ptr \<Rightarrow> TI_STATUS \<times> qheap \<times> TQueue" where
  "que_Requeue TI_DBG h q hItem =
     (if uCount q < uLimit q
      then (let pQueNodeHdr = hItem + uNodeHeaderOffset q
            in if pNext h pQueNodeHdr \<noteq> NULL then (TI_NOK, h, q)
               else (let h' = AddToTail h pQueNodeHdr (tHead q);
                         q' = q\<lparr>uCount := uCount q + 1\<rparr>;
                         q'' = (if TI_DBG \<and> uCount q' > uMaxCount q'
                                then q'\<lparr>uMaxCount := uCount q'\<rparr> else q')
                     in (TI_OK, h', q'')))
      else (TI_NOK, h, if TI_DBG then q\<lparr>uOverflow := uOverflow q + 1\<rparr> else q))"

definition que_Size :: "TQueue \<Rightarrow> u32" where
  "que_Size q = uCount q"

text \<open>
  \<^verbatim>\<open>while (que_Dequeue (hQue) != NULL) {}\<close>: the idiom by which clients empty a queue.
  Every iteration that continues has decremented \<open>uCount\<close>, whatever the links are.
\<close>

function que_Clear :: "bool \<Rightarrow> qheap \<Rightarrow> TQueue \<Rightarrow> qheap \<times> TQueue" where
  "que_Clear TI_DBG h q =
     (case que_Dequeue TI_DBG h q of
        (hItem, h', q') \<Rightarrow> if hItem \<noteq> NULL then que_Clear TI_DBG h' q' else (h', q'))"
  by pat_completeness auto
termination
  by (relation "measure (\<lambda>(d, h, q). unat (uCount q))")
     (auto simp: que_Dequeue_def Let_def measure_unat split: if_splits)

declare que_Clear.simps [simp del]

section \<open>Well-formed queues and the items they hold\<close>

text \<open>
  \<open>que_nodes\<close> walks the ring backwards from the head, \<open>uCount\<close> nodes long: the node that
  will be dequeued first comes first.
\<close>

primrec que_walk :: "qheap \<Rightarrow> nat \<Rightarrow> ptr \<Rightarrow> ptr list" where
  "que_walk h 0 a = []"
| "que_walk h (Suc n) a = a # que_walk h n (pPrev h a)"

definition que_nodes :: "qheap \<Rightarrow> TQueue \<Rightarrow> ptr list" where
  "que_nodes h q = que_walk h (unat (uCount q)) (pPrev h (tHead q))"

definition que_items :: "qheap \<Rightarrow> TQueue \<Rightarrow> ptr list" where
  "que_items h q = map (\<lambda>n. n - uNodeHeaderOffset q) (que_nodes h q)"

text \<open>Consecutive nodes of the list point at each other.\<close>

fun linked :: "qheap \<Rightarrow> ptr list \<Rightarrow> bool" where
  "linked h (x # y # zs) \<longleftrightarrow> pPrev h x = y \<and> pNext h y = x \<and> linked h (y # zs)"
| "linked h _ \<longleftrightarrow> True"

definition que_ring :: "qheap \<Rightarrow> TQueue \<Rightarrow> ptr list \<Rightarrow> bool" where
  "que_ring h q ns \<longleftrightarrow>
     linked h (tHead q # ns @ [tHead q]) \<and> distinct (tHead q # ns) \<and>
     NULL \<notin> set (tHead q # ns) \<and> uNodeHeaderOffset q \<notin> set ns \<and>
     length ns = unat (uCount q)"

definition que_wf :: "qheap \<Rightarrow> TQueue \<Rightarrow> bool" where
  "que_wf h q \<longleftrightarrow> que_ring h q (que_nodes h q) \<and> uCount q \<le> uLimit q"

subsection \<open>Linked segments\<close>

lemma linked_append:
  "linked h (xs @ y # zs) \<longleftrightarrow> linked h (xs @ [y]) \<and> linked h (y # zs)"
  by (induction xs rule: induct_list012) auto

lemma linked_cong:
  assumes "\<And>x. x \<in> set (butlast xs) \<Longrightarrow> pPrev h' x = pPrev h x"
    and "\<And>x. x \<in> set (tl xs) \<Longrightarrow> pNext h' x = pNext h x"
  shows "linked h' xs \<longleftrightarrow> linked h xs"
  using assms by (induction xs rule: induct_list012) auto

lemma linked_walk:
  "linked h (a # ns @ [b]) \<Longrightarrow> que_walk h (length ns) (pPrev h a) = ns"
  by (induction ns arbitrary: a) auto

lemma InsertNode_fields:
  "pPrev (InsertNode h n p x) = (pPrev h)(x := n, n := p)"
  "pNext (InsertNode h n p x) = (pNext h)(n := x, p := n)"
  by (simp_all add: InsertNode_def Let_def)

lemma RemoveNode_fields:
  "pPrev (RemoveNode h p x) = (pPrev h)(x := p)"
  "pNext (RemoveNode h p x) = (pNext h)(p := x)"
  by (simp_all add: RemoveNode_def Let_def)

lemma linked_insert:
  assumes lnk: "linked h (xs @ a # b # ys)"
    and dist: "distinct (butlast (xs @ a # b # ys))" "distinct (tl (xs @ a # b # ys))"
    and new: "n \<notin> set (xs @ a # b # ys)"
  shows "linked (InsertNode h n b a) (xs @ a # n # b # ys)"
proof -
  let ?h = "InsertNode h n b a"
  have parts: "linked h (xs @ [a])" "linked h (b # ys)"
    using lnk by (simp_all add: linked_append [of h xs a "b # ys"])
  have a: "a \<notin> set xs" "a \<notin> set (butlast (b # ys))"
    using dist(1) by (auto simp: butlast_append)
  have b: "b \<notin> set (tl (xs @ [a]))" "b \<notin> set ys"
    using dist(2) by (cases xs; auto)+
  have n: "n \<notin> set (tl (xs @ [a]))"
    using new by (cases xs) auto
  have "linked ?h (xs @ [a])"
    using parts(1) a b n new
    by (subst linked_cong [of _ _ h]) (auto simp: InsertNode_fields)
  moreover have "linked ?h (b # ys)"
    using parts(2) a b new
    by (subst linked_cong [of _ _ h]) (auto simp: InsertNode_fields dest: in_set_butlastD
        split: if_splits)
  ultimately show ?thesis
    using new by (auto simp: linked_append [of ?h xs a "n # b # ys"] InsertNode_fields)
qed

lemma linked_remove:
  assumes lnk: "linked h (xs @ a # x # b # ys)"
    and dist: "distinct (butlast (xs @ a # x # b # ys))" "distinct (tl (xs @ a # x # b # ys))"
  shows "linked (RemoveNode h b a) (xs @ a # b # ys)"
proof -
  let ?h = "RemoveNode h b a"
  have parts: "linked h (xs @ [a])" "linked h (b # ys)"
    using lnk by (simp_all add: linked_append [of h xs a "x # b # ys"])
  have a: "a \<notin> set xs" "a \<notin> set (butlast (b # ys))"
    using dist(1) by (auto simp: butlast_append)
  have b: "b \<notin> set (tl (xs @ [a]))" "b \<notin> set ys"
    using dist(2) by (cases xs; auto)+
  have "linked ?h (xs @ [a])"
    using parts(1) a b by (subst linked_cong [of _ _ h]) (auto simp: RemoveNode_fields)
  moreover have "linked ?h (b # ys)"
    using parts(2) a b
    by (subst linked_cong [of _ _ h]) (auto simp: RemoveNode_fields split: if_splits)
  ultimately show ?thesis
    by (simp add: linked_append [of ?h xs a "b # ys"] RemoveNode_fields)
qed

subsection \<open>Rings\<close>

lemma que_ring_nodes: "que_ring h q ns \<Longrightarrow> que_nodes h q = ns"
  using linked_walk [of h "tHead q" ns "tHead q"] by (simp add: que_ring_def que_nodes_def)

lemma que_wf_iff_ring:
  "que_wf h q \<longleftrightarrow> (\<exists>ns. que_ring h q ns) \<and> uCount q \<le> uLimit q"
  by (auto simp: que_wf_def dest: que_ring_nodes)

lemma que_ring_first:
  assumes "que_ring h q ns"
  shows "pPrev h (tHead q) = hd (ns @ [tHead q])"
    and "pNext h (tHead q) = last (tHead q # ns)"
proof -
  have l: "linked h (tHead q # ns @ [tHead q])" using assms by (simp add: que_ring_def)
  then show "pPrev h (tHead q) = hd (ns @ [tHead q])" by (cases ns) auto
  show "pNext h (tHead q) = last (tHead q # ns)"
  proof (cases ns rule: rev_cases)
    case Nil
    with l show ?thesis by simp
  next
    case (snoc ms m)
    with l have "linked h ((tHead q # ms) @ m # [tHead q])" by simp
    then have "linked h (m # [tHead q])" by (subst (asm) linked_append) simp
    with snoc show ?thesis by simp
  qed
qed

text \<open>A node of a ring, the head included, has a non-null successor.\<close>

lemma que_ring_next_nonnull:
  assumes ring: "que_ring h q ns" and x: "x \<in> set (tHead q # ns)"
  shows "pNext h x \<noteq> NULL"
proof -
  have l: "linked h (tHead q # ns @ [tHead q])" and nn: "NULL \<notin> set (tHead q # ns)"
    using ring by (simp_all add: que_ring_def)
  have gen: "linked h zs \<Longrightarrow> NULL \<notin> set (butlast zs) \<Longrightarrow> y \<in> set (tl zs) \<Longrightarrow> pNext h y \<noteq> NULL"
    for y zs
    by (induction zs rule: induct_list012) (auto split: if_splits)
  have "NULL \<notin> set (butlast (tHead q # ns @ [tHead q]))"
    using nn by (simp add: butlast_append)
  with gen [OF l] x show ?thesis by simp
qed

lemma que_ring_fresh:
  "que_ring h q ns \<Longrightarrow> pNext h x = NULL \<Longrightarrow> x \<notin> set (tHead q # ns)"
  using que_ring_next_nonnull by blast

lemma que_ring_cong:
  assumes ring: "que_ring h q ns"
    and same: "\<And>x. x \<in> set (tHead q # ns) \<Longrightarrow> pNext h' x = pNext h x \<and> pPrev h' x = pPrev h x"
  shows "que_ring h' q ns"
proof -
  have "linked h' (tHead q # ns @ [tHead q]) \<longleftrightarrow> linked h (tHead q # ns @ [tHead q])"
    using same by (intro linked_cong) (auto simp: butlast_append)
  with ring show ?thesis by (simp add: que_ring_def)
qed

lemma que_ring_counters:
  "que_ring h (q\<lparr>uMaxCount := m\<rparr>) ns = que_ring h q ns"
  "que_ring h (q\<lparr>uOverflow := m\<rparr>) ns = que_ring h q ns"
  by (simp_all add: que_ring_def)

lemma que_ring_distinct:
  assumes "que_ring h q ns"
  shows "distinct (butlast (tHead q # ns @ [tHead q]))"
    and "distinct (tl (tHead q # ns @ [tHead q]))"
  using assms by (auto simp: que_ring_def butlast_append)

subsection \<open>The operations on rings\<close>

lemma AddToHead_ring:
  assumes ring: "que_ring h q ns" and new: "n \<notin> set (tHead q # ns)"
  shows "linked (AddToHead h n (tHead q)) (tHead q # (ns @ [n]) @ [tHead q])"
proof -
  obtain xs a where xa: "tHead q # ns = xs @ [a]"
    by (metis list.distinct(1) rev_exhaust)
  then have old: "tHead q # ns @ [tHead q] = xs @ a # tHead q # []"
    by (metis append.assoc append_Cons append_Nil)
  have new': "n \<notin> set (xs @ a # tHead q # [])"
    using new by (simp flip: old)
  have "linked (InsertNode h n (tHead q) a) (xs @ a # n # tHead q # [])"
    using ring que_ring_distinct [OF ring]
    by (intro linked_insert new') (simp_all only: que_ring_def old)
  moreover have "pNext h (tHead q) = a"
    using que_ring_first(2) [OF ring] by (simp add: xa)
  moreover have "tHead q # (ns @ [n]) @ [tHead q] = xs @ a # n # tHead q # []"
    using xa by (metis append.assoc append_Cons append_Nil)
  ultimately show ?thesis
    by (simp only: AddToHead_def)
qed

lemma AddToTail_ring:
  assumes ring: "que_ring h q ns" and new: "n \<notin> set (tHead q # ns)"
  shows "linked (AddToTail h n (tHead q)) (tHead q # (n # ns) @ [tHead q])"
proof -
  obtain b ys where tail: "ns @ [tHead q] = b # ys" by (cases ns) auto
  have "linked (InsertNode h n b (tHead q)) ([] @ tHead q # n # b # ys)"
    by (rule linked_insert)
       (use ring new que_ring_distinct [OF ring] in \<open>auto simp: que_ring_def simp flip: tail\<close>)
  then show ?thesis
    by (simp add: AddToTail_def que_ring_first(1) [OF ring] tail)
qed

lemma DelFromTail_ring:
  assumes ring: "que_ring h q (n # ns)"
  shows "linked (DelFromTail h n) (tHead q # ns @ [tHead q])"
proof -
  obtain b ys where tail: "ns @ [tHead q] = b # ys" by (cases ns) auto
  have l: "linked h ([] @ tHead q # n # b # ys)"
    using ring by (simp add: que_ring_def tail)
  have "linked (RemoveNode h b (tHead q)) ([] @ tHead q # b # ys)"
    by (rule linked_remove [OF l])
       (use que_ring_distinct [OF ring] in \<open>simp_all add: tail\<close>)
  then show ?thesis
    using l by (simp add: DelFromTail_def tail)
qed

text \<open>
  The three operations on a ring.  In each lemma the last two parts say that the parameters of
  the queue and the links outside the ring and the given node are untouched.
\<close>

definition que_same_params :: "TQueue \<Rightarrow> TQueue \<Rightarrow> bool" where
  "que_same_params q q' \<longleftrightarrow> tHead q' = tHead q \<and> uLimit q' = uLimit q \<and>
     uNodeHeaderOffset q' = uNodeHeaderOffset q"

definition que_frame :: "qheap \<Rightarrow> qheap \<Rightarrow> ptr set \<Rightarrow> bool" where
  "que_frame h h' A \<longleftrightarrow> (\<forall>x. x \<notin> A \<longrightarrow> pNext h' x = pNext h x \<and> pPrev h' x = pPrev h x)"

definition que_linkable :: "qheap \<Rightarrow> TQueue \<Rightarrow> ptr \<Rightarrow> bool" where
  "que_linkable h q hItem \<longleftrightarrow> uCount q < uLimit q \<and> pNext h (hItem + uNodeHeaderOffset q) = NULL \<and>
     hItem \<noteq> NULL \<and> hItem + uNodeHeaderOffset q \<noteq> NULL"

lemma que_Enqueue_ring:
  assumes ring: "que_ring h q ns" and lk: "que_linkable h q hItem"
    and res: "que_Enqueue d h q hItem = (st, h', q')"
  shows "st = TI_OK" and "que_ring h' q' (ns @ [hItem + uNodeHeaderOffset q])"
    and "que_same_params q q'" and "uCount q' = uCount q + 1"
    and "que_frame h h' (insert (hItem + uNodeHeaderOffset q) (set (tHead q # ns)))"
proof -
  let ?n = "hItem + uNodeHeaderOffset q"
  have new: "?n \<notin> set (tHead q # ns)"
    using que_ring_fresh [OF ring] lk by (auto simp: que_linkable_def)
  have h': "h' = AddToHead h ?n (tHead q)"
    and st: "st = TI_OK" and par: "que_same_params q q'" and cnt: "uCount q' = uCount q + 1"
    using res lk
    by (auto simp: que_Enqueue_def que_linkable_def que_same_params_def Let_def split: if_splits)
  have "unat (uCount q + 1) = Suc (unat (uCount q))"
    using lk word_less_inc_unat [of "uCount q" "uLimit q"] by (simp add: que_linkable_def)
  then show "que_ring h' q' (ns @ [?n])"
    using ring new lk par cnt AddToHead_ring [OF ring new]
    by (auto simp: que_ring_def h' que_same_params_def que_linkable_def)
  show "que_frame h h' (insert ?n (set (tHead q # ns)))"
    using que_ring_first(2) [OF ring]
    by (auto simp: que_frame_def h' AddToHead_def InsertNode_fields split: if_splits)
qed (use res lk in \<open>auto simp: que_Enqueue_def que_linkable_def que_same_params_def Let_def split: if_splits\<close>)

lemma que_Requeue_ring:
  assumes ring: "que_ring h q ns" and lk: "que_linkable h q hItem"
    and res: "que_Requeue d h q hItem = (st, h', q')"
  shows "st = TI_OK" and "que_ring h' q' ((hItem + uNodeHeaderOffset q) # ns)"
    and "que_same_params q q'" and "uCount q' = uCount q + 1"
    and "que_frame h h' (insert (hItem + uNodeHeaderOffset q) (set (tHead q # ns)))"
proof -
  let ?n = "hItem + uNodeHeaderOffset q"
  have new: "?n \<notin> set (tHead q # ns)"
    using que_ring_fresh [OF ring] lk by (auto simp: que_linkable_def)
  have h': "h' = AddToTail h ?n (tHead q)"
    and st: "st = TI_OK" and par: "que_same_params q q'" and cnt: "uCount q' = uCount q + 1"
    using res lk
    by (auto simp: que_Requeue_def que_linkable_def que_same_params_def Let_def split: if_splits)
  have "unat (uCount q + 1) = Suc (unat (uCount q))"
    using lk word_less_inc_unat [of "uCount q" "uLimit q"] by (simp add: que_linkable_def)
  then show "que_ring h' q' (?n # ns)"
    using ring new lk par cnt AddToTail_ring [OF ring new]
    by (auto simp: que_ring_def h' que_same_params_def que_linkable_def)
  have "pPrev h (tHead q) \<in> set (tHead q # ns)"
    using que_ring_first(1) [OF ring] by (cases ns) auto
  then show "que_frame h h' (insert ?n (set (tHead q # ns)))"
    by (auto simp: que_frame_def h' AddToTail_def InsertNode_fields split: if_splits)
qed (use res lk in \<open>auto simp: que_Requeue_def que_linkable_def que_same_params_def Let_def split: if_splits\<close>)

lemma que_Dequeue_ring:
  assumes ring: "que_ring h q (n # ns)"
    and res: "que_Dequeue d h q = (hItem, h', q')"
  shows "hItem = n - uNodeHeaderOffset q" and "hItem \<noteq> NULL" and "que_ring h' q' ns"
    and "que_same_params q q'" and "uCount q' = uCount q - 1"
    and "que_frame h h' (set (tHead q # n # ns))"
    and "d \<Longrightarrow> pNext h' n = NULL"
    and "\<not> d \<Longrightarrow> pNext h' n = tHead q"
proof -
  have first: "pPrev h (tHead q) = n" using que_ring_first(1) [OF ring] by simp
  have links: "pNext h n = tHead q" "pPrev h n \<in> set (tHead q # ns)"
    using ring by (cases ns; simp add: que_ring_def)+
  have dist: "n \<noteq> tHead q" "n \<notin> set ns" "tHead q \<notin> set ns" "uNodeHeaderOffset q \<noteq> n"
    using ring by (auto simp: que_ring_def)
  have cnt0: "uCount q \<noteq> 0" using ring by (auto simp: que_ring_def)
  have h': "h' = (if d then (DelFromTail h n)\<lparr>pNext := (pNext (DelFromTail h n))(n := NULL)\<rparr>
                  else DelFromTail h n)"
    and it: "hItem = n - uNodeHeaderOffset q" and q': "q' = q\<lparr>uCount := uCount q - 1\<rparr>"
    using res cnt0 by (auto simp: que_Dequeue_def first Let_def)
  show "hItem = n - uNodeHeaderOffset q" by (rule it)
  show "hItem \<noteq> NULL" using dist by (simp add: it)
  show "que_same_params q q'" and "uCount q' = uCount q - 1"
    by (simp_all add: q' que_same_params_def)
  have "unat (uCount q) = Suc (length ns)"
    using ring by (simp add: que_ring_def)
  then have "unat (uCount q - 1) = length ns"
    using cnt0 by (simp add: unat_minus_one)
  moreover have "linked h' (tHead q # ns @ [tHead q])"
    using DelFromTail_ring [OF ring] dist
    by (subst linked_cong [of _ _ "DelFromTail h n"]) (auto simp: h')
  ultimately show "que_ring h' q' ns"
    using ring by (simp add: que_ring_def q')
  show "que_frame h h' (set (tHead q # n # ns))"
    using links by (auto simp: que_frame_def h' DelFromTail_def RemoveNode_fields)
  show "d \<Longrightarrow> pNext h' n = NULL" by (simp add: h')
  show "\<not> d \<Longrightarrow> pNext h' n = tHead q"
    using links dist by (auto simp: h' DelFromTail_def RemoveNode_fields)
qed

lemma que_Dequeue_empty:
  "que_ring h q [] \<Longrightarrow> que_Dequeue d h q = (NULL, h, q)"
  by (simp add: que_ring_def que_Dequeue_def unat_eq_0)

section \<open>The interface: a bounded first-in first-out queue\<close>

text \<open>
  What the clients of the queue rely on.  \<open>items\<close> lists what is queued, next to leave first;
  \<open>ready\<close> says that an item can be linked now, \<open>refused\<close> that it cannot (the queue is
  full, or the item is linked already).
\<close>

locale fifo =
  fixes inv :: "'s \<Rightarrow> bool"
    and items :: "'s \<Rightarrow> 'i list"
    and ready :: "'s \<Rightarrow> 'i \<Rightarrow> bool"
    and refused :: "'s \<Rightarrow> 'i \<Rightarrow> bool"
    and enq :: "'s \<Rightarrow> 'i \<Rightarrow> TI_STATUS \<times> 's"
    and deq :: "'s \<Rightarrow> 'i option \<times> 's"
  assumes enq_ready: "inv s \<Longrightarrow> ready s x \<Longrightarrow>
      fst (enq s x) = TI_OK \<and> inv (snd (enq s x)) \<and> items (snd (enq s x)) = items s @ [x]"
    and enq_refused: "inv s \<Longrightarrow> refused s x \<Longrightarrow>
      fst (enq s x) = TI_NOK \<and> inv (snd (enq s x)) \<and> items (snd (enq s x)) = items s"
    and deq_empty: "inv s \<Longrightarrow> items s = [] \<Longrightarrow> deq s = (None, s)"
    and deq_first: "inv s \<Longrightarrow> items s = x # xs \<Longrightarrow>
      fst (deq s) = Some x \<and> inv (snd (deq s)) \<and> items (snd (deq s)) = xs"

text \<open>\<open>deq_n deq n s\<close> dequeues \<open>n\<close> times and lists what came out.\<close>

primrec deq_n :: "('s \<Rightarrow> 'i option \<times> 's) \<Rightarrow> nat \<Rightarrow> 's \<Rightarrow> 'i option list \<times> 's" where
  "deq_n deq 0 s = ([], s)"
| "deq_n deq (Suc n) s =
     (case deq s of (x, s') \<Rightarrow> (case deq_n deq n s' of (xs, s'') \<Rightarrow> (x # xs, s'')))"

context fifo
begin

lemma deq_n_prefix:
  assumes "inv s" and "items s = xs @ ys"
  shows "\<exists>s'. deq_n deq (length xs) s = (map Some xs, s') \<and> inv s' \<and> items s' = ys"
  using assms
proof (induction xs arbitrary: s)
  case Nil
  then show ?case by simp
next
  case (Cons x xs)
  then have "fst (deq s) = Some x" "inv (snd (deq s))" "items (snd (deq s)) = xs @ ys"
    using deq_first [of s x "xs @ ys"] by auto
  with Cons.IH [of "snd (deq s)"] show ?case
    by (cases "deq s") auto
qed

lemma enq_deq_order:
  assumes "inv s" and "ready s x"
  shows "\<exists>s'. deq_n deq (Suc (length (items s))) (snd (enq s x)) = (map Some (items s @ [x]), s') \<and>
    items s' = []"
  using deq_n_prefix [of "snd (enq s x)" "items s @ [x]" "[]"] enq_ready [OF assms] by auto

end

text \<open>
  A queue whose items can be linked again once they have left it, and that can put an item back
  at the front.
\<close>

locale requeue_fifo = fifo +
  fixes requeue :: "'a \<Rightarrow> 'b \<Rightarrow> TI_STATUS \<times> 'a"
  assumes deq_frees: "inv s \<Longrightarrow> items s = x # xs \<Longrightarrow> ready (snd (deq s)) x"
    and requeue_ready: "inv s \<Longrightarrow> ready s x \<Longrightarrow>
      fst (requeue s x) = TI_OK \<and> inv (snd (requeue s x)) \<and> items (snd (requeue s x)) = x # items s"
begin

lemma deq_requeue_restores:
  assumes "inv s" and "items s = x # xs"
  shows "fst (requeue (snd (deq s)) x) = TI_OK" and "items (snd (requeue (snd (deq s)) x)) = items s"
    and "inv (snd (requeue (snd (deq s)) x))"
  using requeue_ready [of "snd (deq s)" x] deq_frees [OF assms] deq_first [OF assms] assms(2)
  by auto

end

section \<open>The pointer queue implements the interface\<close>

abbreviation que_inv :: "qheap \<times> TQueue \<Rightarrow> bool" where
  "que_inv s \<equiv> que_wf (fst s) (snd s)"

abbreviation que_list :: "qheap \<times> TQueue \<Rightarrow> ptr list" where
  "que_list s \<equiv> que_items (fst s) (snd s)"

definition que_refused :: "qheap \<Rightarrow> TQueue \<Rightarrow> ptr \<Rightarrow> bool" where
  "que_refused h q hItem \<longleftrightarrow> uLimit q \<le> uCount q \<or> pNext h (hItem + uNodeHeaderOffset q) \<noteq> NULL"

text \<open>The C function returns a null handle where the interface has \<open>None\<close>.\<close>

definition que_deq :: "bool \<Rightarrow> qheap \<times> TQueue \<Rightarrow> ptr option \<times> qheap \<times> TQueue" where
  "que_deq d s = (case que_Dequeue d (fst s) (snd s) of
     (hItem, s') \<Rightarrow> (if hItem = NULL then None else Some hItem, s'))"

lemma que_wfE:
  assumes "que_wf h q"
  obtains ns where "que_ring h q ns" "que_nodes h q = ns" "uCount q \<le> uLimit q"
    "que_items h q = map (\<lambda>n. n - uNodeHeaderOffset q) ns"
  using assms by (auto simp: que_wf_def que_items_def)

lemma que_wfI:
  "que_ring h q ns \<Longrightarrow> uCount q \<le> uLimit q \<Longrightarrow>
     que_wf h q \<and> que_items h q = map (\<lambda>n. n - uNodeHeaderOffset q) ns"
  by (auto simp: que_wf_iff_ring que_items_def que_ring_nodes)

lemma que_Enqueue_spec:
  assumes wf: "que_wf h q" and lk: "que_linkable h q x"
    and res: "que_Enqueue d h q x = (st, h', q')"
  shows "st = TI_OK \<and> que_wf h' q' \<and> que_items h' q' = que_items h q @ [x]"
proof -
  obtain ns where ns: "que_ring h q ns" "que_items h q = map (\<lambda>n. n - uNodeHeaderOffset q) ns"
    using wf by (auto elim: que_wfE)
  note r = que_Enqueue_ring [OF ns(1) lk res]
  have "uCount q' \<le> uLimit q'"
    using r(3,4) lk by (simp add: que_same_params_def que_linkable_def inc_le)
  with que_wfI [OF r(2)] r(1,3) ns(2) show ?thesis
    by (simp add: que_same_params_def)
qed

lemma que_Requeue_spec:
  assumes wf: "que_wf h q" and lk: "que_linkable h q x"
    and res: "que_Requeue d h q x = (st, h', q')"
  shows "st = TI_OK \<and> que_wf h' q' \<and> que_items h' q' = x # que_items h q"
proof -
  obtain ns where ns: "que_ring h q ns" "que_items h q = map (\<lambda>n. n - uNodeHeaderOffset q) ns"
    using wf by (auto elim: que_wfE)
  note r = que_Requeue_ring [OF ns(1) lk res]
  have "uCount q' \<le> uLimit q'"
    using r(3,4) lk by (simp add: que_same_params_def que_linkable_def inc_le)
  with que_wfI [OF r(2)] r(1,3) ns(2) show ?thesis
    by (simp add: que_same_params_def)
qed

lemma que_Enqueue_refused_spec:
  assumes wf: "que_wf h q" and rf: "que_refused h q x"
    and res: "que_Enqueue d h q x = (st, h', q')"
  shows "st = TI_NOK \<and> que_wf h' q' \<and> h' = h \<and> que_items h' q' = que_items h q"
  using assms
  by (auto simp: que_Enqueue_def que_refused_def que_wf_def que_items_def que_nodes_def
      que_ring_def Let_def not_le split: if_splits)

lemma que_Dequeue_spec:
  assumes wf: "que_wf h q" and its: "que_items h q = x # xs"
    and res: "que_Dequeue d h q = (y, h', q')"
  shows "y = x \<and> x \<noteq> NULL \<and> que_wf h' q' \<and> que_items h' q' = xs"
    and "d \<Longrightarrow> que_linkable h' q' x"
    and "\<not> d \<Longrightarrow> que_refused h' q' x"
proof -
  obtain n ns where ns: "que_ring h q (n # ns)" "x = n - uNodeHeaderOffset q"
      "xs = map (\<lambda>n. n - uNodeHeaderOffset q) ns" and le: "uCount q \<le> uLimit q"
    using wf its by (auto elim!: que_wfE)
  note r = que_Dequeue_ring [OF ns(1) res]
  have c0: "uCount q \<noteq> 0" using ns(1) by (auto simp: que_ring_def)
  then have lt: "uCount q' < uLimit q'"
    using r(4,5) le measure_unat [OF c0]
    by (simp add: que_same_params_def word_less_nat_alt word_le_nat_alt)
  then show "y = x \<and> x \<noteq> NULL \<and> que_wf h' q' \<and> que_items h' q' = xs"
    using que_wfI [OF r(3)] r(1,2,4) ns(2,3) by (simp add: que_same_params_def)
  have "n \<noteq> NULL" "tHead q \<noteq> NULL" using ns(1) by (auto simp: que_ring_def)
  then show "d \<Longrightarrow> que_linkable h' q' x" and "\<not> d \<Longrightarrow> que_refused h' q' x"
    using r lt ns(2) by (auto simp: que_linkable_def que_refused_def que_same_params_def)
qed

lemma que_Dequeue_empty_spec:
  "que_wf h q \<Longrightarrow> que_items h q = [] \<Longrightarrow> que_Dequeue d h q = (NULL, h, q)"
  by (auto elim!: que_wfE intro: que_Dequeue_empty)

interpretation lq: fifo que_inv que_list "\<lambda>s. que_linkable (fst s) (snd s)"
    "\<lambda>s. que_refused (fst s) (snd s)" "\<lambda>s. que_Enqueue d (fst s) (snd s)" "que_deq d"
  for d
proof (unfold_locales, goal_cases)
  case (1 s x)
  then show ?case by (cases "que_Enqueue d (fst s) (snd s) x") (simp add: que_Enqueue_spec)
next
  case (2 s x)
  then show ?case by (cases "que_Enqueue d (fst s) (snd s) x") (simp add: que_Enqueue_refused_spec)
next
  case (3 s)
  then show ?case by (simp add: que_deq_def que_Dequeue_empty_spec)
next
  case (4 s x xs)
  then show ?case
    using que_Dequeue_spec(1) [of "fst s" "snd s" x xs d]
    by (cases "que_Dequeue d (fst s) (snd s)") (auto simp: que_deq_def)
qed

interpretation dbgq: requeue_fifo que_inv que_list "\<lambda>s. que_linkable (fst s) (snd s)"
    "\<lambda>s. que_refused (fst s) (snd s)" "\<lambda>s. que_Enqueue True (fst s) (snd s)" "que_deq True"
    "\<lambda>s. que_Requeue True (fst s) (snd s)"
proof (unfold_locales, goal_cases)
  case (1 s x xs)
  then show ?case
    using que_Dequeue_spec(2) [of "fst s" "snd s" x xs True]
    by (cases "que_Dequeue True (fst s) (snd s)") (auto simp: que_deq_def)
next
  case (2 s x)
  then show ?case by (cases "que_Requeue True (fst s) (snd s) x") (simp add: que_Requeue_spec)
qed

lemma que_wf_count: "que_wf h q \<Longrightarrow> length (que_items h q) = unat (uCount q)"
  by (auto elim!: que_wfE simp: que_ring_def)

lemma que_Dequeue_params:
  "que_Dequeue d h q = (y, h', q') \<Longrightarrow>
     uLimit q' = uLimit q \<and> uNodeHeaderOffset q' = uNodeHeaderOffset q"
  by (auto simp: que_Dequeue_def Let_def split: if_splits)

section \<open>Two queues on one heap\<close>

text \<open>Queues whose heads and nodes do not meet: an operation on one leaves the other alone.\<close>

definition que_cells :: "qheap \<Rightarrow> TQueue \<Rightarrow> ptr set" where
  "que_cells h q = set (tHead q # que_nodes h q)"

definition que_apart :: "qheap \<Rightarrow> TQueue \<Rightarrow> TQueue \<Rightarrow> bool" where
  "que_apart h q r \<longleftrightarrow> que_cells h q \<inter> que_cells h r = {}"

lemma que_apart_sym: "que_apart h q r = que_apart h r q"
  by (auto simp: que_apart_def)

lemma que_wf_frame:
  assumes "que_wf h r" and "que_frame h h' A" and "A \<inter> que_cells h r = {}"
  shows "que_wf h' r \<and> que_items h' r = que_items h r \<and> que_cells h' r = que_cells h r"
proof -
  have ring: "que_ring h r (que_nodes h r)" "uCount r \<le> uLimit r" using assms(1) by (simp_all add: que_wf_def)
  have "que_ring h' r (que_nodes h r)"
    using assms(2,3) by (intro que_ring_cong [OF ring(1)]) (auto simp: que_frame_def que_cells_def)
  then show ?thesis
    using ring(2) by (auto simp: que_wf_iff_ring que_items_def que_cells_def dest: que_ring_nodes)
qed

lemma que_pair_Enqueue:
  assumes wf: "que_wf h q" and ap: "que_apart h q r" and wr: "que_wf h r"
    and valid: "x \<noteq> NULL" "x + uNodeHeaderOffset q \<noteq> NULL"
    and res: "que_Enqueue d h q x = (st, h', q')"
  shows "que_wf h' q' \<and> que_wf h' r \<and> que_apart h' q' r \<and> que_same_params q q' \<and>
    que_items h' r = que_items h r \<and>
    que_items h' q' = (if que_refused h q x then que_items h q else que_items h q @ [x])"
proof (cases "que_refused h q x")
  case True
  then have "h' = h" "tHead q' = tHead q" "uCount q' = uCount q" "que_same_params q q'"
    using res by (auto simp: que_refused_def que_Enqueue_def que_same_params_def Let_def not_le split: if_splits)
  then show ?thesis
    using que_Enqueue_refused_spec [OF wf True res] ap wr True
    by (auto simp: que_apart_def que_cells_def que_nodes_def)
next
  case False
  then have lk: "que_linkable h q x"
    using valid by (auto simp: que_refused_def que_linkable_def not_le)
  let ?n = "x + uNodeHeaderOffset q"
  have ring: "que_ring h q (que_nodes h q)" using wf by (simp add: que_wf_def)
  note e = que_Enqueue_ring [OF ring lk res]
  have "?n \<notin> que_cells h r"
    using wr lk que_ring_fresh [of h r "que_nodes h r" ?n]
    by (auto simp: que_wf_def que_linkable_def que_cells_def)
  then have dis: "insert ?n (set (tHead q # que_nodes h q)) \<inter> que_cells h r = {}"
    using ap by (auto simp: que_apart_def que_cells_def)
  have "que_cells h' q' = insert ?n (que_cells h q)"
    using que_ring_nodes [OF e(2)] e(3) by (auto simp: que_cells_def que_same_params_def)
  then show ?thesis
    using que_wf_frame [OF wr e(5) dis] que_Enqueue_spec [OF wf lk res] e(3) dis False
    by (auto simp: que_apart_def que_cells_def)
qed

lemma que_pair_Dequeue:
  assumes wf: "que_wf h q" and ap: "que_apart h q r" and wr: "que_wf h r"
    and res: "que_Dequeue d h q = (y, h', q')"
  shows "que_wf h' q' \<and> que_wf h' r \<and> que_apart h' q' r \<and> que_same_params q q' \<and>
    que_items h' r = que_items h r \<and>
    (case que_items h q of [] \<Rightarrow> y = NULL \<and> que_items h' q' = []
     | i # js \<Rightarrow> y = i \<and> y \<noteq> NULL \<and> que_items h' q' = js)"
proof (cases "que_items h q")
  case Nil
  then show ?thesis
    using que_Dequeue_empty_spec [OF wf Nil, of d] res ap wr wf by (simp add: que_same_params_def)
next
  case (Cons i js)
  obtain n ns where ns: "que_nodes h q = n # ns"
    using Cons by (cases "que_nodes h q") (auto simp: que_items_def)
  have ring: "que_ring h q (n # ns)" using wf ns by (simp add: que_wf_def)
  note e = que_Dequeue_ring [OF ring res]
  have dis: "set (tHead q # n # ns) \<inter> que_cells h r = {}"
    using ap ns by (auto simp: que_apart_def que_cells_def)
  have "que_cells h' q' \<subseteq> que_cells h q"
    using que_ring_nodes [OF e(3)] e(4) ns by (auto simp: que_cells_def que_same_params_def)
  then have "que_apart h' q' r"
    using que_wf_frame [OF wr e(6) dis] ap by (auto simp: que_apart_def)
  then show ?thesis
    using que_wf_frame [OF wr e(6) dis] que_Dequeue_spec(1) [OF wf Cons res] e(4) Cons by simp
qed

lemma que_pair_Clear:
  "que_wf h q \<Longrightarrow> que_apart h q r \<Longrightarrow> que_wf h r \<Longrightarrow> que_Clear d h q = (h', q') \<Longrightarrow>
     que_wf h' q' \<and> que_wf h' r \<and> que_apart h' q' r \<and> que_same_params q q' \<and>
     que_items h' r = que_items h r \<and> que_items h' q' = []"
proof (induction d h q arbitrary: h' q' rule: que_Clear.induct)
  case (1 d h q)
  obtain y h1 q1 where deq: "que_Dequeue d h q = (y, h1, q1)" by (cases "que_Dequeue d h q")
  note p = que_pair_Dequeue [OF 1(2-4) deq]
  show ?case
  proof (cases "y = NULL")
    case True
    then have "h' = h1" "q' = q1" using 1(5) deq by (subst (asm) que_Clear.simps; simp)+
    then show ?thesis using p True by (auto split: list.splits)
  next
    case False
    then have "que_Clear d h1 q1 = (h', q')" using 1(5) deq by (subst (asm) que_Clear.simps) simp
    then show ?thesis
      using 1(1) [OF deq [symmetric] refl False] p by (simp add: que_same_params_def)
  qed
qed

section \<open>Properties\<close>

text \<open>
  A concrete queue for the witnesses: created at address 4096 with room for three items whose
  node header is at offset 8, then loaded with the items 8192 and 12288.
\<close>

definition que_ex0 :: "qheap \<times> TQueue" where
  "que_ex0 = the (que_Create 4096 \<lparr>pNext = (\<lambda>_. 0), pPrev = (\<lambda>_. 0)\<rparr> 16 32 3 8)"

definition que_ex2 :: "qheap \<times> TQueue" where
  "que_ex2 = (let s1 = snd (que_Enqueue True (fst que_ex0) (snd que_ex0) 8192)
              in snd (que_Enqueue True (fst s1) (snd s1) 12288))"

lemma que_ex2_facts:
  "que_wf (fst que_ex2) (snd que_ex2)" "que_items (fst que_ex2) (snd que_ex2) = [8192, 12288]"
  "que_linkable (fst que_ex2) (snd que_ex2) 20480"
  by code_simp+

lemma que_triples:
  "que_Enqueue d h q x = (fst (que_Enqueue d h q x), fst (snd (que_Enqueue d h q x)),
     snd (snd (que_Enqueue d h q x)))"
  "que_Dequeue d h q = (fst (que_Dequeue d h q), fst (snd (que_Dequeue d h q)),
     snd (snd (que_Dequeue d h q)))"
  "que_Requeue d h q x = (fst (que_Requeue d h q x), fst (snd (que_Requeue d h q x)),
     snd (snd (que_Requeue d h q x)))"
  by simp_all



text \<open>
  First in, first out.  After an item has been enqueued, as many dequeues as there are items
  return the earlier items in their order, then the new one, and leave the queue empty.
\<close>

lemma que_fifo_order:
  assumes "que_wf h q" and "que_linkable h q x"
  shows "\<exists>s'. deq_n (que_deq d) (Suc (length (que_items h q))) (snd (que_Enqueue d h q x)) =
           (map Some (que_items h q @ [x]), s') \<and> que_list s' = []"
  using lq.enq_deq_order [of "(h, q)" x d] assms by simp

text \<open>
  In a \<^verbatim>\<open>TI_DBG\<close> build an item that was dequeued can be put back, and \<open>que_Requeue\<close> undoes
  \<open>que_Dequeue\<close>: the queue is well formed and holds exactly the items it held before.
\<close>

lemma que_requeue_undoes_dequeue:
  assumes "que_wf h q" and "que_items h q \<noteq> []"
    and "que_Dequeue True h q = (x, h1, q1)" and "que_Requeue True h1 q1 x = (st, h2, q2)"
  shows "st = TI_OK \<and> que_wf h2 q2 \<and> que_items h2 q2 = que_items h q"
proof -
  obtain y ys where its: "que_items h q = y # ys" using assms(2) by (cases "que_items h q") auto
  have "x = y" using que_Dequeue_spec(1) [OF assms(1) its assms(3)] by simp
  moreover have "que_deq True (h, q) = (Some y, h1, q1)"
    using que_Dequeue_spec(1) [OF assms(1) its assms(3)] assms(3) by (simp add: que_deq_def)
  ultimately show ?thesis
    using dbgq.deq_requeue_restores [of "(h, q)" y ys] its assms(1,4) by simp
qed

text \<open>
  The drain loop of the timer module ends on every heap, and on a well-formed queue it leaves
  a well-formed empty one with the parameters it had.
\<close>

lemma que_Clear_empties:
  "que_wf h q \<Longrightarrow> que_Clear d h q = (h', q') \<Longrightarrow>
     que_wf h' q' \<and> que_items h' q' = [] \<and> uCount q' = 0 \<and> uLimit q' = uLimit q \<and>
     uNodeHeaderOffset q' = uNodeHeaderOffset q"
proof (induction d h q arbitrary: h' q' rule: que_Clear.induct)
  case (1 d h q)
  obtain y h1 q1 where deq: "que_Dequeue d h q = (y, h1, q1)" by (cases "que_Dequeue d h q")
  show ?case
  proof (cases "que_items h q")
    case Nil
    then have "que_Clear d h q = (h, q)"
      using que_Dequeue_empty_spec [OF 1(2) Nil, of d] by (subst que_Clear.simps) simp
    then show ?thesis using 1(2,3) Nil que_wf_count [OF 1(2)]
      by (simp add: unat_eq_0)
  next
    case (Cons i js)
    note y = que_Dequeue_spec(1) [OF 1(2) Cons deq]
    then have "que_Clear d h1 q1 = (h', q')" using 1(3) deq by (subst (asm) que_Clear.simps) simp
    with 1(1) [OF deq [symmetric] refl _] y show ?thesis
      using que_Dequeue_params [OF deq] by simp
  qed
qed

text \<open>
  C23: without \<^verbatim>\<open>TI_DBG\<close> an item that has been through the queue once can not be queued again:
  \<open>que_Dequeue\<close> clears \<open>pNext\<close> of the removed node only in a debug build, while \<open>que_Enqueue\<close>
  and \<open>que_Requeue\<close> refuse an item with a non-null \<open>pNext\<close> in every build.
\<close>

theorem que_release_build_refuses_dequeued_item:
  assumes "que_wf h q" and "que_items h q \<noteq> []" and "que_Dequeue False h q = (x, h', q')"
  shows "fst (que_Enqueue False h' q' x) = TI_NOK \<and> fst (que_Requeue False h' q' x) = TI_NOK"
proof -
  obtain y ys where its: "que_items h q = y # ys" using assms(2) by (cases "que_items h q") auto
  have "que_refused h' q' x"
    using que_Dequeue_spec(1,3) [OF assms(1) its assms(3)] by simp
  then show ?thesis by (auto simp: que_refused_def que_Enqueue_def que_Requeue_def Let_def)
qed

theorem que_release_build_refuses_dequeued_item_witness:
  "let d = que_Dequeue False (fst que_ex2) (snd que_ex2)
   in fst (que_Enqueue False (fst (snd d)) (snd (snd d)) (fst d)) = TI_NOK"
  using que_release_build_refuses_dequeued_item [OF que_ex2_facts(1) _ que_triples(2)]
  by (simp only: Let_def que_ex2_facts(2) list.simps simp_thms)

end
