(* ===== verification/Timer.thy ===== *)
theory Timer
  imports Queue
begin

text \<open>
  The timer module (\<^verbatim>\<open>utils/timer.c\<close>): timers that expire in interrupt context are queued, and
  their callbacks run later in driver context.  There are two expiry queues, for timers started
  before and after the driver became operational; they share the node headers inside the timer
  structures, so both live on one heap of links.

  The module state has the timer structures as a map from their address.  A null or freed timer
  handle makes an operation return \<open>None\<close>.  Calls into the operating system are recorded.  The
  expiry callbacks belong to the clients: they are a parameter.  The critical sections make
  each queue access one step.
\<close>

section \<open>The source\<close>

record TTimerInfo =
  hOsTimerObj :: ptr
  fExpiryCbFunc :: ptr
  hExpiryCbHndl :: ptr
  uIntervalMsec :: u32
  bPeriodic :: bool
  bOperStateWhenStarted :: bool
  uTwdInitCountWhenStarted :: u32

datatype os_call =
    os_timerStart ptr u32
  | os_timerStop ptr
  | os_timerDestroy ptr
  | context_RequestSchedule

record TTimerModule =
  links :: qheap
  hInitQueue :: TQueue
  hOperQueue :: TQueue
  bOperState :: bool
  uTwdInitCount :: u32
  uTimersCount :: u32
  timers :: "ptr \<rightharpoonup> TTimerInfo"
  os_calls :: "os_call list"

text \<open>The offset of \<open>tQueNodeHdr\<close> in \<open>TTimerInfo\<close>.\<close>

abbreviation (input) uTimerNodeOffset :: "u32" where "uTimerNodeOffset \<equiv> 8"
abbreviation (input) EXPIRY_QUE_SIZE :: "u32" where "EXPIRY_QUE_SIZE \<equiv> QUE_UNLIMITED_SIZE"

definition os_do :: "os_call \<Rightarrow> TTimerModule \<Rightarrow> TTimerModule" where
  "os_do c s = s\<lparr>os_calls := os_calls s @ [c]\<rparr>"

text \<open>
  \<open>pInit\<close> and \<open>pOper\<close> are the addresses the allocator gives to the two queues.  The source does
  not check them: a null queue handle is used by the first expiry, here it is \<open>None\<close>.
\<close>

definition tmr_Init :: "qheap \<Rightarrow> ptr \<Rightarrow> ptr \<Rightarrow> ptr \<Rightarrow> ptr \<Rightarrow> TTimerModule option" where
  "tmr_Init h pInit pOper os report =
     (case que_Create pInit h os report EXPIRY_QUE_SIZE uTimerNodeOffset of
        None \<Rightarrow> None
      | Some (h1, qi) \<Rightarrow>
         (case que_Create pOper h1 os report EXPIRY_QUE_SIZE uTimerNodeOffset of
            None \<Rightarrow> None
          | Some (h2, qo) \<Rightarrow> Some \<lparr>links = h2, hInitQueue = qi, hOperQueue = qo, bOperState = False,
              uTwdInitCount = 0, uTimersCount = 0, timers = Map.empty, os_calls = []\<rparr>))"




text \<open>\<open>pMem\<close> and \<open>pOs\<close> are what the allocator and \<^verbatim>\<open>os_timerCreate\<close> return; a new timer is zeroed memory.\<close>

definition tmr_CreateTimer :: "TTimerModule \<Rightarrow> ptr \<Rightarrow> ptr \<Rightarrow> ptr \<times> TTimerModule" where
  "tmr_CreateTimer s pMem pOs =
     (if pMem = NULL then (NULL, s)
      else (let n = pMem + uTimerNodeOffset;
                s1 = s\<lparr>links := (links s)\<lparr>pNext := (pNext (links s))(n := NULL), pPrev := (pPrev (links s))(n := NULL)\<rparr>\<rparr>
            in if pOs = NULL then (NULL, s1)
               else (pMem, s1\<lparr>timers := (timers s1)(pMem \<mapsto>
                       \<lparr>hOsTimerObj = pOs, fExpiryCbFunc = NULL, hExpiryCbHndl = NULL, uIntervalMsec = 0,
                        bPeriodic = False, bOperStateWhenStarted = False, uTwdInitCountWhenStarted = 0\<rparr>),
                      uTimersCount := uTimersCount s1 + 1\<rparr>)))"

definition tmr_DestroyTimer :: "TTimerModule \<Rightarrow> ptr \<Rightarrow> TTimerModule option" where
  "tmr_DestroyTimer s hTimerInfo =
     (case timers s hTimerInfo of
        None \<Rightarrow> None
      | Some t \<Rightarrow> Some (os_do (os_timerDestroy (hOsTimerObj t))
          (s\<lparr>timers := (timers s)(hTimerInfo := None), uTimersCount := uTimersCount s - 1\<rparr>)))"

definition tmr_StartTimer ::
  "TTimerModule \<Rightarrow> ptr \<Rightarrow> ptr \<Rightarrow> ptr \<Rightarrow> u32 \<Rightarrow> bool \<Rightarrow> TTimerModule option" where
  "tmr_StartTimer s hTimerInfo fCb hCb uInterval periodic =
     (case timers s hTimerInfo of
        None \<Rightarrow> None
      | Some t \<Rightarrow> Some (os_do (os_timerStart (hOsTimerObj t) uInterval)
          (s\<lparr>timers := (timers s)(hTimerInfo \<mapsto> t\<lparr>fExpiryCbFunc := fCb, hExpiryCbHndl := hCb,
               uIntervalMsec := uInterval, bPeriodic := periodic, bOperStateWhenStarted := bOperState s,
               uTwdInitCountWhenStarted := uTwdInitCount s\<rparr>)\<rparr>)))"


definition tmr_GetExpiry :: "bool \<Rightarrow> TTimerModule \<Rightarrow> ptr \<Rightarrow> TTimerModule option" where
  "tmr_GetExpiry TI_DBG s hTimerInfo =
     (case timers s hTimerInfo of
        None \<Rightarrow> None
      | Some t \<Rightarrow>
         Some (os_do context_RequestSchedule
           (if bOperStateWhenStarted t
            then (case que_Enqueue TI_DBG (links s) (hOperQueue s) hTimerInfo of
                    (st, h, q) \<Rightarrow> s\<lparr>links := h, hOperQueue := q\<rparr>)
            else if \<not> bOperState s
            then (case que_Enqueue TI_DBG (links s) (hInitQueue s) hTimerInfo of
                    (st, h, q) \<Rightarrow> s\<lparr>links := h, hInitQueue := q\<rparr>)
            else s)))"

text \<open>Taking the next expired timer from the queue of the current driver state.\<close>

definition next_expired :: "bool \<Rightarrow> TTimerModule \<Rightarrow> ptr \<times> TTimerModule" where
  "next_expired TI_DBG s =
     (if bOperState s
      then (case que_Dequeue TI_DBG (links s) (hOperQueue s) of
              (p, h, q) \<Rightarrow> (p, s\<lparr>links := h, hOperQueue := q\<rparr>))
      else (case que_Dequeue TI_DBG (links s) (hInitQueue s) of
              (p, h, q) \<Rightarrow> (p, s\<lparr>links := h, hInitQueue := q\<rparr>)))"

text \<open>
  What one round does with an expired timer: its callback (\<open>cb\<close>, with the function, its handle and
  whether the device was initialised again since the start), then the restart if it is periodic
  after the callback.
\<close>

type_synonym expiry_cb = "ptr \<Rightarrow> ptr \<Rightarrow> bool \<Rightarrow> TTimerModule \<Rightarrow> TTimerModule"

definition serve_timer :: "expiry_cb \<Rightarrow> TTimerModule \<Rightarrow> ptr \<Rightarrow> (bool \<times> TTimerModule) option" where
  "serve_timer cb s p =
     (case timers s p of
        None \<Rightarrow> None
      | Some t \<Rightarrow>
         (let bTwdInitOccured = (uTwdInitCount s \<noteq> uTwdInitCountWhenStarted t);
              s1 = cb (fExpiryCbFunc t) (hExpiryCbHndl t) bTwdInitOccured s
          in case timers s1 p of
               None \<Rightarrow> None
             | Some t1 \<Rightarrow>
                map_option (Pair bTwdInitOccured)
                  (if bPeriodic t1
                   then tmr_StartTimer s1 p (fExpiryCbFunc t1) (hExpiryCbHndl t1) (uIntervalMsec t1)
                          (bPeriodic t1)
                   else Some s1)))"

text \<open>
  The loop ends when the queue is empty; a callback could refill it for ever, so the loop is a
  partial function.  The result lists the timers served and the flag each callback was given.
\<close>

partial_function (option) tmr_HandleExpiry ::
  "bool \<Rightarrow> expiry_cb \<Rightarrow> TTimerModule \<Rightarrow> ((ptr \<times> bool) list \<times> TTimerModule) option" where
  "tmr_HandleExpiry TI_DBG cb s =
     (case next_expired TI_DBG s of (p, s1) \<Rightarrow>
        if p = NULL then Some ([], s1)
        else (case serve_timer cb s1 p of
                None \<Rightarrow> None
              | Some (b, s2) \<Rightarrow>
                 Option.bind (tmr_HandleExpiry TI_DBG cb s2)
                   (\<lambda>(served, s3). Some ((p, b) # served, s3))))"

section \<open>The invariant\<close>

text \<open>
  Both queues are well formed and apart on the shared heap, with the parameters they were created
  with, and whatever is queued is a timer that exists.
\<close>

definition tmr_queues :: "TTimerModule \<Rightarrow> bool" where
  "tmr_queues s \<longleftrightarrow> que_wf (links s) (hInitQueue s) \<and> que_wf (links s) (hOperQueue s) \<and>
     que_apart (links s) (hInitQueue s) (hOperQueue s) \<and>
     uNodeHeaderOffset (hInitQueue s) = uTimerNodeOffset \<and> uNodeHeaderOffset (hOperQueue s) = uTimerNodeOffset"

abbreviation init_items :: "TTimerModule \<Rightarrow> ptr list" where
  "init_items s \<equiv> que_items (links s) (hInitQueue s)"

abbreviation oper_items :: "TTimerModule \<Rightarrow> ptr list" where
  "oper_items s \<equiv> que_items (links s) (hOperQueue s)"

definition valid_handle :: "ptr \<Rightarrow> bool" where
  "valid_handle p \<longleftrightarrow> p \<noteq> NULL \<and> p + uTimerNodeOffset \<noteq> NULL"

definition tmr_ok :: "TTimerModule \<Rightarrow> bool" where
  "tmr_ok s \<longleftrightarrow> tmr_queues s \<and> (\<forall>p \<in> dom (timers s). valid_handle p) \<and>
     set (init_items s) \<union> set (oper_items s) \<subseteq> dom (timers s)"

lemma tmr_ok_os_do [simp]:
  "tmr_ok (os_do c s) = tmr_ok s" "init_items (os_do c s) = init_items s"
  "oper_items (os_do c s) = oper_items s" "timers (os_do c s) = timers s"
  "bOperState (os_do c s) = bOperState s" "uTwdInitCount (os_do c s) = uTwdInitCount s"
  by (simp_all add: tmr_ok_def tmr_queues_def os_do_def)

text \<open>The queue operations on one of the two queues, lifted to the module.\<close>

lemma tmr_enqueue_oper:
  assumes ok: "tmr_ok s" and p: "p \<in> dom (timers s)"
    and res: "que_Enqueue d (links s) (hOperQueue s) p = (st, h, q)"
  shows "tmr_ok (s\<lparr>links := h, hOperQueue := q\<rparr>)"
    and "que_items h q = (if que_refused (links s) (hOperQueue s) p then oper_items s else oper_items s @ [p])"
    and "que_items h (hInitQueue s) = init_items s"
proof -
  have v: "valid_handle p" using ok p by (simp add: tmr_ok_def)
  note e = que_pair_Enqueue [of "links s" "hOperQueue s" "hInitQueue s" p d st h q]
  have r: "que_wf h q \<and> que_wf h (hInitQueue s) \<and> que_apart h q (hInitQueue s) \<and>
      que_same_params (hOperQueue s) q \<and> que_items h (hInitQueue s) = init_items s \<and>
      que_items h q = (if que_refused (links s) (hOperQueue s) p then oper_items s else oper_items s @ [p])"
    using e ok v res by (simp add: tmr_ok_def tmr_queues_def valid_handle_def que_apart_sym)
  then show "tmr_ok (s\<lparr>links := h, hOperQueue := q\<rparr>)"
    using ok p by (auto simp: tmr_ok_def tmr_queues_def que_apart_sym que_same_params_def split: if_splits)
  show "que_items h q = (if que_refused (links s) (hOperQueue s) p then oper_items s else oper_items s @ [p])"
    "que_items h (hInitQueue s) = init_items s"
    using r by simp_all
qed

lemma tmr_enqueue_init:
  assumes ok: "tmr_ok s" and p: "p \<in> dom (timers s)"
    and res: "que_Enqueue d (links s) (hInitQueue s) p = (st, h, q)"
  shows "tmr_ok (s\<lparr>links := h, hInitQueue := q\<rparr>)"
    and "que_items h q = (if que_refused (links s) (hInitQueue s) p then init_items s else init_items s @ [p])"
    and "que_items h (hOperQueue s) = oper_items s"
proof -
  have v: "valid_handle p" using ok p by (simp add: tmr_ok_def)
  note e = que_pair_Enqueue [of "links s" "hInitQueue s" "hOperQueue s" p d st h q]
  have r: "que_wf h q \<and> que_wf h (hOperQueue s) \<and> que_apart h q (hOperQueue s) \<and>
      que_same_params (hInitQueue s) q \<and> que_items h (hOperQueue s) = oper_items s \<and>
      que_items h q = (if que_refused (links s) (hInitQueue s) p then init_items s else init_items s @ [p])"
    using e ok v res by (simp add: tmr_ok_def tmr_queues_def valid_handle_def)
  then show "tmr_ok (s\<lparr>links := h, hInitQueue := q\<rparr>)"
    using ok p by (auto simp: tmr_ok_def tmr_queues_def que_same_params_def split: if_splits)
  show "que_items h q = (if que_refused (links s) (hInitQueue s) p then init_items s else init_items s @ [p])"
    "que_items h (hOperQueue s) = oper_items s"
    using r by simp_all
qed

definition active_items :: "TTimerModule \<Rightarrow> ptr list" where
  "active_items s = (if bOperState s then oper_items s else init_items s)"

definition passive_items :: "TTimerModule \<Rightarrow> ptr list" where
  "passive_items s = (if bOperState s then init_items s else oper_items s)"

lemma next_expired_step:
  assumes ok: "tmr_ok s" and res: "next_expired d s = (p, s')"
  shows "tmr_ok s' \<and> passive_items s' = passive_items s \<and> timers s' = timers s \<and>
    bOperState s' = bOperState s \<and> uTwdInitCount s' = uTwdInitCount s \<and>
    (case active_items s of [] \<Rightarrow> p = NULL \<and> active_items s' = []
     | i # js \<Rightarrow> p = i \<and> p \<noteq> NULL \<and> active_items s' = js)"
proof (cases "bOperState s")
  case True
  obtain h q where deq: "que_Dequeue d (links s) (hOperQueue s) = (p, h, q)"
      and s': "s' = s\<lparr>links := h, hOperQueue := q\<rparr>"
    using res True by (auto simp: next_expired_def split: prod.splits)
  have "que_wf h q \<and> que_wf h (hInitQueue s) \<and> que_apart h q (hInitQueue s) \<and>
      que_same_params (hOperQueue s) q \<and> que_items h (hInitQueue s) = init_items s \<and>
      (case oper_items s of [] \<Rightarrow> p = NULL \<and> que_items h q = []
       | i # js \<Rightarrow> p = i \<and> p \<noteq> NULL \<and> que_items h q = js)"
    using que_pair_Dequeue [OF _ _ _ deq, of "hInitQueue s"] ok
    by (simp add: tmr_ok_def tmr_queues_def que_apart_sym)
  then show ?thesis
    using ok True by (auto simp: s' tmr_ok_def tmr_queues_def que_apart_sym que_same_params_def
        active_items_def passive_items_def split: list.splits)
next
  case False
  obtain h q where deq: "que_Dequeue d (links s) (hInitQueue s) = (p, h, q)"
      and s': "s' = s\<lparr>links := h, hInitQueue := q\<rparr>"
    using res False by (auto simp: next_expired_def split: prod.splits)
  have "que_wf h q \<and> que_wf h (hOperQueue s) \<and> que_apart h q (hOperQueue s) \<and>
      que_same_params (hInitQueue s) q \<and> que_items h (hOperQueue s) = oper_items s \<and>
      (case init_items s of [] \<Rightarrow> p = NULL \<and> que_items h q = []
       | i # js \<Rightarrow> p = i \<and> p \<noteq> NULL \<and> que_items h q = js)"
    using que_pair_Dequeue [OF _ _ _ deq, of "hOperQueue s"] ok
    by (simp add: tmr_ok_def tmr_queues_def)
  then show ?thesis
    using ok False by (auto simp: s' tmr_ok_def tmr_queues_def que_same_params_def
        active_items_def passive_items_def split: list.splits)
qed








section \<open>Runs of the module\<close>



lemma tmr_ok_state [simp]:
  "tmr_ok (s\<lparr>bOperState := b\<rparr>) = tmr_ok s" "tmr_ok (s\<lparr>uTwdInitCount := n\<rparr>) = tmr_ok s"
  by (simp_all add: tmr_ok_def tmr_queues_def)


lemma tmr_ok_GetExpiry: "tmr_ok s \<Longrightarrow> tmr_GetExpiry d s p = Some s' \<Longrightarrow> tmr_ok s'"
  using tmr_enqueue_oper(1) [of s p d, OF _ domI] tmr_enqueue_init(1) [of s p d, OF _ domI]
  by (auto simp: tmr_GetExpiry_def split: option.splits prod.splits if_splits)


lemma tmr_ok_timers:
  assumes "tmr_ok s" and "dom m = dom (timers s)"
  shows "tmr_ok (s\<lparr>timers := m\<rparr>)"
  using assms by (simp add: tmr_ok_def tmr_queues_def)









section \<open>Properties\<close>

text \<open>
  A module for the witnesses: two timers, started before the driver is operational, both expired;
  the callback does nothing.
\<close>

definition tmr_ex0 :: TTimerModule where
  "tmr_ex0 = the (tmr_Init \<lparr>pNext = (\<lambda>_. 0), pPrev = (\<lambda>_. 0)\<rparr> 4096 8192 16 32)"

definition tmr_ex1 :: TTimerModule where
  "tmr_ex1 = (let s1 = snd (tmr_CreateTimer tmr_ex0 20480 64);
                  s2 = snd (tmr_CreateTimer s1 24576 68);
                  s3 = the (tmr_StartTimer s2 20480 100 101 50 False)
              in the (tmr_StartTimer s3 24576 100 102 70 True))"

definition tmr_ex2 :: TTimerModule where
  "tmr_ex2 = the (tmr_GetExpiry True (the (tmr_GetExpiry True tmr_ex1 20480)) 24576)"

definition idle_cb :: expiry_cb where
  "idle_cb f h b s = s"



lemma tmr_ex_eval:
  "tmr_queues tmr_ex2" "active_items tmr_ex2 = [20480, 24576]" "passive_items tmr_ex2 = []"
  "init_items tmr_ex2 = [20480, 24576]" "oper_items tmr_ex2 = []"
  by code_simp+

lemma tmr_ex_timers: "dom (timers tmr_ex1) = {20480, 24576}" "dom (timers tmr_ex2) = {20480, 24576}"
  by (auto simp: tmr_ex2_def tmr_ex1_def tmr_ex0_def tmr_Init_def que_Create_def tmr_CreateTimer_def
      tmr_StartTimer_def tmr_GetExpiry_def os_do_def Let_def split: if_splits prod.splits)

lemma tmr_ex_ok: "tmr_ok tmr_ex2"
  using tmr_ex_eval(1,4,5) tmr_ex_timers(2) by (auto simp: tmr_ok_def valid_handle_def)





text \<open>
  An expiration goes to the queue of the state the timer was started in.  A timer started in
  operational state is appended to the operational queue; one started before is appended to the
  init queue while the driver is still not operational, and ignored afterwards; one that is
  queued already is not queued twice.  In every case the other queue keeps its items and a
  schedule is requested.
\<close>

lemma tmr_expiry_routed:
  assumes "tmr_ok s" and "timers s p = Some t" and "tmr_GetExpiry d s p = Some s'"
  shows "tmr_ok s' \<and> last (os_calls s') = context_RequestSchedule \<and>
    (let oper = bOperStateWhenStarted t; init = \<not> oper \<and> \<not> bOperState s
     in oper_items s' = oper_items s @
          (if oper \<and> \<not> que_refused (links s) (hOperQueue s) p then [p] else []) \<and>
        init_items s' = init_items s @
          (if init \<and> \<not> que_refused (links s) (hInitQueue s) p then [p] else []))"
proof -
  have p: "p \<in> dom (timers s)" using assms(2) by blast
  obtain st h q where eo: "que_Enqueue d (links s) (hOperQueue s) p = (st, h, q)"
    by (cases "que_Enqueue d (links s) (hOperQueue s) p")
  obtain st' h' q' where ei: "que_Enqueue d (links s) (hInitQueue s) p = (st', h', q')"
    by (cases "que_Enqueue d (links s) (hInitQueue s) p")
  have "last (os_calls s') = context_RequestSchedule"
    using assms(2,3) by (auto simp: tmr_GetExpiry_def os_do_def)
  then show ?thesis
    using assms(2,3) eo ei tmr_ok_GetExpiry [OF assms(1,3)]
      tmr_enqueue_oper(2,3) [OF assms(1) p eo] tmr_enqueue_init(2,3) [OF assms(1) p ei]
    by (auto simp: tmr_GetExpiry_def os_do_def)
qed

text \<open>
  C26: destroying a timer whose expiration is pending is fatal.  \<open>tmr_DestroyTimer\<close> frees the
  structure without taking it out of the expiry queue, so that the next handling of expirations
  reads the freed timer: it does not return normally, whatever the callbacks are.
\<close>

theorem tmr_destroy_pending_faults:
  assumes "tmr_ok s" and "active_items s = p # ps" and "tmr_DestroyTimer s p = Some s'"
  shows "tmr_HandleExpiry d cb s' = None"
proof -
  obtain x s1 where n: "next_expired d s = (x, s1)" by (cases "next_expired d s")
  have x: "x = p" "p \<noteq> NULL" using next_expired_step [OF assms(1) n] assms(2) by auto
  have "timers s' p = None" "links s' = links s" "hInitQueue s' = hInitQueue s"
      "hOperQueue s' = hOperQueue s" "bOperState s' = bOperState s"
    using assms(3) by (auto simp: tmr_DestroyTimer_def os_do_def split: option.splits)
  then have "\<exists>s2. next_expired d s' = (p, s2) \<and> timers s2 p = None"
    using n x by (auto simp: next_expired_def split: if_splits prod.splits)
  then show ?thesis using x(2) by (subst tmr_HandleExpiry.simps) (auto simp: serve_timer_def)
qed

theorem tmr_destroy_pending_faults_witness:
  "tmr_HandleExpiry True idle_cb (the (tmr_DestroyTimer tmr_ex2 20480)) = None"
proof -
  obtain t where t: "timers tmr_ex2 20480 = Some t" using tmr_ex_timers(2) by blast
  then show ?thesis
    using tmr_destroy_pending_faults [OF tmr_ex_ok, of 20480 "[24576]"] tmr_ex_eval(2)
    by (simp add: tmr_DestroyTimer_def)
qed

end
