(* ===== verification/Rate.thy ===== *)
theory Rate
  imports Prelude
begin

text \<open>
  Rate conversion (\<^verbatim>\<open>utils/rate.c\<close>, \<^verbatim>\<open>utils/rate.h\<close>, \<^verbatim>\<open>TWD/TWDriver/TWDriverRate.h\<close>).  A rate
  has a driver code, a byte in the rate elements of management frames (with or without the basic
  bit), a number for the user, a bit in driver bitmaps, a bit in the firmware's bitmaps and an
  index in the firmware's rate policies; the module converts between them.

  The enumerations are 32-bit words, as the compiler has them, so that the default branches of the
  conversions are part of the model.  A rate string is the list of its bytes.  The lemmas show that
  the conversions are inverse to one another where the code relies on it, and what the maximum,
  the firmware bitmap and the validation against the band compute.
\<close>

unbundle bit_operations_syntax

section \<open>The enumerations\<close>

text \<open>\<open>ERate\<close>\<close>

abbreviation (input) DRV_RATE_AUTO :: "u32" where "DRV_RATE_AUTO \<equiv> 0"
abbreviation (input) DRV_RATE_1M :: "u32" where "DRV_RATE_1M \<equiv> 1"
abbreviation (input) DRV_RATE_2M :: "u32" where "DRV_RATE_2M \<equiv> 2"
abbreviation (input) DRV_RATE_5_5M :: "u32" where "DRV_RATE_5_5M \<equiv> 3"
abbreviation (input) DRV_RATE_11M :: "u32" where "DRV_RATE_11M \<equiv> 4"
abbreviation (input) DRV_RATE_22M :: "u32" where "DRV_RATE_22M \<equiv> 5"
abbreviation (input) DRV_RATE_6M :: "u32" where "DRV_RATE_6M \<equiv> 6"
abbreviation (input) DRV_RATE_9M :: "u32" where "DRV_RATE_9M \<equiv> 7"
abbreviation (input) DRV_RATE_12M :: "u32" where "DRV_RATE_12M \<equiv> 8"
abbreviation (input) DRV_RATE_18M :: "u32" where "DRV_RATE_18M \<equiv> 9"
abbreviation (input) DRV_RATE_24M :: "u32" where "DRV_RATE_24M \<equiv> 10"
abbreviation (input) DRV_RATE_36M :: "u32" where "DRV_RATE_36M \<equiv> 11"
abbreviation (input) DRV_RATE_48M :: "u32" where "DRV_RATE_48M \<equiv> 12"
abbreviation (input) DRV_RATE_54M :: "u32" where "DRV_RATE_54M \<equiv> 13"
abbreviation (input) DRV_RATE_MCS_0 :: "u32" where "DRV_RATE_MCS_0 \<equiv> 14"
abbreviation (input) DRV_RATE_MCS_1 :: "u32" where "DRV_RATE_MCS_1 \<equiv> 15"
abbreviation (input) DRV_RATE_MCS_2 :: "u32" where "DRV_RATE_MCS_2 \<equiv> 16"
abbreviation (input) DRV_RATE_MCS_3 :: "u32" where "DRV_RATE_MCS_3 \<equiv> 17"
abbreviation (input) DRV_RATE_MCS_4 :: "u32" where "DRV_RATE_MCS_4 \<equiv> 18"
abbreviation (input) DRV_RATE_MCS_5 :: "u32" where "DRV_RATE_MCS_5 \<equiv> 19"
abbreviation (input) DRV_RATE_MCS_6 :: "u32" where "DRV_RATE_MCS_6 \<equiv> 20"
abbreviation (input) DRV_RATE_MCS_7 :: "u32" where "DRV_RATE_MCS_7 \<equiv> 21"
abbreviation (input) DRV_RATE_INVALID :: "u32" where "DRV_RATE_INVALID \<equiv> 0xFF"

definition RATE_TO_MASK :: "u32 \<Rightarrow> u32" where
  "RATE_TO_MASK R = push_bit (unat (R - 1)) 1"

text \<open>\<open>ERateMask\<close>\<close>

abbreviation (input) DRV_RATE_MASK_1_BARKER :: "u32" where "DRV_RATE_MASK_1_BARKER \<equiv> RATE_TO_MASK DRV_RATE_1M"
abbreviation (input) DRV_RATE_MASK_2_BARKER :: "u32" where "DRV_RATE_MASK_2_BARKER \<equiv> RATE_TO_MASK DRV_RATE_2M"
abbreviation (input) DRV_RATE_MASK_5_5_CCK :: "u32" where "DRV_RATE_MASK_5_5_CCK \<equiv> RATE_TO_MASK DRV_RATE_5_5M"
abbreviation (input) DRV_RATE_MASK_11_CCK :: "u32" where "DRV_RATE_MASK_11_CCK \<equiv> RATE_TO_MASK DRV_RATE_11M"
abbreviation (input) DRV_RATE_MASK_22_PBCC :: "u32" where "DRV_RATE_MASK_22_PBCC \<equiv> RATE_TO_MASK DRV_RATE_22M"
abbreviation (input) DRV_RATE_MASK_6_OFDM :: "u32" where "DRV_RATE_MASK_6_OFDM \<equiv> RATE_TO_MASK DRV_RATE_6M"
abbreviation (input) DRV_RATE_MASK_9_OFDM :: "u32" where "DRV_RATE_MASK_9_OFDM \<equiv> RATE_TO_MASK DRV_RATE_9M"
abbreviation (input) DRV_RATE_MASK_12_OFDM :: "u32" where "DRV_RATE_MASK_12_OFDM \<equiv> RATE_TO_MASK DRV_RATE_12M"
abbreviation (input) DRV_RATE_MASK_18_OFDM :: "u32" where "DRV_RATE_MASK_18_OFDM \<equiv> RATE_TO_MASK DRV_RATE_18M"
abbreviation (input) DRV_RATE_MASK_24_OFDM :: "u32" where "DRV_RATE_MASK_24_OFDM \<equiv> RATE_TO_MASK DRV_RATE_24M"
abbreviation (input) DRV_RATE_MASK_36_OFDM :: "u32" where "DRV_RATE_MASK_36_OFDM \<equiv> RATE_TO_MASK DRV_RATE_36M"
abbreviation (input) DRV_RATE_MASK_48_OFDM :: "u32" where "DRV_RATE_MASK_48_OFDM \<equiv> RATE_TO_MASK DRV_RATE_48M"
abbreviation (input) DRV_RATE_MASK_54_OFDM :: "u32" where "DRV_RATE_MASK_54_OFDM \<equiv> RATE_TO_MASK DRV_RATE_54M"
abbreviation (input) DRV_RATE_MASK_MCS_0_OFDM :: "u32" where "DRV_RATE_MASK_MCS_0_OFDM \<equiv> RATE_TO_MASK DRV_RATE_MCS_0"
abbreviation (input) DRV_RATE_MASK_MCS_1_OFDM :: "u32" where "DRV_RATE_MASK_MCS_1_OFDM \<equiv> RATE_TO_MASK DRV_RATE_MCS_1"
abbreviation (input) DRV_RATE_MASK_MCS_2_OFDM :: "u32" where "DRV_RATE_MASK_MCS_2_OFDM \<equiv> RATE_TO_MASK DRV_RATE_MCS_2"
abbreviation (input) DRV_RATE_MASK_MCS_3_OFDM :: "u32" where "DRV_RATE_MASK_MCS_3_OFDM \<equiv> RATE_TO_MASK DRV_RATE_MCS_3"
abbreviation (input) DRV_RATE_MASK_MCS_4_OFDM :: "u32" where "DRV_RATE_MASK_MCS_4_OFDM \<equiv> RATE_TO_MASK DRV_RATE_MCS_4"
abbreviation (input) DRV_RATE_MASK_MCS_5_OFDM :: "u32" where "DRV_RATE_MASK_MCS_5_OFDM \<equiv> RATE_TO_MASK DRV_RATE_MCS_5"
abbreviation (input) DRV_RATE_MASK_MCS_6_OFDM :: "u32" where "DRV_RATE_MASK_MCS_6_OFDM \<equiv> RATE_TO_MASK DRV_RATE_MCS_6"
abbreviation (input) DRV_RATE_MASK_MCS_7_OFDM :: "u32" where "DRV_RATE_MASK_MCS_7_OFDM \<equiv> RATE_TO_MASK DRV_RATE_MCS_7"

text \<open>\<open>ENetRate\<close> and \<open>ENetRateBasic\<close>\<close>

abbreviation (input) NET_BASIC_MASK :: "u32" where "NET_BASIC_MASK \<equiv> 0x80"
abbreviation (input) NET_RATE_1M :: "u32" where "NET_RATE_1M \<equiv> 0x02"
abbreviation (input) NET_RATE_2M :: "u32" where "NET_RATE_2M \<equiv> 0x04"
abbreviation (input) NET_RATE_5_5M :: "u32" where "NET_RATE_5_5M \<equiv> 0x0B"
abbreviation (input) NET_RATE_11M :: "u32" where "NET_RATE_11M \<equiv> 0x16"
abbreviation (input) NET_RATE_22M :: "u32" where "NET_RATE_22M \<equiv> 0x2C"
abbreviation (input) NET_RATE_6M :: "u32" where "NET_RATE_6M \<equiv> 0x0C"
abbreviation (input) NET_RATE_9M :: "u32" where "NET_RATE_9M \<equiv> 0x12"
abbreviation (input) NET_RATE_12M :: "u32" where "NET_RATE_12M \<equiv> 0x18"
abbreviation (input) NET_RATE_18M :: "u32" where "NET_RATE_18M \<equiv> 0x24"
abbreviation (input) NET_RATE_24M :: "u32" where "NET_RATE_24M \<equiv> 0x30"
abbreviation (input) NET_RATE_36M :: "u32" where "NET_RATE_36M \<equiv> 0x48"
abbreviation (input) NET_RATE_48M :: "u32" where "NET_RATE_48M \<equiv> 0x60"
abbreviation (input) NET_RATE_54M :: "u32" where "NET_RATE_54M \<equiv> 0x6C"
abbreviation (input) NET_RATE_MCS0 :: "u32" where "NET_RATE_MCS0 \<equiv> 0x0D"
abbreviation (input) NET_RATE_MCS1 :: "u32" where "NET_RATE_MCS1 \<equiv> 0x1A"
abbreviation (input) NET_RATE_MCS2 :: "u32" where "NET_RATE_MCS2 \<equiv> 0x27"
abbreviation (input) NET_RATE_MCS3 :: "u32" where "NET_RATE_MCS3 \<equiv> 0x34"
abbreviation (input) NET_RATE_MCS4 :: "u32" where "NET_RATE_MCS4 \<equiv> 0x4E"
abbreviation (input) NET_RATE_MCS5 :: "u32" where "NET_RATE_MCS5 \<equiv> 0x68"
abbreviation (input) NET_RATE_MCS6 :: "u32" where "NET_RATE_MCS6 \<equiv> 0x75"
abbreviation (input) NET_RATE_MCS7 :: "u32" where "NET_RATE_MCS7 \<equiv> 0x7F"
abbreviation (input) NET_RATE_1M_BASIC :: "u32" where "NET_RATE_1M_BASIC \<equiv> NET_RATE_1M OR NET_BASIC_MASK"
abbreviation (input) NET_RATE_2M_BASIC :: "u32" where "NET_RATE_2M_BASIC \<equiv> NET_RATE_2M OR NET_BASIC_MASK"
abbreviation (input) NET_RATE_5_5M_BASIC :: "u32" where "NET_RATE_5_5M_BASIC \<equiv> NET_RATE_5_5M OR NET_BASIC_MASK"
abbreviation (input) NET_RATE_11M_BASIC :: "u32" where "NET_RATE_11M_BASIC \<equiv> NET_RATE_11M OR NET_BASIC_MASK"
abbreviation (input) NET_RATE_22M_BASIC :: "u32" where "NET_RATE_22M_BASIC \<equiv> NET_RATE_22M OR NET_BASIC_MASK"
abbreviation (input) NET_RATE_6M_BASIC :: "u32" where "NET_RATE_6M_BASIC \<equiv> NET_RATE_6M OR NET_BASIC_MASK"
abbreviation (input) NET_RATE_9M_BASIC :: "u32" where "NET_RATE_9M_BASIC \<equiv> NET_RATE_9M OR NET_BASIC_MASK"
abbreviation (input) NET_RATE_12M_BASIC :: "u32" where "NET_RATE_12M_BASIC \<equiv> NET_RATE_12M OR NET_BASIC_MASK"
abbreviation (input) NET_RATE_18M_BASIC :: "u32" where "NET_RATE_18M_BASIC \<equiv> NET_RATE_18M OR NET_BASIC_MASK"
abbreviation (input) NET_RATE_24M_BASIC :: "u32" where "NET_RATE_24M_BASIC \<equiv> NET_RATE_24M OR NET_BASIC_MASK"
abbreviation (input) NET_RATE_36M_BASIC :: "u32" where "NET_RATE_36M_BASIC \<equiv> NET_RATE_36M OR NET_BASIC_MASK"
abbreviation (input) NET_RATE_48M_BASIC :: "u32" where "NET_RATE_48M_BASIC \<equiv> NET_RATE_48M OR NET_BASIC_MASK"
abbreviation (input) NET_RATE_54M_BASIC :: "u32" where "NET_RATE_54M_BASIC \<equiv> NET_RATE_54M OR NET_BASIC_MASK"
abbreviation (input) NET_RATE_MCS0_BASIC :: "u32" where "NET_RATE_MCS0_BASIC \<equiv> NET_RATE_MCS0 OR NET_BASIC_MASK"
abbreviation (input) NET_RATE_MCS1_BASIC :: "u32" where "NET_RATE_MCS1_BASIC \<equiv> NET_RATE_MCS1 OR NET_BASIC_MASK"
abbreviation (input) NET_RATE_MCS2_BASIC :: "u32" where "NET_RATE_MCS2_BASIC \<equiv> NET_RATE_MCS2 OR NET_BASIC_MASK"
abbreviation (input) NET_RATE_MCS3_BASIC :: "u32" where "NET_RATE_MCS3_BASIC \<equiv> NET_RATE_MCS3 OR NET_BASIC_MASK"
abbreviation (input) NET_RATE_MCS4_BASIC :: "u32" where "NET_RATE_MCS4_BASIC \<equiv> NET_RATE_MCS4 OR NET_BASIC_MASK"
abbreviation (input) NET_RATE_MCS5_BASIC :: "u32" where "NET_RATE_MCS5_BASIC \<equiv> NET_RATE_MCS5 OR NET_BASIC_MASK"
abbreviation (input) NET_RATE_MCS6_BASIC :: "u32" where "NET_RATE_MCS6_BASIC \<equiv> NET_RATE_MCS6 OR NET_BASIC_MASK"
abbreviation (input) NET_RATE_MCS7_BASIC :: "u32" where "NET_RATE_MCS7_BASIC \<equiv> NET_RATE_MCS7 OR NET_BASIC_MASK"

text \<open>\<open>EBasicRateSet\<close> and \<open>ESupportedRateSet\<close>\<close>

abbreviation (input) BASIC_RATE_SET_1_2 :: "u32" where "BASIC_RATE_SET_1_2 \<equiv> 0"
abbreviation (input) BASIC_RATE_SET_1_2_5_5_11 :: "u32" where "BASIC_RATE_SET_1_2_5_5_11 \<equiv> 1"
abbreviation (input) BASIC_RATE_SET_UP_TO_12 :: "u32" where "BASIC_RATE_SET_UP_TO_12 \<equiv> 2"
abbreviation (input) BASIC_RATE_SET_UP_TO_18 :: "u32" where "BASIC_RATE_SET_UP_TO_18 \<equiv> 3"
abbreviation (input) BASIC_RATE_SET_1_2_5_5_6_11_12_24 :: "u32" where "BASIC_RATE_SET_1_2_5_5_6_11_12_24 \<equiv> 4"
abbreviation (input) BASIC_RATE_SET_UP_TO_36 :: "u32" where "BASIC_RATE_SET_UP_TO_36 \<equiv> 5"
abbreviation (input) BASIC_RATE_SET_UP_TO_48 :: "u32" where "BASIC_RATE_SET_UP_TO_48 \<equiv> 6"
abbreviation (input) BASIC_RATE_SET_UP_TO_54 :: "u32" where "BASIC_RATE_SET_UP_TO_54 \<equiv> 7"
abbreviation (input) BASIC_RATE_SET_UP_TO_24 :: "u32" where "BASIC_RATE_SET_UP_TO_24 \<equiv> 8"
abbreviation (input) BASIC_RATE_SET_6_12_24 :: "u32" where "BASIC_RATE_SET_6_12_24 \<equiv> 9"
abbreviation (input) BASIC_RATE_SET_ALL_MCS_RATES :: "u32" where "BASIC_RATE_SET_ALL_MCS_RATES \<equiv> 10"
abbreviation (input) SUPPORTED_RATE_SET_1_2 :: "u32" where "SUPPORTED_RATE_SET_1_2 \<equiv> 0"
abbreviation (input) SUPPORTED_RATE_SET_1_2_5_5_11 :: "u32" where "SUPPORTED_RATE_SET_1_2_5_5_11 \<equiv> 1"
abbreviation (input) SUPPORTED_RATE_SET_1_2_5_5_11_22 :: "u32" where "SUPPORTED_RATE_SET_1_2_5_5_11_22 \<equiv> 2"
abbreviation (input) SUPPORTED_RATE_SET_UP_TO_18 :: "u32" where "SUPPORTED_RATE_SET_UP_TO_18 \<equiv> 3"
abbreviation (input) SUPPORTED_RATE_SET_UP_TO_24 :: "u32" where "SUPPORTED_RATE_SET_UP_TO_24 \<equiv> 4"
abbreviation (input) SUPPORTED_RATE_SET_UP_TO_36 :: "u32" where "SUPPORTED_RATE_SET_UP_TO_36 \<equiv> 5"
abbreviation (input) SUPPORTED_RATE_SET_UP_TO_48 :: "u32" where "SUPPORTED_RATE_SET_UP_TO_48 \<equiv> 6"
abbreviation (input) SUPPORTED_RATE_SET_UP_TO_54 :: "u32" where "SUPPORTED_RATE_SET_UP_TO_54 \<equiv> 7"
abbreviation (input) SUPPORTED_RATE_SET_ALL :: "u32" where "SUPPORTED_RATE_SET_ALL \<equiv> 8"
abbreviation (input) SUPPORTED_RATE_SET_ALL_OFDM :: "u32" where "SUPPORTED_RATE_SET_ALL_OFDM \<equiv> 9"
abbreviation (input) SUPPORTED_RATE_SET_ALL_MCS_RATES :: "u32" where "SUPPORTED_RATE_SET_ALL_MCS_RATES \<equiv> 10"

text \<open>\<open>EHwBitRate\<close> and \<open>ETxRateClassId\<close>, of the firmware interface\<close>

abbreviation (input) HW_BIT_RATE_1MBPS :: "u32" where "HW_BIT_RATE_1MBPS \<equiv> 0x1"
abbreviation (input) HW_BIT_RATE_2MBPS :: "u32" where "HW_BIT_RATE_2MBPS \<equiv> 0x2"
abbreviation (input) HW_BIT_RATE_5_5MBPS :: "u32" where "HW_BIT_RATE_5_5MBPS \<equiv> 0x4"
abbreviation (input) HW_BIT_RATE_6MBPS :: "u32" where "HW_BIT_RATE_6MBPS \<equiv> 0x8"
abbreviation (input) HW_BIT_RATE_9MBPS :: "u32" where "HW_BIT_RATE_9MBPS \<equiv> 0x10"
abbreviation (input) HW_BIT_RATE_11MBPS :: "u32" where "HW_BIT_RATE_11MBPS \<equiv> 0x20"
abbreviation (input) HW_BIT_RATE_12MBPS :: "u32" where "HW_BIT_RATE_12MBPS \<equiv> 0x40"
abbreviation (input) HW_BIT_RATE_18MBPS :: "u32" where "HW_BIT_RATE_18MBPS \<equiv> 0x80"
abbreviation (input) HW_BIT_RATE_22MBPS :: "u32" where "HW_BIT_RATE_22MBPS \<equiv> 0x100"
abbreviation (input) HW_BIT_RATE_24MBPS :: "u32" where "HW_BIT_RATE_24MBPS \<equiv> 0x200"
abbreviation (input) HW_BIT_RATE_36MBPS :: "u32" where "HW_BIT_RATE_36MBPS \<equiv> 0x400"
abbreviation (input) HW_BIT_RATE_48MBPS :: "u32" where "HW_BIT_RATE_48MBPS \<equiv> 0x800"
abbreviation (input) HW_BIT_RATE_54MBPS :: "u32" where "HW_BIT_RATE_54MBPS \<equiv> 0x1000"
abbreviation (input) HW_BIT_RATE_MCS_0 :: "u32" where "HW_BIT_RATE_MCS_0 \<equiv> 0x2000"
abbreviation (input) HW_BIT_RATE_MCS_1 :: "u32" where "HW_BIT_RATE_MCS_1 \<equiv> 0x4000"
abbreviation (input) HW_BIT_RATE_MCS_2 :: "u32" where "HW_BIT_RATE_MCS_2 \<equiv> 0x8000"
abbreviation (input) HW_BIT_RATE_MCS_3 :: "u32" where "HW_BIT_RATE_MCS_3 \<equiv> 0x10000"
abbreviation (input) HW_BIT_RATE_MCS_4 :: "u32" where "HW_BIT_RATE_MCS_4 \<equiv> 0x20000"
abbreviation (input) HW_BIT_RATE_MCS_5 :: "u32" where "HW_BIT_RATE_MCS_5 \<equiv> 0x40000"
abbreviation (input) HW_BIT_RATE_MCS_6 :: "u32" where "HW_BIT_RATE_MCS_6 \<equiv> 0x80000"
abbreviation (input) HW_BIT_RATE_MCS_7 :: "u32" where "HW_BIT_RATE_MCS_7 \<equiv> 0x100000"
abbreviation (input) txPolicyMcs7 :: "u32" where "txPolicyMcs7 \<equiv> 0"
abbreviation (input) txPolicyMcs6 :: "u32" where "txPolicyMcs6 \<equiv> 1"
abbreviation (input) txPolicyMcs5 :: "u32" where "txPolicyMcs5 \<equiv> 2"
abbreviation (input) txPolicyMcs4 :: "u32" where "txPolicyMcs4 \<equiv> 3"
abbreviation (input) txPolicyMcs3 :: "u32" where "txPolicyMcs3 \<equiv> 4"
abbreviation (input) txPolicyMcs2 :: "u32" where "txPolicyMcs2 \<equiv> 5"
abbreviation (input) txPolicyMcs1 :: "u32" where "txPolicyMcs1 \<equiv> 6"
abbreviation (input) txPolicyMcs0 :: "u32" where "txPolicyMcs0 \<equiv> 7"
abbreviation (input) txPolicy54 :: "u32" where "txPolicy54 \<equiv> 8"
abbreviation (input) txPolicy48 :: "u32" where "txPolicy48 \<equiv> 9"
abbreviation (input) txPolicy36 :: "u32" where "txPolicy36 \<equiv> 10"
abbreviation (input) txPolicy24 :: "u32" where "txPolicy24 \<equiv> 11"
abbreviation (input) txPolicy22 :: "u32" where "txPolicy22 \<equiv> 12"
abbreviation (input) txPolicy18 :: "u32" where "txPolicy18 \<equiv> 13"
abbreviation (input) txPolicy12 :: "u32" where "txPolicy12 \<equiv> 14"
abbreviation (input) txPolicy11 :: "u32" where "txPolicy11 \<equiv> 15"
abbreviation (input) txPolicy9 :: "u32" where "txPolicy9 \<equiv> 16"
abbreviation (input) txPolicy6 :: "u32" where "txPolicy6 \<equiv> 17"
abbreviation (input) txPolicy5_5 :: "u32" where "txPolicy5_5 \<equiv> 18"
abbreviation (input) txPolicy2 :: "u32" where "txPolicy2 \<equiv> 19"
abbreviation (input) txPolicy1 :: "u32" where "txPolicy1 \<equiv> 20"

section \<open>Conversions\<close>

text \<open>A \<^verbatim>\<open>switch\<close>: the result of the first case with the value among its labels, else the default.\<close>

fun switch :: "('a list \<times> 'b) list \<Rightarrow> 'b \<Rightarrow> 'a \<Rightarrow> 'b" where
  "switch [] d x = d"
| "switch ((labels, r) # cs) d x = (if x \<in> set labels then r else switch cs d x)"

definition rate_NetToDrv :: "u32 \<Rightarrow> u32" where
  "rate_NetToDrv rate = switch
    [([NET_RATE_1M, NET_RATE_1M_BASIC], DRV_RATE_1M),
     ([NET_RATE_2M, NET_RATE_2M_BASIC], DRV_RATE_2M),
     ([NET_RATE_5_5M, NET_RATE_5_5M_BASIC], DRV_RATE_5_5M),
     ([NET_RATE_11M, NET_RATE_11M_BASIC], DRV_RATE_11M),
     ([NET_RATE_22M, NET_RATE_22M_BASIC], DRV_RATE_22M),
     ([NET_RATE_6M, NET_RATE_6M_BASIC], DRV_RATE_6M),
     ([NET_RATE_9M, NET_RATE_9M_BASIC], DRV_RATE_9M),
     ([NET_RATE_12M, NET_RATE_12M_BASIC], DRV_RATE_12M),
     ([NET_RATE_18M, NET_RATE_18M_BASIC], DRV_RATE_18M),
     ([NET_RATE_24M, NET_RATE_24M_BASIC], DRV_RATE_24M),
     ([NET_RATE_36M, NET_RATE_36M_BASIC], DRV_RATE_36M),
     ([NET_RATE_48M, NET_RATE_48M_BASIC], DRV_RATE_48M),
     ([NET_RATE_54M, NET_RATE_54M_BASIC], DRV_RATE_54M),
     ([NET_RATE_MCS0, NET_RATE_MCS0_BASIC], DRV_RATE_MCS_0),
     ([NET_RATE_MCS1, NET_RATE_MCS1_BASIC], DRV_RATE_MCS_1),
     ([NET_RATE_MCS2, NET_RATE_MCS2_BASIC], DRV_RATE_MCS_2),
     ([NET_RATE_MCS3, NET_RATE_MCS3_BASIC], DRV_RATE_MCS_3),
     ([NET_RATE_MCS4, NET_RATE_MCS4_BASIC], DRV_RATE_MCS_4),
     ([NET_RATE_MCS5, NET_RATE_MCS5_BASIC], DRV_RATE_MCS_5),
     ([NET_RATE_MCS6, NET_RATE_MCS6_BASIC], DRV_RATE_MCS_6),
     ([NET_RATE_MCS7, NET_RATE_MCS7_BASIC], DRV_RATE_MCS_7)]
    DRV_RATE_INVALID rate"

definition rate_DrvToNet :: "u32 \<Rightarrow> u32" where
  "rate_DrvToNet rate = switch
    [([DRV_RATE_AUTO], 0),
     ([DRV_RATE_1M], NET_RATE_1M),
     ([DRV_RATE_2M], NET_RATE_2M),
     ([DRV_RATE_5_5M], NET_RATE_5_5M),
     ([DRV_RATE_11M], NET_RATE_11M),
     ([DRV_RATE_22M], NET_RATE_22M),
     ([DRV_RATE_6M], NET_RATE_6M),
     ([DRV_RATE_9M], NET_RATE_9M),
     ([DRV_RATE_12M], NET_RATE_12M),
     ([DRV_RATE_18M], NET_RATE_18M),
     ([DRV_RATE_24M], NET_RATE_24M),
     ([DRV_RATE_36M], NET_RATE_36M),
     ([DRV_RATE_48M], NET_RATE_48M),
     ([DRV_RATE_54M], NET_RATE_54M),
     ([DRV_RATE_MCS_0], NET_RATE_MCS0),
     ([DRV_RATE_MCS_1], NET_RATE_MCS1),
     ([DRV_RATE_MCS_2], NET_RATE_MCS2),
     ([DRV_RATE_MCS_3], NET_RATE_MCS3),
     ([DRV_RATE_MCS_4], NET_RATE_MCS4),
     ([DRV_RATE_MCS_5], NET_RATE_MCS5),
     ([DRV_RATE_MCS_6], NET_RATE_MCS6),
     ([DRV_RATE_MCS_7], NET_RATE_MCS7)]
    0 rate"

definition rate_GetMaxFromDrvBitmap :: "u32 \<Rightarrow> u32" where
  "rate_GetMaxFromDrvBitmap uRateBitMap =
     (if uRateBitMap AND DRV_RATE_MASK_MCS_7_OFDM \<noteq> 0 then DRV_RATE_MCS_7
      else if uRateBitMap AND DRV_RATE_MASK_MCS_6_OFDM \<noteq> 0 then DRV_RATE_MCS_6
      else if uRateBitMap AND DRV_RATE_MASK_MCS_5_OFDM \<noteq> 0 then DRV_RATE_MCS_5
      else if uRateBitMap AND DRV_RATE_MASK_MCS_4_OFDM \<noteq> 0 then DRV_RATE_MCS_4
      else if uRateBitMap AND DRV_RATE_MASK_MCS_3_OFDM \<noteq> 0 then DRV_RATE_MCS_3
      else if uRateBitMap AND DRV_RATE_MASK_MCS_2_OFDM \<noteq> 0 then DRV_RATE_MCS_2
      else if uRateBitMap AND DRV_RATE_MASK_MCS_1_OFDM \<noteq> 0 then DRV_RATE_MCS_1
      else if uRateBitMap AND DRV_RATE_MASK_MCS_0_OFDM \<noteq> 0 then DRV_RATE_MCS_0
      else if uRateBitMap AND DRV_RATE_MASK_54_OFDM \<noteq> 0 then DRV_RATE_54M
      else if uRateBitMap AND DRV_RATE_MASK_48_OFDM \<noteq> 0 then DRV_RATE_48M
      else if uRateBitMap AND DRV_RATE_MASK_36_OFDM \<noteq> 0 then DRV_RATE_36M
      else if uRateBitMap AND DRV_RATE_MASK_24_OFDM \<noteq> 0 then DRV_RATE_24M
      else if uRateBitMap AND DRV_RATE_MASK_22_PBCC \<noteq> 0 then DRV_RATE_22M
      else if uRateBitMap AND DRV_RATE_MASK_18_OFDM \<noteq> 0 then DRV_RATE_18M
      else if uRateBitMap AND DRV_RATE_MASK_12_OFDM \<noteq> 0 then DRV_RATE_12M
      else if uRateBitMap AND DRV_RATE_MASK_11_CCK \<noteq> 0 then DRV_RATE_11M
      else if uRateBitMap AND DRV_RATE_MASK_9_OFDM \<noteq> 0 then DRV_RATE_9M
      else if uRateBitMap AND DRV_RATE_MASK_6_OFDM \<noteq> 0 then DRV_RATE_6M
      else if uRateBitMap AND DRV_RATE_MASK_5_5_CCK \<noteq> 0 then DRV_RATE_5_5M
      else if uRateBitMap AND DRV_RATE_MASK_2_BARKER \<noteq> 0 then DRV_RATE_2M
      else if uRateBitMap AND DRV_RATE_MASK_1_BARKER \<noteq> 0 then DRV_RATE_1M
      else DRV_RATE_INVALID)"

definition rate_ValidateNet :: "u32 \<Rightarrow> TI_STATUS" where
  "rate_ValidateNet eRate = switch
    [([NET_RATE_1M, NET_RATE_1M_BASIC,
       NET_RATE_2M, NET_RATE_2M_BASIC,
       NET_RATE_5_5M, NET_RATE_5_5M_BASIC,
       NET_RATE_11M, NET_RATE_11M_BASIC,
       NET_RATE_22M, NET_RATE_22M_BASIC,
       NET_RATE_6M, NET_RATE_6M_BASIC,
       NET_RATE_9M, NET_RATE_9M_BASIC,
       NET_RATE_12M, NET_RATE_12M_BASIC,
       NET_RATE_18M, NET_RATE_18M_BASIC,
       NET_RATE_24M, NET_RATE_24M_BASIC,
       NET_RATE_36M, NET_RATE_36M_BASIC,
       NET_RATE_48M, NET_RATE_48M_BASIC,
       NET_RATE_54M, NET_RATE_54M_BASIC], TI_OK)]
    TI_NOK eRate"

text \<open>The loops over a rate string; a byte is promoted to 32 bits when it is compared.\<close>

definition rate_GetMaxBasicFromStr :: "u8 list \<Rightarrow> u32 \<Rightarrow> u32" where
  "rate_GetMaxBasicFromStr pRatesString eMaxRate =
     foldl (\<lambda>m c. if ucast c AND NET_BASIC_MASK \<noteq> 0 \<and> rate_ValidateNet (ucast c) = TI_OK
                  then (if ucast c > m then ucast c else m) else m) eMaxRate pRatesString"

definition rate_GetMaxActiveFromStr :: "u8 list \<Rightarrow> u32 \<Rightarrow> u32" where
  "rate_GetMaxActiveFromStr pRatesString eMaxRate =
     foldl (\<lambda>m c. if ucast c AND NET_BASIC_MASK = 0 \<and> rate_ValidateNet (ucast c) = TI_OK
                  then (if ucast c > m then ucast c else m) else m) eMaxRate pRatesString"

definition rate_DrvToNumber :: "u32 \<Rightarrow> u32" where
  "rate_DrvToNumber eRate = switch
    [([DRV_RATE_1M], 1),
     ([DRV_RATE_2M], 2),
     ([DRV_RATE_5_5M], 5),
     ([DRV_RATE_11M], 11),
     ([DRV_RATE_22M], 22),
     ([DRV_RATE_6M], 6),
     ([DRV_RATE_9M], 9),
     ([DRV_RATE_12M], 12),
     ([DRV_RATE_18M], 18),
     ([DRV_RATE_24M], 24),
     ([DRV_RATE_36M], 36),
     ([DRV_RATE_48M], 48),
     ([DRV_RATE_54M], 54),
     ([DRV_RATE_MCS_0], 6),
     ([DRV_RATE_MCS_1], 13),
     ([DRV_RATE_MCS_2], 19),
     ([DRV_RATE_MCS_3], 26),
     ([DRV_RATE_MCS_4], 39),
     ([DRV_RATE_MCS_5], 52),
     ([DRV_RATE_MCS_6], 58),
     ([DRV_RATE_MCS_7], 65)]
    0 eRate"

definition rate_NetToNumber :: "u32 \<Rightarrow> u32" where
  "rate_NetToNumber rate = switch
    [([NET_RATE_1M, NET_RATE_1M_BASIC], 1),
     ([NET_RATE_2M, NET_RATE_2M_BASIC], 2),
     ([NET_RATE_5_5M, NET_RATE_5_5M_BASIC], 5),
     ([NET_RATE_11M, NET_RATE_11M_BASIC], 11),
     ([NET_RATE_22M, NET_RATE_22M_BASIC], 22),
     ([NET_RATE_6M, NET_RATE_6M_BASIC], 6),
     ([NET_RATE_9M, NET_RATE_9M_BASIC], 9),
     ([NET_RATE_12M, NET_RATE_12M_BASIC], 12),
     ([NET_RATE_18M, NET_RATE_18M_BASIC], 18),
     ([NET_RATE_24M, NET_RATE_24M_BASIC], 24),
     ([NET_RATE_36M, NET_RATE_36M_BASIC], 36),
     ([NET_RATE_48M, NET_RATE_48M_BASIC], 48),
     ([NET_RATE_54M, NET_RATE_54M_BASIC], 54),
     ([NET_RATE_MCS0, NET_RATE_MCS0_BASIC], 6),
     ([NET_RATE_MCS1, NET_RATE_MCS1_BASIC], 13),
     ([NET_RATE_MCS2, NET_RATE_MCS2_BASIC], 19),
     ([NET_RATE_MCS3, NET_RATE_MCS3_BASIC], 26),
     ([NET_RATE_MCS4, NET_RATE_MCS4_BASIC], 39),
     ([NET_RATE_MCS5, NET_RATE_MCS5_BASIC], 52),
     ([NET_RATE_MCS6, NET_RATE_MCS6_BASIC], 58),
     ([NET_RATE_MCS7, NET_RATE_MCS7_BASIC], 65)]
    0 rate"

text \<open>
  One rate of the string: present when the rate is supported, with the basic bit when it is basic.
  The result has the bytes, their number and the position of the first OFDM rate.
\<close>

definition net_entry :: "u32 \<Rightarrow> u32 \<Rightarrow> u32 \<Rightarrow> u32 \<Rightarrow> u32 \<Rightarrow> u8 list" where
  "net_entry uSupp uBasic m basic plain =
     (if uSupp AND m \<noteq> 0 then [ucast (if uBasic AND m \<noteq> 0 then basic else plain)] else [])"

definition net_cck_rates :: "u32 \<Rightarrow> u32 \<Rightarrow> u8 list" where
  "net_cck_rates uSupp uBasic =
     net_entry uSupp uBasic DRV_RATE_MASK_1_BARKER NET_RATE_1M_BASIC NET_RATE_1M @
     net_entry uSupp uBasic DRV_RATE_MASK_2_BARKER NET_RATE_2M_BASIC NET_RATE_2M @
     net_entry uSupp uBasic DRV_RATE_MASK_5_5_CCK NET_RATE_5_5M_BASIC NET_RATE_5_5M @
     net_entry uSupp uBasic DRV_RATE_MASK_11_CCK NET_RATE_11M_BASIC NET_RATE_11M @
     net_entry uSupp uBasic DRV_RATE_MASK_22_PBCC NET_RATE_22M_BASIC NET_RATE_22M"

definition net_ofdm_rates :: "u32 \<Rightarrow> u32 \<Rightarrow> u8 list" where
  "net_ofdm_rates uSupp uBasic =
     net_entry uSupp uBasic DRV_RATE_MASK_6_OFDM NET_RATE_6M_BASIC NET_RATE_6M @
     net_entry uSupp uBasic DRV_RATE_MASK_9_OFDM NET_RATE_9M_BASIC NET_RATE_9M @
     net_entry uSupp uBasic DRV_RATE_MASK_12_OFDM NET_RATE_12M_BASIC NET_RATE_12M @
     net_entry uSupp uBasic DRV_RATE_MASK_18_OFDM NET_RATE_18M_BASIC NET_RATE_18M @
     net_entry uSupp uBasic DRV_RATE_MASK_24_OFDM NET_RATE_24M_BASIC NET_RATE_24M @
     net_entry uSupp uBasic DRV_RATE_MASK_36_OFDM NET_RATE_36M_BASIC NET_RATE_36M @
     net_entry uSupp uBasic DRV_RATE_MASK_48_OFDM NET_RATE_48M_BASIC NET_RATE_48M @
     net_entry uSupp uBasic DRV_RATE_MASK_54_OFDM NET_RATE_54M_BASIC NET_RATE_54M"

definition rate_DrvBitmapToNetStr :: "u32 \<Rightarrow> u32 \<Rightarrow> TI_STATUS \<times> u8 list \<times> u32 \<times> u32" where
  "rate_DrvBitmapToNetStr uSuppRatesBitMap uBasicRatesBitMap =
     (let cck = net_cck_rates uSuppRatesBitMap uBasicRatesBitMap;
          string = cck @ net_ofdm_rates uSuppRatesBitMap uBasicRatesBitMap
      in (TI_OK, string, of_nat (length string), of_nat (length cck)))"

text \<open>The bit a byte of the string adds to the bitmap, none in the default branch.\<close>

definition net_mask :: "u32 \<Rightarrow> u32" where
  "net_mask c = switch
    [([NET_RATE_1M, NET_RATE_1M_BASIC], DRV_RATE_MASK_1_BARKER),
     ([NET_RATE_2M, NET_RATE_2M_BASIC], DRV_RATE_MASK_2_BARKER),
     ([NET_RATE_5_5M, NET_RATE_5_5M_BASIC], DRV_RATE_MASK_5_5_CCK),
     ([NET_RATE_11M, NET_RATE_11M_BASIC], DRV_RATE_MASK_11_CCK),
     ([NET_RATE_22M, NET_RATE_22M_BASIC], DRV_RATE_MASK_22_PBCC),
     ([NET_RATE_6M, NET_RATE_6M_BASIC], DRV_RATE_MASK_6_OFDM),
     ([NET_RATE_9M, NET_RATE_9M_BASIC], DRV_RATE_MASK_9_OFDM),
     ([NET_RATE_12M, NET_RATE_12M_BASIC], DRV_RATE_MASK_12_OFDM),
     ([NET_RATE_18M, NET_RATE_18M_BASIC], DRV_RATE_MASK_18_OFDM),
     ([NET_RATE_24M, NET_RATE_24M_BASIC], DRV_RATE_MASK_24_OFDM),
     ([NET_RATE_36M, NET_RATE_36M_BASIC], DRV_RATE_MASK_36_OFDM),
     ([NET_RATE_48M, NET_RATE_48M_BASIC], DRV_RATE_MASK_48_OFDM),
     ([NET_RATE_54M, NET_RATE_54M_BASIC], DRV_RATE_MASK_54_OFDM),
     ([NET_RATE_MCS0, NET_RATE_MCS0_BASIC], DRV_RATE_MASK_MCS_0_OFDM),
     ([NET_RATE_MCS1, NET_RATE_MCS1_BASIC], DRV_RATE_MASK_MCS_1_OFDM),
     ([NET_RATE_MCS2, NET_RATE_MCS2_BASIC], DRV_RATE_MASK_MCS_2_OFDM),
     ([NET_RATE_MCS3, NET_RATE_MCS3_BASIC], DRV_RATE_MASK_MCS_3_OFDM),
     ([NET_RATE_MCS4, NET_RATE_MCS4_BASIC], DRV_RATE_MASK_MCS_4_OFDM),
     ([NET_RATE_MCS5, NET_RATE_MCS5_BASIC], DRV_RATE_MASK_MCS_5_OFDM),
     ([NET_RATE_MCS6, NET_RATE_MCS6_BASIC], DRV_RATE_MASK_MCS_6_OFDM),
     ([NET_RATE_MCS7, NET_RATE_MCS7_BASIC], DRV_RATE_MASK_MCS_7_OFDM)]
    0 c"

definition rate_NetStrToDrvBitmap :: "u8 list \<Rightarrow> TI_STATUS \<times> u32" where
  "rate_NetStrToDrvBitmap string = (TI_OK, foldl (\<lambda>bm c. bm OR net_mask (ucast c)) 0 string)"

definition net_basic_mask :: "u32 \<Rightarrow> u32" where
  "net_basic_mask c = switch
    [([NET_RATE_1M_BASIC], DRV_RATE_MASK_1_BARKER),
     ([NET_RATE_2M_BASIC], DRV_RATE_MASK_2_BARKER),
     ([NET_RATE_5_5M_BASIC], DRV_RATE_MASK_5_5_CCK),
     ([NET_RATE_11M_BASIC], DRV_RATE_MASK_11_CCK),
     ([NET_RATE_22M_BASIC], DRV_RATE_MASK_22_PBCC),
     ([NET_RATE_6M_BASIC], DRV_RATE_MASK_6_OFDM),
     ([NET_RATE_9M_BASIC], DRV_RATE_MASK_9_OFDM),
     ([NET_RATE_12M_BASIC], DRV_RATE_MASK_12_OFDM),
     ([NET_RATE_18M_BASIC], DRV_RATE_MASK_18_OFDM),
     ([NET_RATE_24M_BASIC], DRV_RATE_MASK_24_OFDM),
     ([NET_RATE_36M_BASIC], DRV_RATE_MASK_36_OFDM),
     ([NET_RATE_48M_BASIC], DRV_RATE_MASK_48_OFDM),
     ([NET_RATE_54M_BASIC], DRV_RATE_MASK_54_OFDM),
     ([NET_RATE_MCS0_BASIC], DRV_RATE_MASK_MCS_0_OFDM),
     ([NET_RATE_MCS1_BASIC], DRV_RATE_MASK_MCS_1_OFDM),
     ([NET_RATE_MCS2_BASIC], DRV_RATE_MASK_MCS_2_OFDM),
     ([NET_RATE_MCS3_BASIC], DRV_RATE_MASK_MCS_3_OFDM),
     ([NET_RATE_MCS4_BASIC], DRV_RATE_MASK_MCS_4_OFDM),
     ([NET_RATE_MCS5_BASIC], DRV_RATE_MASK_MCS_5_OFDM),
     ([NET_RATE_MCS6_BASIC], DRV_RATE_MASK_MCS_6_OFDM),
     ([NET_RATE_MCS7_BASIC], DRV_RATE_MASK_MCS_7_OFDM)]
    0 c"

definition rate_NetBasicStrToDrvBitmap :: "u8 list \<Rightarrow> TI_STATUS \<times> u32" where
  "rate_NetBasicStrToDrvBitmap string = (TI_OK, foldl (\<lambda>bm c. bm OR net_basic_mask (ucast c)) 0 string)"

definition rate_McsNetStrToDrvBitmap :: "u8 list \<Rightarrow> TI_STATUS \<times> u32" where
  "rate_McsNetStrToDrvBitmap string = (TI_OK, push_bit (unat (DRV_RATE_MCS_0 - 1)) (ucast (string ! 0)))"

definition hw_bit :: "u32 \<Rightarrow> u32 \<Rightarrow> u32 \<Rightarrow> u32 \<Rightarrow> u32" where
  "hw_bit uDrvBitMap m b uHwBitMap = (if uDrvBitMap AND m \<noteq> 0 then uHwBitMap OR b else uHwBitMap)"

definition rate_DrvBitmapToHwBitmap :: "u32 \<Rightarrow> TI_STATUS \<times> u32" where
  "rate_DrvBitmapToHwBitmap uDrvBitMap = (TI_OK, foldl (\<lambda>uHwBitMap (m, b). hw_bit uDrvBitMap m b uHwBitMap) 0
    [(DRV_RATE_MASK_1_BARKER, HW_BIT_RATE_1MBPS),
     (DRV_RATE_MASK_2_BARKER, HW_BIT_RATE_2MBPS),
     (DRV_RATE_MASK_5_5_CCK, HW_BIT_RATE_5_5MBPS),
     (DRV_RATE_MASK_11_CCK, HW_BIT_RATE_11MBPS),
     (DRV_RATE_MASK_22_PBCC, HW_BIT_RATE_22MBPS),
     (DRV_RATE_MASK_6_OFDM, HW_BIT_RATE_6MBPS),
     (DRV_RATE_MASK_9_OFDM, HW_BIT_RATE_9MBPS),
     (DRV_RATE_MASK_12_OFDM, HW_BIT_RATE_12MBPS),
     (DRV_RATE_MASK_18_OFDM, HW_BIT_RATE_18MBPS),
     (DRV_RATE_MASK_24_OFDM, HW_BIT_RATE_24MBPS),
     (DRV_RATE_MASK_36_OFDM, HW_BIT_RATE_36MBPS),
     (DRV_RATE_MASK_48_OFDM, HW_BIT_RATE_48MBPS),
     (DRV_RATE_MASK_54_OFDM, HW_BIT_RATE_54MBPS),
     (DRV_RATE_MASK_MCS_0_OFDM, HW_BIT_RATE_MCS_0),
     (DRV_RATE_MASK_MCS_1_OFDM, HW_BIT_RATE_MCS_1),
     (DRV_RATE_MASK_MCS_2_OFDM, HW_BIT_RATE_MCS_2),
     (DRV_RATE_MASK_MCS_3_OFDM, HW_BIT_RATE_MCS_3),
     (DRV_RATE_MASK_MCS_4_OFDM, HW_BIT_RATE_MCS_4),
     (DRV_RATE_MASK_MCS_5_OFDM, HW_BIT_RATE_MCS_5),
     (DRV_RATE_MASK_MCS_6_OFDM, HW_BIT_RATE_MCS_6),
     (DRV_RATE_MASK_MCS_7_OFDM, HW_BIT_RATE_MCS_7)])"

definition rate_PolicyToDrv :: "u32 \<Rightarrow> TI_STATUS \<times> u32" where
  "rate_PolicyToDrv ePolicyRate = switch
    [([txPolicy1], (TI_OK, DRV_RATE_1M)),
     ([txPolicy2], (TI_OK, DRV_RATE_2M)),
     ([txPolicy5_5], (TI_OK, DRV_RATE_5_5M)),
     ([txPolicy11], (TI_OK, DRV_RATE_11M)),
     ([txPolicy22], (TI_OK, DRV_RATE_22M)),
     ([txPolicy6], (TI_OK, DRV_RATE_6M)),
     ([txPolicy9], (TI_OK, DRV_RATE_9M)),
     ([txPolicy12], (TI_OK, DRV_RATE_12M)),
     ([txPolicy18], (TI_OK, DRV_RATE_18M)),
     ([txPolicy24], (TI_OK, DRV_RATE_24M)),
     ([txPolicy36], (TI_OK, DRV_RATE_36M)),
     ([txPolicy48], (TI_OK, DRV_RATE_48M)),
     ([txPolicy54], (TI_OK, DRV_RATE_54M)),
     ([txPolicyMcs0], (TI_OK, DRV_RATE_MCS_0)),
     ([txPolicyMcs1], (TI_OK, DRV_RATE_MCS_1)),
     ([txPolicyMcs2], (TI_OK, DRV_RATE_MCS_2)),
     ([txPolicyMcs3], (TI_OK, DRV_RATE_MCS_3)),
     ([txPolicyMcs4], (TI_OK, DRV_RATE_MCS_4)),
     ([txPolicyMcs5], (TI_OK, DRV_RATE_MCS_5)),
     ([txPolicyMcs6], (TI_OK, DRV_RATE_MCS_6)),
     ([txPolicyMcs7], (TI_OK, DRV_RATE_MCS_7))]
    (TI_NOK, DRV_RATE_INVALID) ePolicyRate"

text \<open>The rate sets of the configuration, one switch for the 2.4 GHz band and one for the 5 GHz band.\<close>

definition basic_set_24 :: "u32 \<Rightarrow> u32" where
  "basic_set_24 eBasicRateSet = switch
    [([BASIC_RATE_SET_1_2], DRV_RATE_MASK_1_BARKER OR DRV_RATE_MASK_2_BARKER),
     ([BASIC_RATE_SET_1_2_5_5_11], DRV_RATE_MASK_1_BARKER OR DRV_RATE_MASK_2_BARKER OR DRV_RATE_MASK_5_5_CCK OR
        DRV_RATE_MASK_11_CCK),
     ([BASIC_RATE_SET_UP_TO_12], DRV_RATE_MASK_1_BARKER OR DRV_RATE_MASK_2_BARKER OR DRV_RATE_MASK_5_5_CCK OR
        DRV_RATE_MASK_11_CCK OR DRV_RATE_MASK_6_OFDM OR DRV_RATE_MASK_9_OFDM OR
        DRV_RATE_MASK_12_OFDM),
     ([BASIC_RATE_SET_UP_TO_18], DRV_RATE_MASK_1_BARKER OR DRV_RATE_MASK_2_BARKER OR DRV_RATE_MASK_5_5_CCK OR
        DRV_RATE_MASK_11_CCK OR DRV_RATE_MASK_6_OFDM OR DRV_RATE_MASK_9_OFDM OR
        DRV_RATE_MASK_12_OFDM OR DRV_RATE_MASK_18_OFDM),
     ([BASIC_RATE_SET_UP_TO_24], DRV_RATE_MASK_1_BARKER OR DRV_RATE_MASK_2_BARKER OR DRV_RATE_MASK_5_5_CCK OR
        DRV_RATE_MASK_11_CCK OR DRV_RATE_MASK_6_OFDM OR DRV_RATE_MASK_9_OFDM OR
        DRV_RATE_MASK_12_OFDM OR DRV_RATE_MASK_18_OFDM OR DRV_RATE_MASK_24_OFDM),
     ([BASIC_RATE_SET_UP_TO_36], DRV_RATE_MASK_1_BARKER OR DRV_RATE_MASK_2_BARKER OR DRV_RATE_MASK_5_5_CCK OR
        DRV_RATE_MASK_11_CCK OR DRV_RATE_MASK_6_OFDM OR DRV_RATE_MASK_9_OFDM OR
        DRV_RATE_MASK_12_OFDM OR DRV_RATE_MASK_18_OFDM OR DRV_RATE_MASK_24_OFDM OR
        DRV_RATE_MASK_36_OFDM),
     ([BASIC_RATE_SET_UP_TO_48], DRV_RATE_MASK_1_BARKER OR DRV_RATE_MASK_2_BARKER OR DRV_RATE_MASK_5_5_CCK OR
        DRV_RATE_MASK_11_CCK OR DRV_RATE_MASK_6_OFDM OR DRV_RATE_MASK_9_OFDM OR
        DRV_RATE_MASK_12_OFDM OR DRV_RATE_MASK_18_OFDM OR DRV_RATE_MASK_24_OFDM OR
        DRV_RATE_MASK_36_OFDM OR DRV_RATE_MASK_48_OFDM),
     ([BASIC_RATE_SET_UP_TO_54], DRV_RATE_MASK_1_BARKER OR DRV_RATE_MASK_2_BARKER OR DRV_RATE_MASK_5_5_CCK OR
        DRV_RATE_MASK_11_CCK OR DRV_RATE_MASK_6_OFDM OR DRV_RATE_MASK_9_OFDM OR
        DRV_RATE_MASK_12_OFDM OR DRV_RATE_MASK_18_OFDM OR DRV_RATE_MASK_24_OFDM OR
        DRV_RATE_MASK_36_OFDM OR DRV_RATE_MASK_48_OFDM OR DRV_RATE_MASK_54_OFDM),
     ([BASIC_RATE_SET_6_12_24], DRV_RATE_MASK_6_OFDM OR DRV_RATE_MASK_12_OFDM OR DRV_RATE_MASK_24_OFDM),
     ([BASIC_RATE_SET_1_2_5_5_6_11_12_24], DRV_RATE_MASK_1_BARKER OR DRV_RATE_MASK_2_BARKER OR DRV_RATE_MASK_5_5_CCK OR
        DRV_RATE_MASK_11_CCK OR DRV_RATE_MASK_6_OFDM OR DRV_RATE_MASK_12_OFDM OR
        DRV_RATE_MASK_24_OFDM),
     ([BASIC_RATE_SET_ALL_MCS_RATES], DRV_RATE_MASK_MCS_0_OFDM OR DRV_RATE_MASK_MCS_1_OFDM OR DRV_RATE_MASK_MCS_2_OFDM OR
        DRV_RATE_MASK_MCS_3_OFDM OR DRV_RATE_MASK_MCS_4_OFDM OR DRV_RATE_MASK_MCS_5_OFDM OR
        DRV_RATE_MASK_MCS_6_OFDM OR DRV_RATE_MASK_MCS_7_OFDM OR DRV_RATE_MASK_1_BARKER OR
        DRV_RATE_MASK_2_BARKER OR DRV_RATE_MASK_5_5_CCK OR DRV_RATE_MASK_11_CCK)]
    (DRV_RATE_MASK_1_BARKER OR DRV_RATE_MASK_2_BARKER) eBasicRateSet"

definition basic_set_5 :: "u32 \<Rightarrow> u32" where
  "basic_set_5 eBasicRateSet = switch
    [([BASIC_RATE_SET_UP_TO_12], DRV_RATE_MASK_6_OFDM OR DRV_RATE_MASK_9_OFDM OR DRV_RATE_MASK_12_OFDM),
     ([BASIC_RATE_SET_UP_TO_18], DRV_RATE_MASK_6_OFDM OR DRV_RATE_MASK_9_OFDM OR DRV_RATE_MASK_12_OFDM OR
        DRV_RATE_MASK_18_OFDM),
     ([BASIC_RATE_SET_UP_TO_24], DRV_RATE_MASK_6_OFDM OR DRV_RATE_MASK_9_OFDM OR DRV_RATE_MASK_12_OFDM OR
        DRV_RATE_MASK_18_OFDM OR DRV_RATE_MASK_24_OFDM),
     ([BASIC_RATE_SET_UP_TO_36], DRV_RATE_MASK_6_OFDM OR DRV_RATE_MASK_9_OFDM OR DRV_RATE_MASK_12_OFDM OR
        DRV_RATE_MASK_18_OFDM OR DRV_RATE_MASK_24_OFDM OR DRV_RATE_MASK_36_OFDM),
     ([BASIC_RATE_SET_UP_TO_48], DRV_RATE_MASK_6_OFDM OR DRV_RATE_MASK_9_OFDM OR DRV_RATE_MASK_12_OFDM OR
        DRV_RATE_MASK_18_OFDM OR DRV_RATE_MASK_24_OFDM OR DRV_RATE_MASK_36_OFDM OR
        DRV_RATE_MASK_48_OFDM),
     ([BASIC_RATE_SET_UP_TO_54], DRV_RATE_MASK_6_OFDM OR DRV_RATE_MASK_9_OFDM OR DRV_RATE_MASK_12_OFDM OR
        DRV_RATE_MASK_18_OFDM OR DRV_RATE_MASK_24_OFDM OR DRV_RATE_MASK_36_OFDM OR
        DRV_RATE_MASK_48_OFDM OR DRV_RATE_MASK_54_OFDM),
     ([BASIC_RATE_SET_6_12_24], DRV_RATE_MASK_6_OFDM OR DRV_RATE_MASK_12_OFDM OR DRV_RATE_MASK_24_OFDM),
     ([BASIC_RATE_SET_ALL_MCS_RATES], DRV_RATE_MASK_MCS_0_OFDM OR DRV_RATE_MASK_MCS_1_OFDM OR DRV_RATE_MASK_MCS_2_OFDM OR
        DRV_RATE_MASK_MCS_3_OFDM OR DRV_RATE_MASK_MCS_4_OFDM OR DRV_RATE_MASK_MCS_5_OFDM OR
        DRV_RATE_MASK_MCS_6_OFDM OR DRV_RATE_MASK_MCS_7_OFDM OR DRV_RATE_MASK_6_OFDM OR
        DRV_RATE_MASK_12_OFDM OR DRV_RATE_MASK_24_OFDM)]
    (DRV_RATE_MASK_6_OFDM OR DRV_RATE_MASK_12_OFDM OR DRV_RATE_MASK_24_OFDM) eBasicRateSet"

definition rate_BasicToDrvBitmap :: "u32 \<Rightarrow> bool \<Rightarrow> u32" where
  "rate_BasicToDrvBitmap eBasicRateSet bDot11a = (if \<not> bDot11a then basic_set_24 eBasicRateSet else basic_set_5 eBasicRateSet)"

definition supported_set_24 :: "u32 \<Rightarrow> u32" where
  "supported_set_24 eSupportedRateSet = switch
    [([SUPPORTED_RATE_SET_1_2], DRV_RATE_MASK_1_BARKER OR DRV_RATE_MASK_2_BARKER),
     ([SUPPORTED_RATE_SET_1_2_5_5_11], DRV_RATE_MASK_1_BARKER OR DRV_RATE_MASK_2_BARKER OR DRV_RATE_MASK_5_5_CCK OR
        DRV_RATE_MASK_11_CCK),
     ([SUPPORTED_RATE_SET_1_2_5_5_11_22], DRV_RATE_MASK_1_BARKER OR DRV_RATE_MASK_2_BARKER OR DRV_RATE_MASK_5_5_CCK OR
        DRV_RATE_MASK_11_CCK OR DRV_RATE_MASK_22_PBCC),
     ([SUPPORTED_RATE_SET_UP_TO_18], DRV_RATE_MASK_1_BARKER OR DRV_RATE_MASK_2_BARKER OR DRV_RATE_MASK_5_5_CCK OR
        DRV_RATE_MASK_11_CCK OR DRV_RATE_MASK_6_OFDM OR DRV_RATE_MASK_9_OFDM OR
        DRV_RATE_MASK_12_OFDM OR DRV_RATE_MASK_18_OFDM),
     ([SUPPORTED_RATE_SET_UP_TO_24], DRV_RATE_MASK_1_BARKER OR DRV_RATE_MASK_2_BARKER OR DRV_RATE_MASK_5_5_CCK OR
        DRV_RATE_MASK_11_CCK OR DRV_RATE_MASK_6_OFDM OR DRV_RATE_MASK_9_OFDM OR
        DRV_RATE_MASK_12_OFDM OR DRV_RATE_MASK_18_OFDM OR DRV_RATE_MASK_24_OFDM),
     ([SUPPORTED_RATE_SET_UP_TO_36], DRV_RATE_MASK_1_BARKER OR DRV_RATE_MASK_2_BARKER OR DRV_RATE_MASK_5_5_CCK OR
        DRV_RATE_MASK_11_CCK OR DRV_RATE_MASK_6_OFDM OR DRV_RATE_MASK_9_OFDM OR
        DRV_RATE_MASK_12_OFDM OR DRV_RATE_MASK_18_OFDM OR DRV_RATE_MASK_24_OFDM OR
        DRV_RATE_MASK_36_OFDM),
     ([SUPPORTED_RATE_SET_UP_TO_48], DRV_RATE_MASK_1_BARKER OR DRV_RATE_MASK_2_BARKER OR DRV_RATE_MASK_5_5_CCK OR
        DRV_RATE_MASK_11_CCK OR DRV_RATE_MASK_6_OFDM OR DRV_RATE_MASK_9_OFDM OR
        DRV_RATE_MASK_12_OFDM OR DRV_RATE_MASK_18_OFDM OR DRV_RATE_MASK_24_OFDM OR
        DRV_RATE_MASK_36_OFDM OR DRV_RATE_MASK_48_OFDM),
     ([SUPPORTED_RATE_SET_UP_TO_54], DRV_RATE_MASK_1_BARKER OR DRV_RATE_MASK_2_BARKER OR DRV_RATE_MASK_5_5_CCK OR
        DRV_RATE_MASK_11_CCK OR DRV_RATE_MASK_6_OFDM OR DRV_RATE_MASK_9_OFDM OR
        DRV_RATE_MASK_12_OFDM OR DRV_RATE_MASK_18_OFDM OR DRV_RATE_MASK_24_OFDM OR
        DRV_RATE_MASK_36_OFDM OR DRV_RATE_MASK_48_OFDM OR DRV_RATE_MASK_54_OFDM),
     ([SUPPORTED_RATE_SET_ALL], DRV_RATE_MASK_1_BARKER OR DRV_RATE_MASK_2_BARKER OR DRV_RATE_MASK_5_5_CCK OR
        DRV_RATE_MASK_11_CCK OR DRV_RATE_MASK_22_PBCC OR DRV_RATE_MASK_6_OFDM OR
        DRV_RATE_MASK_9_OFDM OR DRV_RATE_MASK_12_OFDM OR DRV_RATE_MASK_18_OFDM OR
        DRV_RATE_MASK_24_OFDM OR DRV_RATE_MASK_36_OFDM OR DRV_RATE_MASK_48_OFDM OR
        DRV_RATE_MASK_54_OFDM),
     ([SUPPORTED_RATE_SET_ALL_OFDM], DRV_RATE_MASK_6_OFDM OR DRV_RATE_MASK_9_OFDM OR DRV_RATE_MASK_12_OFDM OR
        DRV_RATE_MASK_18_OFDM OR DRV_RATE_MASK_24_OFDM OR DRV_RATE_MASK_36_OFDM OR
        DRV_RATE_MASK_48_OFDM OR DRV_RATE_MASK_54_OFDM),
     ([SUPPORTED_RATE_SET_ALL_MCS_RATES], DRV_RATE_MASK_MCS_0_OFDM OR DRV_RATE_MASK_MCS_1_OFDM OR DRV_RATE_MASK_MCS_2_OFDM OR
        DRV_RATE_MASK_MCS_3_OFDM OR DRV_RATE_MASK_MCS_4_OFDM OR DRV_RATE_MASK_MCS_5_OFDM OR
        DRV_RATE_MASK_MCS_6_OFDM OR DRV_RATE_MASK_MCS_7_OFDM OR DRV_RATE_MASK_1_BARKER OR
        DRV_RATE_MASK_2_BARKER OR DRV_RATE_MASK_5_5_CCK OR DRV_RATE_MASK_11_CCK OR
        DRV_RATE_MASK_22_PBCC OR DRV_RATE_MASK_6_OFDM OR DRV_RATE_MASK_9_OFDM OR
        DRV_RATE_MASK_12_OFDM OR DRV_RATE_MASK_18_OFDM OR DRV_RATE_MASK_24_OFDM OR
        DRV_RATE_MASK_36_OFDM OR DRV_RATE_MASK_48_OFDM OR DRV_RATE_MASK_54_OFDM)]
    (DRV_RATE_MASK_1_BARKER OR DRV_RATE_MASK_2_BARKER OR DRV_RATE_MASK_5_5_CCK OR
        DRV_RATE_MASK_11_CCK OR DRV_RATE_MASK_22_PBCC OR DRV_RATE_MASK_6_OFDM OR
        DRV_RATE_MASK_9_OFDM OR DRV_RATE_MASK_12_OFDM OR DRV_RATE_MASK_18_OFDM OR
        DRV_RATE_MASK_24_OFDM OR DRV_RATE_MASK_36_OFDM OR DRV_RATE_MASK_48_OFDM OR
        DRV_RATE_MASK_54_OFDM) eSupportedRateSet"

definition supported_set_5 :: "u32 \<Rightarrow> u32" where
  "supported_set_5 eSupportedRateSet = switch
    [([SUPPORTED_RATE_SET_UP_TO_18], DRV_RATE_MASK_6_OFDM OR DRV_RATE_MASK_9_OFDM OR DRV_RATE_MASK_12_OFDM OR
        DRV_RATE_MASK_18_OFDM),
     ([SUPPORTED_RATE_SET_UP_TO_24], DRV_RATE_MASK_6_OFDM OR DRV_RATE_MASK_9_OFDM OR DRV_RATE_MASK_12_OFDM OR
        DRV_RATE_MASK_18_OFDM OR DRV_RATE_MASK_24_OFDM),
     ([SUPPORTED_RATE_SET_UP_TO_36], DRV_RATE_MASK_6_OFDM OR DRV_RATE_MASK_9_OFDM OR DRV_RATE_MASK_12_OFDM OR
        DRV_RATE_MASK_18_OFDM OR DRV_RATE_MASK_24_OFDM OR DRV_RATE_MASK_36_OFDM),
     ([SUPPORTED_RATE_SET_UP_TO_48], DRV_RATE_MASK_6_OFDM OR DRV_RATE_MASK_9_OFDM OR DRV_RATE_MASK_12_OFDM OR
        DRV_RATE_MASK_18_OFDM OR DRV_RATE_MASK_24_OFDM OR DRV_RATE_MASK_36_OFDM OR
        DRV_RATE_MASK_48_OFDM),
     ([SUPPORTED_RATE_SET_UP_TO_54], DRV_RATE_MASK_6_OFDM OR DRV_RATE_MASK_9_OFDM OR DRV_RATE_MASK_12_OFDM OR
        DRV_RATE_MASK_18_OFDM OR DRV_RATE_MASK_24_OFDM OR DRV_RATE_MASK_36_OFDM OR
        DRV_RATE_MASK_48_OFDM OR DRV_RATE_MASK_54_OFDM),
     ([SUPPORTED_RATE_SET_ALL, SUPPORTED_RATE_SET_ALL_OFDM], DRV_RATE_MASK_6_OFDM OR DRV_RATE_MASK_9_OFDM OR DRV_RATE_MASK_12_OFDM OR
        DRV_RATE_MASK_18_OFDM OR DRV_RATE_MASK_24_OFDM OR DRV_RATE_MASK_36_OFDM OR
        DRV_RATE_MASK_48_OFDM OR DRV_RATE_MASK_54_OFDM),
     ([SUPPORTED_RATE_SET_ALL_MCS_RATES], DRV_RATE_MASK_MCS_0_OFDM OR DRV_RATE_MASK_MCS_1_OFDM OR DRV_RATE_MASK_MCS_2_OFDM OR
        DRV_RATE_MASK_MCS_3_OFDM OR DRV_RATE_MASK_MCS_4_OFDM OR DRV_RATE_MASK_MCS_5_OFDM OR
        DRV_RATE_MASK_MCS_6_OFDM OR DRV_RATE_MASK_MCS_7_OFDM OR DRV_RATE_MASK_6_OFDM OR
        DRV_RATE_MASK_9_OFDM OR DRV_RATE_MASK_12_OFDM OR DRV_RATE_MASK_18_OFDM OR
        DRV_RATE_MASK_24_OFDM OR DRV_RATE_MASK_36_OFDM OR DRV_RATE_MASK_48_OFDM OR
        DRV_RATE_MASK_54_OFDM)]
    (DRV_RATE_MASK_6_OFDM OR DRV_RATE_MASK_9_OFDM OR DRV_RATE_MASK_12_OFDM OR
        DRV_RATE_MASK_18_OFDM OR DRV_RATE_MASK_24_OFDM OR DRV_RATE_MASK_36_OFDM OR
        DRV_RATE_MASK_48_OFDM OR DRV_RATE_MASK_54_OFDM) eSupportedRateSet"

definition rate_SupportedToDrvBitmap :: "u32 \<Rightarrow> bool \<Rightarrow> u32" where
  "rate_SupportedToDrvBitmap eSupportedRateSet bDot11a = (if \<not> bDot11a then supported_set_24 eSupportedRateSet else supported_set_5 eSupportedRateSet)"

abbreviation (input) CCK_MASK :: "u32" where "CCK_MASK \<equiv> DRV_RATE_MASK_1_BARKER OR DRV_RATE_MASK_2_BARKER OR DRV_RATE_MASK_5_5_CCK OR
  DRV_RATE_MASK_11_CCK OR DRV_RATE_MASK_22_PBCC"

definition rate_ValidateVsBand :: "u32 \<Rightarrow> u32 \<Rightarrow> bool \<Rightarrow> TI_STATUS \<times> u32 \<times> u32" where
  "rate_ValidateVsBand supportedMask basicMask bDot11a =
     (let supp = (if bDot11a then supportedMask AND NOT CCK_MASK else supportedMask);
          basic = basicMask AND supp;
          basic' = (if basic = 0
                    then (if bDot11a then DRV_RATE_MASK_6_OFDM OR DRV_RATE_MASK_12_OFDM OR DRV_RATE_MASK_24_OFDM
                          else DRV_RATE_MASK_1_BARKER OR DRV_RATE_MASK_2_BARKER)
                    else basic)
      in (TI_OK, supp, basic'))"

definition rate_NumberToDrv :: "u32 \<Rightarrow> u32" where
  "rate_NumberToDrv rate = switch
    [([0x1], DRV_RATE_1M),
     ([0x2], DRV_RATE_2M),
     ([0x5], DRV_RATE_5_5M),
     ([0xB], DRV_RATE_11M),
     ([0x16], DRV_RATE_22M),
     ([0x6], DRV_RATE_6M),
     ([0x9], DRV_RATE_9M),
     ([0xC], DRV_RATE_12M),
     ([0x12], DRV_RATE_18M),
     ([0x18], DRV_RATE_24M),
     ([0x24], DRV_RATE_36M),
     ([0x30], DRV_RATE_48M),
     ([0x36], DRV_RATE_54M),
     ([0x7], DRV_RATE_MCS_0),
     ([0xD], DRV_RATE_MCS_1),
     ([0x13], DRV_RATE_MCS_2),
     ([0x1A], DRV_RATE_MCS_3),
     ([0x27], DRV_RATE_MCS_4),
     ([0x34], DRV_RATE_MCS_5),
     ([0x3A], DRV_RATE_MCS_6),
     ([0x41], DRV_RATE_MCS_7)]
    DRV_RATE_6M rate"

definition rate_GetDrvBitmapForDefaultBasicSet :: u32 where
  "rate_GetDrvBitmapForDefaultBasicSet = rate_BasicToDrvBitmap BASIC_RATE_SET_1_2_5_5_11 False"

definition rate_GetDrvBitmapForDefaultSupporteSet :: u32 where
  "rate_GetDrvBitmapForDefaultSupporteSet = rate_SupportedToDrvBitmap SUPPORTED_RATE_SET_1_2_5_5_11 False"

section \<open>Bits and masks\<close>

lemma RATE_TO_MASK_eval [simp]:
  "RATE_TO_MASK 1 = 0x1" "RATE_TO_MASK 2 = 0x2" "RATE_TO_MASK 3 = 0x4" "RATE_TO_MASK 4 = 0x8"
  "RATE_TO_MASK 5 = 0x10" "RATE_TO_MASK 6 = 0x20" "RATE_TO_MASK 7 = 0x40" "RATE_TO_MASK 8 = 0x80"
  "RATE_TO_MASK 9 = 0x100" "RATE_TO_MASK 10 = 0x200" "RATE_TO_MASK 11 = 0x400" "RATE_TO_MASK 12 = 0x800"
  "RATE_TO_MASK 13 = 0x1000" "RATE_TO_MASK 14 = 0x2000" "RATE_TO_MASK 15 = 0x4000"
  "RATE_TO_MASK 16 = 0x8000" "RATE_TO_MASK 17 = 0x10000" "RATE_TO_MASK 18 = 0x20000"
  "RATE_TO_MASK 19 = 0x40000" "RATE_TO_MASK 20 = 0x80000" "RATE_TO_MASK 21 = 0x100000"
  by (simp_all add: RATE_TO_MASK_def push_bit_eq_mult)

lemma and_mask_cases:
  assumes "m = push_bit n (1 :: u32)"
  shows "(if x AND m \<noteq> 0 then m else 0) = x AND m"
proof -
  have "x AND m = (if bit x n then m else 0)"
    unfolding assms by (rule bit_word_eqI) (auto simp: bit_simps)
  then show ?thesis by simp
qed

lemma mask_cases:
  assumes "r \<in> {1..21}"
  shows "(if x AND RATE_TO_MASK r \<noteq> 0 then RATE_TO_MASK r else 0) = x AND RATE_TO_MASK r"
  by (rule and_mask_cases) (simp add: RATE_TO_MASK_def)

lemma foldl_or:
  "foldl (\<lambda>b x. b OR f x) b xs = b OR foldl (\<lambda>b x. b OR f x) 0 (xs :: 'b list)"
  for b :: u32
proof (induction xs arbitrary: b)
  case (Cons x xs)
  show ?case
    using Cons [of "b OR f x"] Cons [of "0 OR f x"] by (simp add: or.assoc)
qed simp

lemma foldl_or_append:
  "foldl (\<lambda>b x. b OR f x) 0 (xs @ ys) = foldl (\<lambda>b x. b OR f x) (0 :: u32) xs OR foldl (\<lambda>b x. b OR f x) 0 ys"
  by (simp only: foldl_append) (rule foldl_or)

definition drv_rates :: "u32 list" where
  "drv_rates = [1, 2, 3, 4, 5, 6, 7, 8, 9, 10, 11, 12, 13, 14, 15, 16, 17, 18, 19, 20, 21]"

section \<open>Codes\<close>

lemma switch_default: "\<forall>(ls, r) \<in> set cs. x \<notin> set ls \<Longrightarrow> switch cs d x = d"
  by (induction cs d x rule: switch.induct) auto

lemma net_code_of_drv:
  "r \<in> set drv_rates \<Longrightarrow> rate_NetToDrv (rate_DrvToNet r) = r \<and>
     rate_NetToDrv (rate_DrvToNet r OR NET_BASIC_MASK) = r"
proof -
  have "list_all (\<lambda>r. rate_NetToDrv (rate_DrvToNet r) = r \<and>
      rate_NetToDrv (rate_DrvToNet r OR NET_BASIC_MASK) = r) drv_rates"
    by (simp add: drv_rates_def rate_NetToDrv_def rate_DrvToNet_def)
  then show "r \<in> set drv_rates \<Longrightarrow> ?thesis" by (simp add: list_all_iff)
qed

definition net_codes :: "u32 list" where
  "net_codes = concat (map (\<lambda>r. [rate_DrvToNet r, rate_DrvToNet r OR NET_BASIC_MASK]) drv_rates)"

lemma net_codes_eval:
  "net_codes = [0x02, 0x82, 0x04, 0x84, 0x0B, 0x8B, 0x16, 0x96, 0x2C, 0xAC, 0x0C, 0x8C, 0x12, 0x92, 0x18, 0x98,
     0x24, 0xA4, 0x30, 0xB0, 0x48, 0xC8, 0x60, 0xE0, 0x6C, 0xEC, 0x0D, 0x8D, 0x1A, 0x9A, 0x27, 0xA7,
     0x34, 0xB4, 0x4E, 0xCE, 0x68, 0xE8, 0x75, 0xF5, 0x7F, 0xFF]"
  by (simp add: net_codes_def drv_rates_def rate_DrvToNet_def)

lemma basic_bit_off:
  fixes x :: u32
  assumes "x AND m = 0" and "n = x \<or> n = x OR m"
  shows "n AND NOT m = x"
proof (rule bit_word_eqI)
  fix i assume "i < LENGTH(32)"
  have "\<not> (bit x i \<and> bit m i)" using assms(1) by (metis bit_and_iff bit_0_eq bot_apply bot_bool_def)
  then show "bit (n AND NOT m) i = bit x i"
    using assms(2) \<open>i < LENGTH(32)\<close> by (auto simp: bit_simps)
qed

lemma drv_code_of_net:
  assumes "rate_NetToDrv n \<noteq> DRV_RATE_INVALID"
  shows "rate_NetToDrv n \<in> set drv_rates \<and> rate_DrvToNet (rate_NetToDrv n) = n AND NOT NET_BASIC_MASK"
proof -
  have "n \<in> set net_codes"
  proof (rule ccontr)
    assume "n \<notin> set net_codes"
    then have "rate_NetToDrv n = DRV_RATE_INVALID"
      unfolding rate_NetToDrv_def by (intro switch_default) (simp add: net_codes_eval)
    then show False using assms by simp
  qed
  then obtain r where r: "r \<in> set drv_rates" "n = rate_DrvToNet r \<or> n = rate_DrvToNet r OR NET_BASIC_MASK"
    by (auto simp: net_codes_def)
  have "list_all (\<lambda>r. rate_DrvToNet r AND NET_BASIC_MASK = 0) drv_rates"
    by (simp add: drv_rates_def rate_DrvToNet_def)
  then have "rate_DrvToNet r AND NET_BASIC_MASK = 0" using r(1) by (simp add: list_all_iff)
  then have "n AND NOT NET_BASIC_MASK = rate_DrvToNet r" using r(2) by (rule basic_bit_off)
  then show ?thesis using net_code_of_drv [OF r(1)] r by auto
qed

section \<open>Rate strings\<close>

lemma net_masks_eval:
  "list_all (\<lambda>r. net_mask (rate_DrvToNet r) = RATE_TO_MASK r \<and>
     net_mask (rate_DrvToNet r OR NET_BASIC_MASK) = RATE_TO_MASK r \<and>
     net_basic_mask (rate_DrvToNet r) = 0 \<and>
     net_basic_mask (rate_DrvToNet r OR NET_BASIC_MASK) = RATE_TO_MASK r \<and>
     rate_DrvToNet r < 0x80) drv_rates"
  by (simp add: drv_rates_def rate_DrvToNet_def net_mask_def net_basic_mask_def)

lemma ucast_byte: "ucast (ucast x :: u8) = take_bit 8 (x :: u32)"
  by (rule bit_word_eqI) (auto simp: bit_simps)

lemma take_byte: "x < (0x80 :: u32) \<Longrightarrow> take_bit 8 x = x"
  by (simp add: word_unat_eq_iff unsigned_take_bit_eq word_less_nat_alt take_bit_nat_eq_self)

lemma ucast_net_code:
  assumes "n < (0x80 :: u32)"
  shows "ucast (ucast n :: u8) = n" "ucast (ucast (n OR 0x80) :: u8) = n OR 0x80"
  using assms by (simp_all add: ucast_byte take_byte)

text \<open>What one entry of the string contributes to the two bitmaps read back from it.\<close>

lemma net_entry_bits:
  assumes "r \<in> set drv_rates"
  shows "foldl (\<lambda>bm c. bm OR net_mask (ucast c)) 0
      (net_entry supp basic (RATE_TO_MASK r) (rate_DrvToNet r OR NET_BASIC_MASK) (rate_DrvToNet r)) =
      supp AND RATE_TO_MASK r"
    and "foldl (\<lambda>bm c. bm OR net_basic_mask (ucast c)) 0
      (net_entry supp basic (RATE_TO_MASK r) (rate_DrvToNet r OR NET_BASIC_MASK) (rate_DrvToNet r)) =
      (supp AND basic) AND RATE_TO_MASK r"
proof -
  have r: "r \<in> {1..21}" using assms by (auto simp: drv_rates_def)
  have m: "net_mask (rate_DrvToNet r) = RATE_TO_MASK r"
      "net_mask (rate_DrvToNet r OR NET_BASIC_MASK) = RATE_TO_MASK r" "net_basic_mask (rate_DrvToNet r) = 0"
      "net_basic_mask (rate_DrvToNet r OR NET_BASIC_MASK) = RATE_TO_MASK r" "rate_DrvToNet r < 0x80"
    using net_masks_eval assms by (simp_all add: list_all_iff)
  note c = ucast_net_code [OF m(5)]
  show "foldl (\<lambda>bm c. bm OR net_mask (ucast c)) 0
      (net_entry supp basic (RATE_TO_MASK r) (rate_DrvToNet r OR NET_BASIC_MASK) (rate_DrvToNet r)) =
      supp AND RATE_TO_MASK r"
    using m c mask_cases [OF r, of supp] by (auto simp: net_entry_def split: if_splits)
  have b: "(supp AND basic) AND RATE_TO_MASK r =
      (if supp AND RATE_TO_MASK r \<noteq> 0 \<and> basic AND RATE_TO_MASK r \<noteq> 0 then RATE_TO_MASK r else 0)"
    using mask_cases [OF r, of supp] mask_cases [OF r, of basic]
    by (auto simp: and.assoc and.left_commute split: if_splits)
  show "foldl (\<lambda>bm c. bm OR net_basic_mask (ucast c)) 0
      (net_entry supp basic (RATE_TO_MASK r) (rate_DrvToNet r OR NET_BASIC_MASK) (rate_DrvToNet r)) =
      (supp AND basic) AND RATE_TO_MASK r"
    unfolding b using m c by (auto simp: net_entry_def)
qed

definition net_entries :: "u32 \<Rightarrow> u32 \<Rightarrow> u32 list \<Rightarrow> u8 list" where
  "net_entries supp basic rs = concat (map (\<lambda>r. net_entry supp basic (RATE_TO_MASK r)
     (rate_DrvToNet r OR NET_BASIC_MASK) (rate_DrvToNet r)) rs)"

lemma net_entries_bits:
  assumes "set rs \<subseteq> set drv_rates"
  shows "rate_NetStrToDrvBitmap (net_entries supp basic rs) = (TI_OK, supp AND foldr (\<lambda>r m. RATE_TO_MASK r OR m) rs 0)"
    and "rate_NetBasicStrToDrvBitmap (net_entries supp basic rs) =
      (TI_OK, (supp AND basic) AND foldr (\<lambda>r m. RATE_TO_MASK r OR m) rs 0)"
    and "length (net_entries supp basic rs) \<le> length rs"
proof -
  have len: "length (net_entry supp basic m b p) \<le> 1" for m b p by (simp add: net_entry_def)
  show "length (net_entries supp basic rs) \<le> length rs"
  proof (induction rs)
    case (Cons r rs)
    then show ?case
      using len [of "RATE_TO_MASK r" "rate_DrvToNet r OR NET_BASIC_MASK" "rate_DrvToNet r"]
      by (simp add: net_entries_def)
  qed (simp add: net_entries_def)
qed (use assms in \<open>induction rs; auto simp: net_entries_def rate_NetStrToDrvBitmap_def
  rate_NetBasicStrToDrvBitmap_def foldl_or_append net_entry_bits bit.conj_disj_distrib
  simp del: foldl_append RATE_TO_MASK_eval\<close>)+

lemma net_rates_entries:
  "net_cck_rates supp basic = net_entries supp basic [1, 2, 3, 4, 5]"
  "net_ofdm_rates supp basic = net_entries supp basic [6, 7, 8, 9, 10, 11, 12, 13]"
  by (simp_all add: net_entries_def net_cck_rates_def net_ofdm_rates_def rate_DrvToNet_def del: RATE_TO_MASK_eval)

section \<open>The order of the rates\<close>

text \<open>
  The firmware's rate policies are indexed from the fastest rate to the slowest; the firmware's
  rate bits are numbered the other way round.
\<close>

definition policy_rates :: "u32 list" where
  "policy_rates = map (\<lambda>p. snd (rate_PolicyToDrv (of_nat p))) [0..<21]"

lemma policy_rates_eval:
  "policy_rates = [21, 20, 19, 18, 17, 16, 15, 14, 13, 12, 11, 10, 5, 9, 8, 4, 7, 6, 3, 2, 1]"
  by (simp add: policy_rates_def rate_PolicyToDrv_def upt_rec)

lemma hw_bitmap_bit:
  "bit (foldl (\<lambda>w (m, b). hw_bit x m b w) w ps) n \<longleftrightarrow> bit w n \<or> (\<exists>(m, b) \<in> set ps. x AND m \<noteq> 0 \<and> bit b n)"
  by (induction ps arbitrary: w) (auto simp: hw_bit_def bit_simps split: if_splits)

definition hw_pair :: "nat \<Rightarrow> u32 \<times> u32" where
  "hw_pair k = (RATE_TO_MASK (policy_rates ! (20 - k)), push_bit k 1)"

definition hw_order :: "nat list" where
  "hw_order = [0, 1, 2, 5, 8, 3, 4, 6, 7, 9, 10, 11, 12, 13, 14, 15, 16, 17, 18, 19, 20]"

lemma hw_order_set: "k \<in> set hw_order \<longleftrightarrow> k < 21"
  by (simp add: hw_order_def) presburger

lemma hw_bitmap_pairs:
  "snd (rate_DrvBitmapToHwBitmap x) = foldl (\<lambda>w (m, b). hw_bit x m b w) 0 (map hw_pair hw_order)"
  by (simp add: rate_DrvBitmapToHwBitmap_def hw_pair_def policy_rates_eval hw_order_def)

lemma max_policy_order:
  "rate_GetMaxFromDrvBitmap b =
     (case find (\<lambda>r. b AND RATE_TO_MASK r \<noteq> 0) policy_rates of None \<Rightarrow> DRV_RATE_INVALID | Some r \<Rightarrow> r)"
  unfolding policy_rates_eval rate_GetMaxFromDrvBitmap_def
  by (simp only: find.simps if_distrib [where f = "case_option _ _"] option.case)

lemma find_sorted:
  "sorted_wrt R xs \<Longrightarrow> x \<in> set xs \<Longrightarrow> P x \<Longrightarrow> \<exists>y. find P xs = Some y \<and> P y \<and> (y = x \<or> R y x)"
  by (induction xs) auto

definition legacy_rates :: "u32 list" where
  "legacy_rates = drop 8 policy_rates"

lemma legacy_rates_sorted: "sorted_wrt (\<lambda>r r'. rate_DrvToNumber r' \<le> rate_DrvToNumber r) legacy_rates"
  by (simp add: legacy_rates_def policy_rates_eval rate_DrvToNumber_def)

lemma no_mcs:
  assumes "b AND NOT 0x1FFF = 0" and "m AND 0x1FFF = (0 :: u32)"
  shows "b AND m = 0"
proof -
  have "b AND m = (b AND NOT 0x1FFF) AND m OR b AND (m AND 0x1FFF)"
    by (rule bit_word_eqI) (auto simp: bit_simps)
  then show ?thesis using assms by simp
qed

lemma find_no_mcs:
  assumes "b AND NOT 0x1FFF = 0"
  shows "find (\<lambda>r. b AND RATE_TO_MASK r \<noteq> 0) policy_rates = find (\<lambda>r. b AND RATE_TO_MASK r \<noteq> 0) legacy_rates"
  by (simp add: legacy_rates_def policy_rates_eval no_mcs [OF assms])

section \<open>Rate sets and bands\<close>

lemma and_sub:
  fixes x y m :: u32
  shows "(x AND y) AND NOT y = 0" "(x AND NOT m) AND m = 0" "(x AND m) AND NOT x = 0"
  by (rule bit_word_eqI; auto simp: bit_simps)+

lemma supported_24_cck: "s \<noteq> SUPPORTED_RATE_SET_ALL_OFDM \<Longrightarrow> NOT (supported_set_24 s) AND 0x3 = 0"
  by (simp add: supported_set_24_def)

lemma supported_24_ofdm: "supported_set_24 SUPPORTED_RATE_SET_ALL_OFDM = 0x1FE0"
  by (simp add: supported_set_24_def)

lemma sets_5_bit:
  "bit (supported_set_5 s) 5" "bit (basic_set_5 b) 5"
  by (simp_all add: supported_set_5_def basic_set_5_def)

section \<open>Properties\<close>

text \<open>
  C28: a rate string is read back to the bitmaps it was written from.  The string for supported and
  basic rates has at most 13 bytes and its length is reported; read as supported rates it gives the
  supported rates other than the MCS rates, which strings do not carry; read as basic rates it gives
  those of them that are basic; and the bytes before the reported position are the CCK and PBCC rates.
\<close>

theorem rate_string_roundtrip:
  "case rate_DrvBitmapToNetStr supp basic of (st, str, len, firstOfdm) \<Rightarrow>
     st = TI_OK \<and> length str \<le> 13 \<and> unat len = length str \<and>
     rate_NetStrToDrvBitmap str = (TI_OK, supp AND 0x1FFF) \<and>
     rate_NetBasicStrToDrvBitmap str = (TI_OK, (supp AND basic) AND 0x1FFF) \<and>
     rate_NetStrToDrvBitmap (take (unat firstOfdm) str) = (TI_OK, supp AND 0x1F)"
proof -
  let ?c = "net_entries supp basic [1, 2, 3, 4, 5]"
    and ?all = "net_entries supp basic [1, 2, 3, 4, 5, 6, 7, 8, 9, 10, 11, 12, 13]"
  have sub: "set [1, 2, 3, 4, 5] \<subseteq> set drv_rates" "set [1, 2, 3, 4, 5, 6, 7, 8, 9, 10, 11, 12, 13] \<subseteq> set drv_rates"
    by (simp_all add: drv_rates_def)
  note c = net_entries_bits [OF sub(1), of supp basic] and a = net_entries_bits [OF sub(2), of supp basic]
  have app: "?all = ?c @ net_ofdm_rates supp basic"
    by (simp add: net_rates_entries net_entries_def)
  have res: "rate_DrvBitmapToNetStr supp basic = (TI_OK, ?all, of_nat (length ?all), of_nat (length ?c))"
    by (simp only: rate_DrvBitmapToNetStr_def Let_def net_rates_entries(1) app)
  have len: "length ?all \<le> 13" "length ?c \<le> 13" using a(3) c(3) by simp_all
  then have "unat (of_nat (length ?all) :: u32) = length ?all" "unat (of_nat (length ?c) :: u32) = length ?c"
    by (simp_all add: unsigned_of_nat take_bit_nat_eq_self)
  moreover have "take (length ?c) ?all = ?c" by (simp add: app)
  ultimately show ?thesis using a c len unfolding res by simp
qed

text \<open>
  Driver codes and the codes of rate elements are inverse to each other.  Every rate of the driver
  survives the way through its network code, with or without the basic bit, and every network code
  that is accepted comes back without its basic bit.
\<close>

lemma rate_code_roundtrip:
  "(r \<in> set drv_rates \<longrightarrow> rate_NetToDrv (rate_DrvToNet r) = r \<and>
      rate_NetToDrv (rate_DrvToNet r OR NET_BASIC_MASK) = r) \<and>
   (rate_NetToDrv n \<noteq> DRV_RATE_INVALID \<longrightarrow> rate_DrvToNet (rate_NetToDrv n) = n AND NOT NET_BASIC_MASK)"
  using net_code_of_drv [of r] drv_code_of_net [of n] by blast

text \<open>
  Without MCS rates the maximum is the fastest: the bitmap has it, and no rate of the bitmap
  has a larger number.
\<close>

lemma rate_max_is_fastest:
  assumes "b AND NOT 0x1FFF = 0" and "r \<in> set drv_rates" and "b AND RATE_TO_MASK r \<noteq> 0"
  shows "b AND RATE_TO_MASK (rate_GetMaxFromDrvBitmap b) \<noteq> 0 \<and>
    rate_DrvToNumber r \<le> rate_DrvToNumber (rate_GetMaxFromDrvBitmap b)"
proof -
  have "r \<in> set legacy_rates"
    using assms(2,3) no_mcs [OF assms(1)] by (auto simp: drv_rates_def legacy_rates_def policy_rates_eval)
  then obtain y where "find (\<lambda>r. b AND RATE_TO_MASK r \<noteq> 0) legacy_rates = Some y" "b AND RATE_TO_MASK y \<noteq> 0"
      "y = r \<or> rate_DrvToNumber r \<le> rate_DrvToNumber y"
    using find_sorted [OF legacy_rates_sorted, of r "\<lambda>r. b AND RATE_TO_MASK r \<noteq> 0"] assms(3) by blast
  then show ?thesis by (auto simp: max_policy_order find_no_mcs [OF assms(1)])
qed

text \<open>
  C29: the firmware's bitmap has bit \<open>k\<close> exactly when the driver's bitmap has the rate of policy
  \<open>20 - k\<close>, for the 21 known rates, and no other bit.
\<close>

theorem rate_hw_bitmap_bits:
  "bit (snd (rate_DrvBitmapToHwBitmap b)) k \<longleftrightarrow>
     k < 21 \<and> b AND RATE_TO_MASK (policy_rates ! (20 - k)) \<noteq> 0"
  unfolding hw_bitmap_pairs hw_bitmap_bit by (auto simp: hw_pair_def hw_order_set bit_simps)

text \<open>
  C30: the configured rate sets after validation.  For every pair of configuration values the basic
  rates that remain are among the supported ones, with one exception: in the 2.4 GHz band, when
  only OFDM rates are supported and the basic set has none of them.
\<close>

theorem rate_sets_consistent:
  "case rate_ValidateVsBand (rate_SupportedToDrvBitmap s a) (rate_BasicToDrvBitmap b a) a of
     (st, supp, basic) \<Rightarrow> basic AND NOT supp = 0 \<or>
       (a = False \<and> s = SUPPORTED_RATE_SET_ALL_OFDM \<and> basic_set_24 b AND 0x1FE0 = 0)"
proof (cases a)
  case True
  let ?supp = "supported_set_5 s AND NOT 0x1F"
  have "bit (basic_set_5 b AND ?supp) 5" using sets_5_bit(1) [of s] sets_5_bit(2) [of b] by (simp add: bit_simps)
  then have "basic_set_5 b AND ?supp \<noteq> 0" by (metis bit_0_eq bot_apply bot_bool_def)
  then show ?thesis
    using True and_sub(1) [of "basic_set_5 b" ?supp]
    by (simp add: rate_ValidateVsBand_def rate_SupportedToDrvBitmap_def rate_BasicToDrvBitmap_def Let_def)
next
  case False
  show ?thesis
  proof (cases "s = SUPPORTED_RATE_SET_ALL_OFDM")
    case True
    then show ?thesis
      using \<open>\<not> a\<close> supported_24_ofdm and_sub(1) [of "basic_set_24 b" "supported_set_24 s"]
      by (simp add: rate_ValidateVsBand_def rate_SupportedToDrvBitmap_def rate_BasicToDrvBitmap_def Let_def)
  next
    case False
    then show ?thesis
      using \<open>\<not> a\<close> supported_24_cck [of s] and_sub(1) [of "basic_set_24 b" "supported_set_24 s"]
      by (simp add: rate_ValidateVsBand_def rate_SupportedToDrvBitmap_def rate_BasicToDrvBitmap_def Let_def
          and.commute)
  qed
qed

text \<open>
  The number of a rate identifies it, except that MCS 0 is taken for 6M: its number is the
  6.5 Mbit/s rounded down, where the way back expects 7.
\<close>

lemma rate_number_roundtrip:
  assumes "r \<in> set drv_rates"
  shows "rate_NumberToDrv (rate_DrvToNumber r) = (if r = DRV_RATE_MCS_0 then DRV_RATE_6M else r)"
proof -
  have "list_all (\<lambda>r. rate_NumberToDrv (rate_DrvToNumber r) = (if r = DRV_RATE_MCS_0 then DRV_RATE_6M else r))
      drv_rates"
    by (simp add: drv_rates_def rate_NumberToDrv_def rate_DrvToNumber_def)
  then show ?thesis using assms by (simp add: list_all_iff)
qed

end
