(* ===== verification/QueueFamily.thy ===== *)
theory QueueFamily
  imports Queue
begin

text \<open>
  Modules with several queues (transactions per function and priority, packets per link and type)
  keep them in an array of handles; the items carry one node header, so that all these queues share
  one heap of links.  A family of queues is a map from the index to the queue, \<open>None\<close> for a null
  handle; an operation on a null handle is a null dereference and returns \<open>None\<close>.

  In a \<^verbatim>\<open>TI_DBG\<close> build the link of an item tells whether it is queued anywhere.  The lemmas describe
  the operations of such a family by the lists of items, one list per index.
\<close>

section \<open>Operations on a member\<close>

type_synonym 'k fam = "'k \<rightharpoonup> TQueue"

definition fam_Enqueue ::
  "bool \<Rightarrow> qheap \<Rightarrow> 'k fam \<Rightarrow> 'k \<Rightarrow> ptr \<Rightarrow> (TI_STATUS \<times> qheap \<times> 'k fam) option" where
  "fam_Enqueue TI_DBG h qs k x =
     (case qs k of
        None \<Rightarrow> None
      | Some q \<Rightarrow> (case que_Enqueue TI_DBG h q x of (st, h', q') \<Rightarrow> Some (st, h', qs(k \<mapsto> q'))))"

definition fam_Requeue ::
  "bool \<Rightarrow> qheap \<Rightarrow> 'k fam \<Rightarrow> 'k \<Rightarrow> ptr \<Rightarrow> (TI_STATUS \<times> qheap \<times> 'k fam) option" where
  "fam_Requeue TI_DBG h qs k x =
     (case qs k of
        None \<Rightarrow> None
      | Some q \<Rightarrow> (case que_Requeue TI_DBG h q x of (st, h', q') \<Rightarrow> Some (st, h', qs(k \<mapsto> q'))))"

definition fam_Dequeue :: "bool \<Rightarrow> qheap \<Rightarrow> 'k fam \<Rightarrow> 'k \<Rightarrow> (ptr \<times> qheap \<times> 'k fam) option" where
  "fam_Dequeue TI_DBG h qs k =
     (case qs k of
        None \<Rightarrow> None
      | Some q \<Rightarrow> (case que_Dequeue TI_DBG h q of (x, h', q') \<Rightarrow> Some (x, h', qs(k \<mapsto> q'))))"

definition fam_Size :: "'k fam \<Rightarrow> 'k \<Rightarrow> u32 option" where
  "fam_Size qs k = map_option que_Size (qs k)"

text \<open>
  \<^verbatim>\<open>que_Destroy\<close> gives the object back to the allocator; the links of its head are cleared, as whoever
  is given the memory next clears it.
\<close>

definition que_Destroy :: "qheap \<Rightarrow> TQueue \<Rightarrow> qheap" where
  "que_Destroy h q = h\<lparr>pNext := (pNext h)(tHead q := NULL), pPrev := (pPrev h)(tHead q := NULL)\<rparr>"

section \<open>Families in a debug build\<close>

definition fam_items :: "qheap \<Rightarrow> 'k fam \<Rightarrow> 'k \<Rightarrow> ptr list" where
  "fam_items h qs k = (case qs k of None \<Rightarrow> [] | Some q \<Rightarrow> que_items h q)"

definition fam_heads :: "'k fam \<Rightarrow> ptr set" where
  "fam_heads qs = {tHead q | k q. qs k = Some q}"

text \<open>What the operations leave alone: which queues exist, and their parameters.\<close>

definition fam_params :: "'k fam \<Rightarrow> 'k \<Rightarrow> (ptr \<times> u32 \<times> u32) option" where
  "fam_params qs k = map_option (\<lambda>q. (tHead q, uLimit q, uNodeHeaderOffset q)) (qs k)"

text \<open>
  All queues are well formed and apart, with one offset of the node header, and every linked node is
  in a queue.
\<close>

definition fam_ok :: "u32 \<Rightarrow> qheap \<Rightarrow> 'k fam \<Rightarrow> bool" where
  "fam_ok off h qs \<longleftrightarrow>
     (\<forall>k q. qs k = Some q \<longrightarrow> que_wf h q \<and> uNodeHeaderOffset q = off) \<and>
     (\<forall>k q l r. qs k = Some q \<longrightarrow> qs l = Some r \<longrightarrow> k \<noteq> l \<longrightarrow> que_apart h q r) \<and>
     (\<forall>n. pNext h n \<noteq> NULL \<longrightarrow> (\<exists>k q. qs k = Some q \<and> n \<in> que_cells h q))"

text \<open>An address that can be an item of the family.\<close>

definition fam_valid :: "u32 \<Rightarrow> 'k fam \<Rightarrow> ptr \<Rightarrow> bool" where
  "fam_valid off qs x \<longleftrightarrow> x \<noteq> NULL \<and> x + off \<noteq> NULL \<and> x + off \<notin> fam_heads qs"

definition fam_queued :: "qheap \<Rightarrow> 'k fam \<Rightarrow> ptr \<Rightarrow> bool" where
  "fam_queued h qs x \<longleftrightarrow> (\<exists>k. x \<in> set (fam_items h qs k))"

definition fam_full :: "'k fam \<Rightarrow> 'k \<Rightarrow> bool" where
  "fam_full qs k \<longleftrightarrow> (case qs k of None \<Rightarrow> False | Some q \<Rightarrow> uLimit q \<le> uCount q)"

lemma fam_items_mem: "x \<in> set (fam_items h qs k) \<longleftrightarrow> (\<exists>q. qs k = Some q \<and> x \<in> set (que_items h q))"
  by (cases "qs k") (auto simp: fam_items_def)

lemma que_cells_items:
  "que_cells h q = insert (tHead q) ((\<lambda>x. x + uNodeHeaderOffset q) ` set (que_items h q))"
  by (auto simp: que_cells_def que_items_def image_image)

lemma que_items_distinct: "que_wf h q \<Longrightarrow> distinct (que_items h q)"
  by (auto elim!: que_wfE simp: que_ring_def distinct_map inj_on_def)

lemma que_items_nonnull: "que_wf h q \<Longrightarrow> x \<in> set (que_items h q) \<Longrightarrow> x \<noteq> NULL"
  by (auto elim!: que_wfE simp: que_ring_def)

lemma fam_okD:
  assumes "fam_ok off h qs"
  shows "qs k = Some q \<Longrightarrow> que_wf h q" "qs k = Some q \<Longrightarrow> uNodeHeaderOffset q = off"
    "qs k = Some q \<Longrightarrow> qs l = Some r \<Longrightarrow> k \<noteq> l \<Longrightarrow> que_apart h q r"
    "pNext h n \<noteq> NULL \<Longrightarrow> \<exists>k q. qs k = Some q \<and> n \<in> que_cells h q"
  using assms by (auto simp: fam_ok_def)

lemma fam_items_distinct: "fam_ok off h qs \<Longrightarrow> distinct (fam_items h qs k)"
  by (auto simp: fam_items_def split: option.splits intro: que_items_distinct dest: fam_okD)

lemma fam_items_nonnull: "fam_ok off h qs \<Longrightarrow> x \<in> set (fam_items h qs k) \<Longrightarrow> x \<noteq> NULL"
  by (auto simp: fam_items_mem dest: fam_okD que_items_nonnull)

text \<open>An item is in one queue only.\<close>

lemma fam_items_disjoint:
  assumes ok: "fam_ok off h qs" and "x \<in> set (fam_items h qs k)" and "x \<in> set (fam_items h qs l)"
  shows "k = l"
proof (rule ccontr)
  assume "k \<noteq> l"
  obtain q r where q: "qs k = Some q" "qs l = Some r" "x \<in> set (que_items h q)" "x \<in> set (que_items h r)"
    using assms(2,3) by (auto simp: fam_items_mem)
  then have "x + off \<in> que_cells h q" "x + off \<in> que_cells h r"
    using fam_okD(2) [OF ok] by (auto simp: que_cells_items)
  then show False using fam_okD(3) [OF ok q(1,2) \<open>k \<noteq> l\<close>] by (auto simp: que_apart_def)
qed

lemma fam_params_None: "fam_params qs' = fam_params qs \<Longrightarrow> qs' k = None \<longleftrightarrow> qs k = None"
  by (auto simp: fam_params_def dest: fun_cong [of _ _ k])

lemma fam_params_heads:
  assumes "fam_params qs' = fam_params qs"
  shows "fam_heads qs' = fam_heads qs"
proof -
  have "fam_heads qs = {a. \<exists>k l n. fam_params qs k = Some (a, l, n)}" for qs :: "'a fam"
    by (force simp: fam_heads_def fam_params_def)
  then show ?thesis using assms by simp
qed

lemma fam_params_valid: "fam_params qs' = fam_params qs \<Longrightarrow> fam_valid off qs' = fam_valid off qs"
  by (drule fam_params_heads) (simp add: fam_valid_def fun_eq_iff)

lemma fam_params_upd: "qs k = Some q \<Longrightarrow> que_same_params q q' \<Longrightarrow> fam_params (qs(k \<mapsto> q')) = fam_params qs"
  by (auto simp: fam_params_def que_same_params_def fun_eq_iff)

text \<open>The link of a valid item says whether it is queued.\<close>

lemma fam_link:
  assumes ok: "fam_ok off h qs" and v: "fam_valid off qs x"
  shows "pNext h (x + off) \<noteq> NULL \<longleftrightarrow> fam_queued h qs x"
proof
  assume "pNext h (x + off) \<noteq> NULL"
  then obtain k q where q: "qs k = Some q" "x + off \<in> que_cells h q" using fam_okD(4) [OF ok] by blast
  then show "fam_queued h qs x"
    using v fam_okD(2) [OF ok q(1)]
    by (auto simp: que_cells_items fam_valid_def fam_heads_def fam_queued_def fam_items_def intro!: exI [of _ k])
next
  assume "fam_queued h qs x"
  then obtain k q where q: "qs k = Some q" "x \<in> set (que_items h q)"
    by (auto simp: fam_queued_def fam_items_mem)
  then have "x + off \<in> set (tHead q # que_nodes h q)"
    using fam_okD(2) [OF ok q(1)] by (auto simp: que_items_def)
  then show "pNext h (x + off) \<noteq> NULL"
    using que_ring_next_nonnull fam_okD(1) [OF ok q(1)] by (auto simp: que_wf_def)
qed

section \<open>One operation on a member\<close>

text \<open>
  What the operations share: the member keeps its parameters and only links of the member's nodes
  and of a node that is not linked change.
\<close>

lemma que_cells_linked: "que_wf h q \<Longrightarrow> n \<in> que_cells h q \<Longrightarrow> pNext h n \<noteq> NULL"
  using que_ring_next_nonnull by (auto simp: que_wf_def que_cells_def)

lemma fam_update:
  assumes ok: "fam_ok off h qs" and k: "qs k = Some q"
    and q': "que_wf h' q'" "que_same_params q q'"
    and frame: "que_frame h h' A"
    and A: "que_cells h q \<subseteq> A" "que_cells h' q' \<subseteq> A" "\<And>n. n \<in> A \<Longrightarrow> n \<in> que_cells h q \<or> pNext h n = NULL"
    and links: "\<And>n. n \<in> A \<Longrightarrow> pNext h' n \<noteq> NULL \<Longrightarrow> n \<in> que_cells h' q'"
  shows "fam_ok off h' (qs(k \<mapsto> q'))"
    and "fam_items h' (qs(k \<mapsto> q')) = (fam_items h qs)(k := que_items h' q')"
proof -
  have away: "A \<inter> que_cells h r = {}" if "qs l = Some r" "l \<noteq> k" for l r
    using A(3) fam_okD(3) [OF ok k that(1)] que_cells_linked [OF fam_okD(1) [OF ok that(1)]] that(2)
    by (fastforce simp: que_apart_def)
  have other: "que_wf h' r \<and> que_items h' r = que_items h r \<and> que_cells h' r = que_cells h r"
    if "qs l = Some r" "l \<noteq> k" for l r
    using que_wf_frame [OF fam_okD(1) [OF ok that(1)] frame away [OF that]] .
  show "fam_ok off h' (qs(k \<mapsto> q'))"
    unfolding fam_ok_def
  proof (intro conjI allI impI)
    fix l r assume "(qs(k \<mapsto> q')) l = Some r"
    then show "que_wf h' r" "uNodeHeaderOffset r = off"
      using q' other fam_okD(2) [OF ok] k by (auto simp: que_same_params_def split: if_splits)
  next
    fix l r m p
    assume l: "(qs(k \<mapsto> q')) l = Some r" and m: "(qs(k \<mapsto> q')) m = Some p" and ne: "l \<noteq> m"
    have new: "que_apart h' q' s" if "qs j = Some s" "j \<noteq> k" for j s
      using away [OF that] other [OF that] A(2) by (auto simp: que_apart_def)
    consider "l = k" | "m = k" | "l \<noteq> k" "m \<noteq> k" by blast
    then show "que_apart h' r p"
    proof cases
      case 3
      then have "que_apart h r p" using fam_okD(3) [OF ok] l m ne by simp
      then show ?thesis using other 3 l m by (simp add: que_apart_def)
    qed (use l m ne new new [THEN que_apart_sym [THEN iffD1]] in auto)
  next
    fix n assume n: "pNext h' n \<noteq> NULL"
    show "\<exists>l r. (qs(k \<mapsto> q')) l = Some r \<and> n \<in> que_cells h' r"
    proof (cases "n \<in> A")
      case True
      then show ?thesis using links [OF True n] by (auto intro: exI [of _ k])
    next
      case False
      then have "pNext h n \<noteq> NULL" "n \<notin> que_cells h q" using n frame A(1) by (auto simp: que_frame_def)
      then obtain l r where "qs l = Some r" "n \<in> que_cells h r" "l \<noteq> k"
        using fam_okD(4) [OF ok] k by fastforce
      then show ?thesis using other by (intro exI [of _ l] exI [of _ r]) auto
    qed
  qed
  show "fam_items h' (qs(k \<mapsto> q')) = (fam_items h qs)(k := que_items h' q')"
  proof
    fix l
    show "fam_items h' (qs(k \<mapsto> q')) l = ((fam_items h qs)(k := que_items h' q')) l"
      using other by (cases "qs l") (auto simp: fam_items_def)
  qed
qed

text \<open>A refused item changes the counters of its queue only.\<close>

lemma fam_same:
  assumes ok: "fam_ok off h qs" and k: "qs k = Some q"
    and q': "tHead q' = tHead q" "uCount q' = uCount q" "que_same_params q q'"
  shows "fam_ok off h (qs(k \<mapsto> q'))" and "fam_items h (qs(k \<mapsto> q')) = fam_items h qs"
proof -
  have n: "que_nodes h q' = que_nodes h q" using q' by (simp add: que_nodes_def)
  then have "que_items h q' = que_items h q" "que_cells h q' = que_cells h q"
    using q' by (simp_all add: que_items_def que_cells_def que_same_params_def)
  moreover have "que_wf h q'"
    using fam_okD(1) [OF ok k] q' n by (simp add: que_wf_def que_ring_def que_same_params_def)
  ultimately show "fam_ok off h (qs(k \<mapsto> q'))" "fam_items h (qs(k \<mapsto> q')) = fam_items h qs"
    using fam_update [OF ok k _ q'(3), of h "que_cells h q"] k
    by (simp_all add: que_frame_def fun_upd_idem fam_items_def)
qed

lemma fam_count: "fam_ok off h qs \<Longrightarrow> qs k = Some q \<Longrightarrow> unat (uCount q) = length (fam_items h qs k)"
  by (drule (1) fam_okD(1)) (auto elim!: que_wfE simp: fam_items_def que_ring_def)

lemma fam_Size_items:
  "fam_ok off h qs \<Longrightarrow> qs k = Some q \<Longrightarrow> \<exists>n. fam_Size qs k = Some n \<and> unat n = length (fam_items h qs k)"
  by (simp add: fam_Size_def que_Size_def fam_count)

lemma fam_refused:
  assumes "fam_ok off h qs" "fam_valid off qs x" "qs k = Some q"
  shows "que_refused h q x \<longleftrightarrow> fam_full qs k \<or> fam_queued h qs x"
  using fam_link [OF assms(1,2)] fam_okD(2) [OF assms(1,3)] assms(3)
  by (simp add: que_refused_def fam_full_def)

lemma fam_refused_linkable:
  assumes "fam_ok off h qs" "fam_valid off qs x" "qs k = Some q" "\<not> que_refused h q x"
  shows "que_linkable h q x"
  using assms fam_okD(2) [OF assms(1,3)] by (auto simp: que_refused_def que_linkable_def fam_valid_def)

lemma fam_insert_ring:
  assumes ok: "fam_ok off h qs" and v: "fam_valid off qs x" and k: "qs k = Some q"
    and lk: "que_linkable h q x" and p: "que_same_params q q'" and wf: "que_wf h' q'"
    and f: "que_frame h h' (insert (x + uNodeHeaderOffset q) (set (tHead q # que_nodes h q)))"
    and its: "set (que_items h' q') = insert x (set (que_items h q))"
  shows "fam_ok off h' (qs(k \<mapsto> q'))"
    and "fam_items h' (qs(k \<mapsto> q')) = (fam_items h qs)(k := que_items h' q')"
proof -
  let ?A = "insert (x + uNodeHeaderOffset q) (que_cells h q)"
  have c: "que_cells h' q' = ?A" using its p by (auto simp: que_cells_items que_same_params_def)
  have f': "que_frame h h' ?A" using f by (simp add: que_cells_def)
  show "fam_ok off h' (qs(k \<mapsto> q'))" "fam_items h' (qs(k \<mapsto> q')) = (fam_items h qs)(k := que_items h' q')"
    using lk c by (auto intro!: fam_update [OF ok k wf p f'] simp: que_linkable_def)
qed

text \<open>
  \<open>que_Enqueue\<close> and \<open>que_Requeue\<close> refuse an item that is queued anywhere, and any item when the
  queue is full; otherwise the item becomes the last, or the first, of the queue.
\<close>

lemma fam_Enqueue_spec:
  assumes ok: "fam_ok off h qs" and v: "fam_valid off qs x" and k: "qs k = Some q"
  shows "\<exists>st h' qs'. fam_Enqueue d h qs k x = Some (st, h', qs') \<and> fam_ok off h' qs' \<and>
    fam_params qs' = fam_params qs \<and>
    (if fam_full qs k \<or> fam_queued h qs x then st = TI_NOK \<and> fam_items h' qs' = fam_items h qs
     else st = TI_OK \<and> fam_items h' qs' = (fam_items h qs)(k := fam_items h qs k @ [x]))"
proof -
  obtain st h' q' where e: "que_Enqueue d h q x = (st, h', q')" by (cases "que_Enqueue d h q x")
  have r: "fam_Enqueue d h qs k x = Some (st, h', qs(k \<mapsto> q'))" by (simp add: fam_Enqueue_def k e)
  show ?thesis
  proof (cases "que_refused h q x")
    case True
    then have "st = TI_NOK" "h' = h" "tHead q' = tHead q" "uCount q' = uCount q" and p: "que_same_params q q'"
      using e by (auto simp: que_refused_def que_Enqueue_def que_same_params_def Let_def not_le split: if_splits)
    then show ?thesis
      using r fam_same [OF ok k] fam_params_upd [of qs k q q', OF k p] fam_refused [OF ok v k] True by simp
  next
    case False
    note lk = fam_refused_linkable [OF ok v k False]
    note wf = fam_okD(1) [OF ok k]
    have s: "st = TI_OK" "que_wf h' q'" "que_items h' q' = que_items h q @ [x]" using que_Enqueue_spec [OF wf lk e] by simp_all
    have ring: "que_ring h q (que_nodes h q)" using wf by (simp add: que_wf_def)
    note g = que_Enqueue_ring [OF ring lk e]
    note f = fam_insert_ring [OF ok v k lk g(3) s(2) g(5)]
    have "\<not> (fam_full qs k \<or> fam_queued h qs x)" using fam_refused [OF ok v k] False by simp
    moreover have "fam_items h qs k = que_items h q" using k by (simp add: fam_items_def)
    ultimately show ?thesis
      using r s f fam_params_upd [of qs k q q', OF k g(3)] by simp
  qed
qed

lemma fam_Requeue_spec:
  assumes ok: "fam_ok off h qs" and v: "fam_valid off qs x" and k: "qs k = Some q"
  shows "\<exists>st h' qs'. fam_Requeue d h qs k x = Some (st, h', qs') \<and> fam_ok off h' qs' \<and>
    fam_params qs' = fam_params qs \<and>
    (if fam_full qs k \<or> fam_queued h qs x then st = TI_NOK \<and> fam_items h' qs' = fam_items h qs
     else st = TI_OK \<and> fam_items h' qs' = (fam_items h qs)(k := x # fam_items h qs k))"
proof -
  obtain st h' q' where e: "que_Requeue d h q x = (st, h', q')" by (cases "que_Requeue d h q x")
  have r: "fam_Requeue d h qs k x = Some (st, h', qs(k \<mapsto> q'))" by (simp add: fam_Requeue_def k e)
  show ?thesis
  proof (cases "que_refused h q x")
    case True
    then have "st = TI_NOK" "h' = h" "tHead q' = tHead q" "uCount q' = uCount q" and p: "que_same_params q q'"
      using e by (auto simp: que_refused_def que_Requeue_def que_same_params_def Let_def not_le split: if_splits)
    then show ?thesis
      using r fam_same [OF ok k] fam_params_upd [of qs k q q', OF k p] fam_refused [OF ok v k] True by simp
  next
    case False
    note lk = fam_refused_linkable [OF ok v k False]
    note wf = fam_okD(1) [OF ok k]
    have s: "st = TI_OK" "que_wf h' q'" "que_items h' q' = x # que_items h q" using que_Requeue_spec [OF wf lk e] by simp_all
    have ring: "que_ring h q (que_nodes h q)" using wf by (simp add: que_wf_def)
    note g = que_Requeue_ring [OF ring lk e]
    note f = fam_insert_ring [OF ok v k lk g(3) s(2) g(5)]
    have "\<not> (fam_full qs k \<or> fam_queued h qs x)" using fam_refused [OF ok v k] False by simp
    moreover have "fam_items h qs k = que_items h q" using k by (simp add: fam_items_def)
    ultimately show ?thesis
      using r s f fam_params_upd [of qs k q q', OF k g(3)] by simp
  qed
qed

text \<open>
  In a debug build an item that leaves its queue can be queued again.
\<close>

lemma fam_Dequeue_spec:
  assumes ok: "fam_ok off h qs" and k: "qs k = Some q"
  shows "\<exists>x h' qs'. fam_Dequeue True h qs k = Some (x, h', qs') \<and> fam_ok off h' qs' \<and>
    fam_params qs' = fam_params qs \<and>
    (case fam_items h qs k of
       [] \<Rightarrow> x = NULL \<and> h' = h \<and> qs' = qs
     | i # js \<Rightarrow> x = i \<and> x \<noteq> NULL \<and> fam_valid off qs x \<and> fam_items h' qs' = (fam_items h qs)(k := js))"
proof -
  obtain x h' q' where e: "que_Dequeue True h q = (x, h', q')" by (cases "que_Dequeue True h q")
  have r: "fam_Dequeue True h qs k = Some (x, h', qs(k \<mapsto> q'))" by (simp add: fam_Dequeue_def k e)
  note wf = fam_okD(1) [OF ok k]
  show ?thesis
  proof (cases "que_items h q")
    case Nil
    then have "x = NULL" "h' = h" "q' = q" using que_Dequeue_empty_spec [OF wf Nil, of True] e by simp_all
    then show ?thesis
      using r ok Nil k by (simp add: fun_upd_idem fam_items_def)
  next
    case (Cons i js)
    obtain n ns where ns: "que_nodes h q = n # ns"
      using Cons by (cases "que_nodes h q") (auto simp: que_items_def)
    have ring: "que_ring h q (n # ns)" using wf ns by (simp add: que_wf_def)
    note g = que_Dequeue_ring [OF ring e] and s = que_Dequeue_spec [OF wf Cons e]
    have c: "que_cells h q = insert n (que_cells h' q')" "que_cells h q = set (tHead q # n # ns)"
      using que_ring_nodes [OF g(3)] g(4) ns by (auto simp: que_cells_def que_same_params_def)
    have f: "que_frame h h' (que_cells h q)" using g(6) c(2) by simp
    have u: "fam_ok off h' (qs(k \<mapsto> q'))" "fam_items h' (qs(k \<mapsto> q')) = (fam_items h qs)(k := que_items h' q')"
      using g(7) c(1) s(1) by (auto intro!: fam_update [OF ok k _ g(4) f])
    have n: "x + off = n" using g(1) fam_okD(2) [OF ok k] by simp
    have "n \<notin> fam_heads qs"
    proof
      assume "n \<in> fam_heads qs"
      then obtain l p where p: "qs l = Some p" "n = tHead p" by (auto simp: fam_heads_def)
      show False
      proof (cases "l = k")
        case True
        then show ?thesis using p k ring by (simp add: que_ring_def)
      next
        case False
        then have "que_apart h q p" using fam_okD(3) [OF ok k p(1)] by simp
        then show ?thesis using p(2) c(2) by (simp add: que_apart_def que_cells_items [of h p])
      qed
    qed
    then have "fam_valid off qs x"
      using s(1) n ring by (simp add: fam_valid_def que_ring_def)
    then show ?thesis
      using r u s(1) Cons k fam_params_upd [of qs k q q', OF k g(4)] by (simp add: fam_items_def)
  qed
qed

text \<open>
  A queue of unlimited size is never full: its items are distinct addresses other than null and the
  address of the queue.
\<close>

lemma fam_not_full:
  assumes ok: "fam_ok off h qs" and k: "qs k = Some q" and l: "uLimit q = QUE_UNLIMITED_SIZE"
  shows "\<not> fam_full qs k"
proof -
  note wf = fam_okD(1) [OF ok k]
  have ring: "que_ring h q (que_nodes h q)" using wf by (simp add: que_wf_def)
  then have d: "distinct (NULL # tHead q # que_nodes h q)" and c: "length (que_nodes h q) = unat (uCount q)"
    by (auto simp: que_ring_def)
  have "length (NULL # tHead q # que_nodes h q) = card (set (NULL # tHead q # que_nodes h q))"
    using d by (simp only: distinct_card)
  also have "\<dots> \<le> card (UNIV :: u32 set)" by (rule card_mono) simp_all
  finally have "unat (uCount q) + 2 \<le> 4294967296" using c by (simp add: card_word)
  then show ?thesis using k l by (simp add: fam_full_def word_le_nat_alt)
qed

lemma fam_Clear_spec:
  assumes "fam_ok off h qs" and "qs k = Some q" and "que_Clear True h q = (h', q')"
  shows "fam_ok off h' (qs(k \<mapsto> q')) \<and> fam_params (qs(k \<mapsto> q')) = fam_params qs \<and>
    fam_items h' (qs(k \<mapsto> q')) = (fam_items h qs)(k := [])"
  using assms
proof (induction "True" h q arbitrary: qs h' q' rule: que_Clear.induct)
  case (1 h q)
  obtain x h1 q1 where e: "que_Dequeue True h q = (x, h1, q1)" by (cases "que_Dequeue True h q")
  let ?qs1 = "qs(k \<mapsto> q1)"
  have s: "fam_ok off h1 ?qs1" "fam_params ?qs1 = fam_params qs"
      "case fam_items h qs k of [] \<Rightarrow> x = NULL \<and> h1 = h \<and> ?qs1 = qs
       | i # js \<Rightarrow> x = i \<and> x \<noteq> NULL \<and> fam_valid off qs x \<and> fam_items h1 ?qs1 = (fam_items h qs)(k := js)"
    using fam_Dequeue_spec [OF 1(2,3)] e 1(3) by (auto simp: fam_Dequeue_def)
  show ?case
  proof (cases "x = NULL")
    case True
    then have "h' = h1" "q' = q1" using 1(4) e by (subst (asm) que_Clear.simps; simp)+
    then show ?thesis using s True by (auto split: list.splits simp: fun_upd_idem)
  next
    case False
    then have "que_Clear True h1 q1 = (h', q')" using 1(4) e by (subst (asm) que_Clear.simps) simp
    then have "fam_ok off h' (?qs1(k \<mapsto> q')) \<and> fam_params (?qs1(k \<mapsto> q')) = fam_params ?qs1 \<and>
        fam_items h' (?qs1(k \<mapsto> q')) = (fam_items h1 ?qs1)(k := [])"
      using 1(1) [OF e [symmetric] refl False s(1)] by simp
    then show ?thesis using s False by (auto split: list.splits)
  qed
qed

text \<open>
  A new queue in cleared memory, and the end of an empty one.
\<close>

lemma fam_Create_spec:
  assumes ok: "fam_ok off h qs" and a: "a \<noteq> NULL" "pNext h a = NULL" and k: "qs k = None"
    and c: "que_Create a h os rep lim off = Some (h', q)"
  shows "fam_ok off h' (qs(k \<mapsto> q)) \<and> fam_items h' (qs(k \<mapsto> q)) = fam_items h qs"
proof -
  have q: "que_wf h' q" "que_items h' q = []" "tHead q = a" "uNodeHeaderOffset q = off"
    and h': "h' = h\<lparr>pNext := (pNext h)(a := a), pPrev := (pPrev h)(a := a)\<rparr>"
    using c a by (auto simp: que_Create_def que_wf_iff_ring que_ring_def que_items_def que_nodes_def split: if_splits)
  have cq: "que_cells h' q = {a}" using q by (simp add: que_cells_items)
  have other: "que_wf h' r \<and> que_items h' r = que_items h r \<and> que_cells h' r = que_cells h r \<and> a \<notin> que_cells h r"
    if "qs l = Some r" for l r
  proof -
    have "a \<notin> que_cells h r" using que_cells_linked [OF fam_okD(1) [OF ok that]] a(2) by blast
    then show ?thesis
      using que_wf_frame [OF fam_okD(1) [OF ok that], of h' "{a}"] by (simp add: que_frame_def h')
  qed
  have "fam_ok off h' (qs(k \<mapsto> q))"
    unfolding fam_ok_def
  proof (intro conjI allI impI)
    fix l r assume "(qs(k \<mapsto> q)) l = Some r"
    then show "que_wf h' r" "uNodeHeaderOffset r = off"
      using q other fam_okD(2) [OF ok] by (auto split: if_splits)
  next
    fix l r m p
    assume l: "(qs(k \<mapsto> q)) l = Some r" and m: "(qs(k \<mapsto> q)) m = Some p" and ne: "l \<noteq> m"
    show "que_apart h' r p"
      using l m ne other cq fam_okD(3) [OF ok, of l r m p] by (auto simp: que_apart_def split: if_splits)
  next
    fix n assume n: "pNext h' n \<noteq> NULL"
    show "\<exists>l r. (qs(k \<mapsto> q)) l = Some r \<and> n \<in> que_cells h' r"
    proof (cases "n = a")
      case False
      then obtain l r where "qs l = Some r" "n \<in> que_cells h r" using n fam_okD(4) [OF ok, of n] by (auto simp: h')
      then show ?thesis using other k by (intro exI [of _ l] exI [of _ r]) auto
    qed (use cq in \<open>auto intro: exI [of _ k]\<close>)
  qed
  moreover have "fam_items h' (qs(k \<mapsto> q)) l = fam_items h qs l" for l
    using other q(2) k by (cases "qs l") (auto simp: fam_items_def)
  ultimately show ?thesis by auto
qed

lemma fam_Destroy_spec:
  assumes ok: "fam_ok off h qs" and k: "qs k = Some q" and e: "fam_items h qs k = []"
  shows "fam_ok off (que_Destroy h q) (qs(k := None)) \<and>
    fam_items (que_Destroy h q) (qs(k := None)) = fam_items h qs"
proof -
  let ?h = "que_Destroy h q"
  have cq: "que_cells h q = {tHead q}" using e k by (simp add: que_cells_items fam_items_def)
  have other: "que_wf ?h r \<and> que_items ?h r = que_items h r \<and> que_cells ?h r = que_cells h r \<and> tHead q \<notin> que_cells h r"
    if "qs l = Some r" "l \<noteq> k" for l r
  proof -
    have "tHead q \<notin> que_cells h r" using fam_okD(3) [OF ok k that(1)] that(2) cq by (auto simp: que_apart_def)
    then show ?thesis
      using que_wf_frame [OF fam_okD(1) [OF ok that(1)], of ?h "{tHead q}"] by (simp add: que_frame_def que_Destroy_def)
  qed
  have "fam_ok off ?h (qs(k := None))"
    unfolding fam_ok_def
  proof (intro conjI allI impI)
    fix l r assume "(qs(k := None)) l = Some r"
    then show "que_wf ?h r" "uNodeHeaderOffset r = off"
      using other fam_okD(2) [OF ok] by (auto split: if_splits)
  next
    fix l r m p
    assume "(qs(k := None)) l = Some r" "(qs(k := None)) m = Some p" "l \<noteq> m"
    then show "que_apart ?h r p"
      using other fam_okD(3) [OF ok, of l r m p] by (auto simp: que_apart_def split: if_splits)
  next
    fix n assume n: "pNext ?h n \<noteq> NULL"
    then have "n \<noteq> tHead q" "pNext h n \<noteq> NULL" by (auto simp: que_Destroy_def split: if_splits)
    then obtain l r where l: "qs l = Some r" "n \<in> que_cells h r" "n \<noteq> tHead q"
      using fam_okD(4) [OF ok, of n] by blast
    then have "l \<noteq> k" using k cq by (metis option.inject singletonD)
    with l show "\<exists>l r. (qs(k := None)) l = Some r \<and> n \<in> que_cells ?h r"
      using other by (intro exI [of _ l] exI [of _ r]) auto
  qed
  moreover have "fam_items ?h (qs(k := None)) l = fam_items h qs l" for l
    using other k e by (cases "qs l") (auto simp: fam_items_def)
  ultimately show ?thesis by auto
qed

end
