(* ===== verification/TxnQueue.thy ===== *)
theory TxnQueue
  imports QueueFamily
begin

text \<open>
  The transaction queue (Txn/TxnQueue.c) shares the bus between up to four functional drivers.  A
  transaction waits in the queue of its function and priority, is handed to the bus driver by the
  scheduler, waits in the done queue if it was completed, and is reported to its function's callback.

  The node header is the first field of \<^verbatim>\<open>TTxnStruct\<close>, and the clients of the module queue their
  completed transactions by the same header, so that the queues of the module and of its clients
  form one family.  The bus driver and the callbacks are parameters that may change the state; the
  critical sections are not modelled, as every function is one step.  A function returns \<open>None\<close>
  where the code dereferences a null pointer or indexes beyond an array, or does not return.
\<close>

section \<open>Constants and types\<close>

abbreviation (input) MAX_FUNCTIONS :: "nat" where "MAX_FUNCTIONS \<equiv> 4"
abbreviation (input) MAX_PRIORITY :: "nat" where "MAX_PRIORITY \<equiv> 2"
abbreviation (input) TXN_QUE_SIZE :: "u32" where "TXN_QUE_SIZE \<equiv> QUE_UNLIMITED_SIZE"
abbreviation (input) TXN_DONE_QUE_SIZE :: "u32" where "TXN_DONE_QUE_SIZE \<equiv> QUE_UNLIMITED_SIZE"
abbreviation (input) TXN_AGGREGATE_OFF :: "u32" where "TXN_AGGREGATE_OFF \<equiv> 0"
abbreviation (input) TXN_AGGREGATE_ON :: "u32" where "TXN_AGGREGATE_ON \<equiv> 1"
abbreviation (input) TXN_PARAM_STATUS_RECOVERY :: "u32" where "TXN_PARAM_STATUS_RECOVERY \<equiv> 2"
abbreviation (input) off_tTxnQNode :: "u32" where "off_tTxnQNode \<equiv> 0"

datatype EFuncState =
  FUNC_STATE_NONE | FUNC_STATE_STOPPED | FUNC_STATE_RUNNING | FUNC_STATE_RESTART

record TFuncInfo =
  eState :: EFuncState
  uNumPrios :: u32
  fTxnQueueDoneCb :: ptr
  hCbHandle :: ptr
  pSingleStep :: ptr

text \<open>
  The queues: the done queue, \<^verbatim>\<open>aTxnQueues[uFunc][uPrio]\<close>, and those of the clients.
\<close>

datatype qid = DoneQ | FuncQ nat nat | ClientQ nat

record TTxnQObj =
  links :: qheap
  queues :: "qid fam"
  uTxnParams :: "ptr \<Rightarrow> u32"
  aFuncInfo :: "TFuncInfo list"
  pCurrTxn :: ptr
  uMinFuncId :: u32
  uMaxFuncId :: u32
  bSchedulerBusy :: bool
  bSchedulerPend :: bool
  pAggregQueue :: "qid option"
  fConnectCb :: ptr
  hConnectCb :: ptr

definition TXN_PARAM_GET_PRIORITY :: "u32 \<Rightarrow> u32" where
  "TXN_PARAM_GET_PRIORITY w = w AND 0x00000003"

definition TXN_PARAM_GET_FUNC_ID :: "u32 \<Rightarrow> u32" where
  "TXN_PARAM_GET_FUNC_ID w = drop_bit 2 (w AND 0x0000000C)"

definition TXN_PARAM_GET_SINGLE_STEP :: "u32 \<Rightarrow> u32" where
  "TXN_PARAM_GET_SINGLE_STEP w = drop_bit 7 (w AND 0x00000080)"

definition TXN_PARAM_GET_AGGREGATE :: "u32 \<Rightarrow> u32" where
  "TXN_PARAM_GET_AGGREGATE w = drop_bit 12 (w AND 0x00001000)"

definition TXN_PARAM_SET_STATUS :: "u32 \<Rightarrow> u32 \<Rightarrow> u32" where
  "TXN_PARAM_SET_STATUS w uValue = (w AND NOT 0x00000F00) OR push_bit 8 uValue"

text \<open>What the outside sees: a transaction handed to the bus, and a call of a function's callback.\<close>

datatype txn_event = Sent ptr ETxnStatus | Reported ptr ptr ptr

type_synonym bus_drv = "ptr \<Rightarrow> TTxnQObj \<Rightarrow> ETxnStatus \<times> TTxnQObj"
type_synonym done_cb = "ptr \<Rightarrow> ptr \<Rightarrow> ptr \<Rightarrow> TTxnQObj \<Rightarrow> TTxnQObj"

section \<open>Operations\<close>

definition set_func :: "TTxnQObj \<Rightarrow> nat \<Rightarrow> (TFuncInfo \<Rightarrow> TFuncInfo) \<Rightarrow> TTxnQObj" where
  "set_func s i f = s\<lparr>aFuncInfo := (aFuncInfo s)[i := f (aFuncInfo s ! i)]\<rparr>"

definition func_of :: "TTxnQObj \<Rightarrow> ptr \<Rightarrow> nat" where
  "func_of s pTxn = unat (TXN_PARAM_GET_FUNC_ID (uTxnParams s pTxn))"

definition enqueue :: "bool \<Rightarrow> TTxnQObj \<Rightarrow> qid \<Rightarrow> ptr \<Rightarrow> (TI_STATUS \<times> TTxnQObj) option" where
  "enqueue TI_DBG s k x =
     map_option (\<lambda>(st, h', qs'). (st, s\<lparr>links := h', queues := qs'\<rparr>)) (fam_Enqueue TI_DBG (links s) (queues s) k x)"

definition dequeue :: "bool \<Rightarrow> TTxnQObj \<Rightarrow> qid \<Rightarrow> (ptr \<times> TTxnQObj) option" where
  "dequeue TI_DBG s k =
     map_option (\<lambda>(x, h', qs'). (x, s\<lparr>links := h', queues := qs'\<rparr>)) (fam_Dequeue TI_DBG (links s) (queues s) k)"

text \<open>
  \<open>h\<close> and \<open>clients\<close> are the memory and the queues of the clients that exist already; \<open>params\<close> the
  attributes of the transactions.  \<open>pObj\<close> and \<open>pBus\<close> are the results of the allocator and of
  \<^verbatim>\<open>busDrv_Create\<close>.
\<close>

definition func_init :: TFuncInfo where
  "func_init = \<lparr>eState = FUNC_STATE_NONE, uNumPrios = 0, fTxnQueueDoneCb = NULL, hCbHandle = NULL,
     pSingleStep = NULL\<rparr>"

definition txnQ_Create :: "ptr \<Rightarrow> ptr \<Rightarrow> qheap \<Rightarrow> (nat \<rightharpoonup> TQueue) \<Rightarrow> (ptr \<Rightarrow> u32) \<Rightarrow> TTxnQObj option" where
  "txnQ_Create pObj pBus h clients params =
     (if pObj = NULL \<or> pBus = NULL then None
      else Some \<lparr>links = h,
        queues = (\<lambda>k. case k of ClientQ n \<Rightarrow> clients n | _ \<Rightarrow> None), uTxnParams = params,
        aFuncInfo = replicate MAX_FUNCTIONS func_init, pCurrTxn = NULL,
        uMinFuncId = of_nat MAX_FUNCTIONS, uMaxFuncId = 0, bSchedulerBusy = False, bSchedulerPend = False,
        pAggregQueue = None, fConnectCb = NULL, hConnectCb = NULL\<rparr>)"

definition txnQ_Destroy :: "TTxnQObj \<Rightarrow> TI_STATUS \<times> qheap" where
  "txnQ_Destroy s =
     (TI_OK, case queues s DoneQ of None \<Rightarrow> links s | Some q \<Rightarrow> que_Destroy (links s) q)"

text \<open>\<open>pQue\<close> is what the allocator returns for the queue object.\<close>

definition create_queue :: "ptr \<Rightarrow> TTxnQObj \<Rightarrow> qid \<Rightarrow> u32 \<Rightarrow> ptr \<Rightarrow> ptr \<Rightarrow> TTxnQObj" where
  "create_queue pQue s k limit os report =
     (case que_Create pQue (links s) os report limit off_tTxnQNode of
        None \<Rightarrow> s\<lparr>queues := (queues s)(k := None)\<rparr>
      | Some (h', q) \<Rightarrow> s\<lparr>links := h', queues := (queues s)(k \<mapsto> q)\<rparr>)"

definition txnQ_Init :: "ptr \<Rightarrow> TTxnQObj \<Rightarrow> ptr \<Rightarrow> ptr \<Rightarrow> TTxnQObj" where
  "txnQ_Init pQue s os report = create_queue pQue s DoneQ TXN_DONE_QUE_SIZE os report"

definition txnQ_ConnectBus :: "TTxnQObj \<Rightarrow> ptr \<Rightarrow> ptr \<Rightarrow> TTxnQObj" where
  "txnQ_ConnectBus s f h = s\<lparr>fConnectCb := f, hConnectCb := h\<rparr>"

text \<open>The loop that creates the queues stops at the first failure.\<close>

fun create_queues :: "(nat \<Rightarrow> ptr) \<Rightarrow> TTxnQObj \<Rightarrow> nat \<Rightarrow> nat list \<Rightarrow> ptr \<Rightarrow> ptr \<Rightarrow> TI_STATUS \<times> TTxnQObj" where
  "create_queues pQue s uFuncId [] os report = (TI_OK, s)"
| "create_queues pQue s uFuncId (i # js) os report =
     (let s1 = create_queue (pQue i) s (FuncQ uFuncId i) TXN_QUE_SIZE os report
      in if queues s1 (FuncQ uFuncId i) = None then (TI_NOK, s1)
         else create_queues pQue s1 uFuncId js os report)"

definition txnQ_Open ::
  "(nat \<Rightarrow> ptr) \<Rightarrow> TTxnQObj \<Rightarrow> u32 \<Rightarrow> u32 \<Rightarrow> ptr \<Rightarrow> ptr \<Rightarrow> ptr \<Rightarrow> ptr \<Rightarrow> TI_STATUS \<times> TTxnQObj" where
  "txnQ_Open pQue s uFuncId numPrios doneCb cbHandle os report =
     (if unat uFuncId \<ge> MAX_FUNCTIONS \<or> unat numPrios > MAX_PRIORITY then (TI_NOK, s)
      else
       (let s1 = set_func s (unat uFuncId) (\<lambda>i. i\<lparr>uNumPrios := numPrios, fTxnQueueDoneCb := doneCb,
                   hCbHandle := cbHandle, eState := FUNC_STATE_STOPPED\<rparr>);
            (st, s2) = create_queues pQue s1 (unat uFuncId) [0..<unat numPrios] os report
        in if st \<noteq> TI_OK then (TI_NOK, s2)
           else (TI_OK, s2\<lparr>uMinFuncId := (if uFuncId < uMinFuncId s2 then uFuncId else uMinFuncId s2),
                           uMaxFuncId := (if uFuncId > uMaxFuncId s2 then uFuncId else uMaxFuncId s2)\<rparr>)))"

text \<open>The range of registered functions is computed anew when one is closed.\<close>

definition range_step :: "TTxnQObj \<Rightarrow> nat \<Rightarrow> TTxnQObj" where
  "range_step s i =
     (if eState (aFuncInfo s ! i) \<noteq> FUNC_STATE_NONE
      then s\<lparr>uMinFuncId := (if of_nat i < uMinFuncId s then of_nat i else uMinFuncId s),
             uMaxFuncId := (if of_nat i > uMaxFuncId s then of_nat i else uMaxFuncId s)\<rparr>
      else s)"

definition destroy_queue :: "TTxnQObj \<Rightarrow> qid \<Rightarrow> TTxnQObj option" where
  "destroy_queue s k =
     (case queues s k of
        None \<Rightarrow> None
      | Some q \<Rightarrow> Some (s\<lparr>links := que_Destroy (links s) q, queues := (queues s)(k := None)\<rparr>))"

primrec destroy_queues :: "TTxnQObj \<Rightarrow> nat \<Rightarrow> nat list \<Rightarrow> TTxnQObj option" where
  "destroy_queues s uFuncId [] = Some s"
| "destroy_queues s uFuncId (i # js) =
     Option.bind (destroy_queue s (FuncQ uFuncId i)) (\<lambda>s1. destroy_queues s1 uFuncId js)"

definition txnQ_Close :: "TTxnQObj \<Rightarrow> u32 \<Rightarrow> TTxnQObj option" where
  "txnQ_Close s uFuncId =
     (if unat uFuncId \<ge> length (aFuncInfo s) then None
      else map_option
        (\<lambda>s1. fold (\<lambda>i s. range_step s i) [0..<MAX_FUNCTIONS]
           ((set_func s1 (unat uFuncId) (\<lambda>i. i\<lparr>uNumPrios := 0, fTxnQueueDoneCb := NULL, hCbHandle := NULL,
               eState := FUNC_STATE_NONE\<rparr>))\<lparr>uMinFuncId := of_nat MAX_FUNCTIONS, uMaxFuncId := 0\<rparr>))
        (destroy_queues s (unat uFuncId) [0..<unat (uNumPrios (aFuncInfo s ! unat uFuncId))]))"

text \<open>Emptying the queues of a function.\<close>

definition clear_queue :: "bool \<Rightarrow> TTxnQObj \<Rightarrow> qid \<Rightarrow> TTxnQObj option" where
  "clear_queue TI_DBG s k =
     (case queues s k of
        None \<Rightarrow> None
      | Some q \<Rightarrow> (case que_Clear TI_DBG (links s) q of (h', q') \<Rightarrow>
           Some (s\<lparr>links := h', queues := (queues s)(k \<mapsto> q')\<rparr>)))"

primrec clear_queues :: "bool \<Rightarrow> TTxnQObj \<Rightarrow> nat \<Rightarrow> nat list \<Rightarrow> TTxnQObj option" where
  "clear_queues TI_DBG s uFuncId [] = Some s"
| "clear_queues TI_DBG s uFuncId (i # js) =
     Option.bind (clear_queue TI_DBG s (FuncQ uFuncId i)) (\<lambda>s1. clear_queues TI_DBG s1 uFuncId js)"

definition txnQ_ClearQueues :: "bool \<Rightarrow> TTxnQObj \<Rightarrow> u32 \<Rightarrow> TTxnQObj option" where
  "txnQ_ClearQueues TI_DBG s uFuncId =
     (if unat uFuncId \<ge> length (aFuncInfo s) then None
      else map_option (\<lambda>s1. set_func s1 (unat uFuncId) (\<lambda>i. i\<lparr>eState := FUNC_STATE_RUNNING\<rparr>))
        (clear_queues TI_DBG (set_func s (unat uFuncId) (\<lambda>i. i\<lparr>pSingleStep := NULL\<rparr>)) (unat uFuncId)
          [0..<unat (uNumPrios (aFuncInfo s ! unat uFuncId))]))"

definition txnQ_Restart :: "bool \<Rightarrow> TTxnQObj \<Rightarrow> u32 \<Rightarrow> (ETxnStatus \<times> TTxnQObj) option" where
  "txnQ_Restart TI_DBG s uFuncId =
     (if unat uFuncId \<ge> length (aFuncInfo s) then None
      else if pCurrTxn s \<noteq> NULL \<and> TXN_PARAM_GET_FUNC_ID (uTxnParams s (pCurrTxn s)) = uFuncId
      then Some (TXN_STATUS_PENDING, set_func s (unat uFuncId) (\<lambda>i. i\<lparr>eState := FUNC_STATE_RESTART\<rparr>))
      else map_option (Pair TXN_STATUS_COMPLETE) (txnQ_ClearQueues TI_DBG s uFuncId))"

subsection \<open>Selection\<close>

definition funcs :: "TTxnQObj \<Rightarrow> nat list" where
  "funcs s = [unat (uMinFuncId s)..<Suc (unat (uMaxFuncId s))]"

primrec select_single :: "TTxnQObj \<Rightarrow> nat list \<Rightarrow> ptr \<times> TTxnQObj" where
  "select_single s [] = (NULL, s)"
| "select_single s (uFunc # fs) =
     (let p = pSingleStep (aFuncInfo s ! uFunc)
      in if p \<noteq> NULL then (p, set_func s uFunc (\<lambda>i. i\<lparr>pSingleStep := NULL\<rparr>)) else select_single s fs)"

definition uses_prio :: "TTxnQObj \<Rightarrow> nat \<Rightarrow> nat \<Rightarrow> bool" where
  "uses_prio s uFunc uPrio \<longleftrightarrow>
     eState (aFuncInfo s ! uFunc) = FUNC_STATE_RUNNING \<and> unat (uNumPrios (aFuncInfo s ! uFunc)) > uPrio"

fun select_queued :: "bool \<Rightarrow> TTxnQObj \<Rightarrow> (nat \<times> nat) list \<Rightarrow> (ptr \<times> TTxnQObj) option" where
  "select_queued TI_DBG s [] = Some (NULL, s)"
| "select_queued TI_DBG s ((uPrio, uFunc) # ks) =
     (if uses_prio s uFunc uPrio
      then (case dequeue TI_DBG s (FuncQ uFunc uPrio) of
              None \<Rightarrow> None
            | Some (p, s1) \<Rightarrow>
               if p \<noteq> NULL
               then Some (p, if TI_DBG \<and> TXN_PARAM_GET_AGGREGATE (uTxnParams s1 p) = TXN_AGGREGATE_ON
                             then s1\<lparr>pAggregQueue := Some (FuncQ uFunc uPrio)\<rparr> else s1)
               else select_queued TI_DBG s1 ks)
      else select_queued TI_DBG s ks)"

definition prio_order :: "TTxnQObj \<Rightarrow> (nat \<times> nat) list" where
  "prio_order s = concat (map (\<lambda>uPrio. map (Pair uPrio) (funcs s)) [0..<MAX_PRIORITY])"

definition txnQ_SelectTxn :: "bool \<Rightarrow> TTxnQObj \<Rightarrow> (ptr \<times> TTxnQObj) option" where
  "txnQ_SelectTxn TI_DBG s =
     (case (if TI_DBG then pAggregQueue s else None) of
        Some k \<Rightarrow>
         (case dequeue TI_DBG s k of
            None \<Rightarrow> None
          | Some (p, s1) \<Rightarrow>
             if p \<noteq> NULL
             then Some (p, if TXN_PARAM_GET_AGGREGATE (uTxnParams s1 p) = TXN_AGGREGATE_OFF
                           then s1\<lparr>pAggregQueue := None\<rparr> else s1)
             else Some (NULL, s1))
      | None \<Rightarrow>
         (case select_single s (funcs s) of
            (p, s1) \<Rightarrow> if p \<noteq> NULL then Some (p, s1) else select_queued TI_DBG s (prio_order s)))"

subsection \<open>The scheduler\<close>

text \<open>
  The loop that sends.  It ends when nothing can be selected or the bus driver keeps a transaction;
  \<open>eInputTxnStatus\<close> is the status of the transaction of the caller.
\<close>

definition txn_done :: "bool \<Rightarrow> TTxnQObj \<Rightarrow> ptr \<Rightarrow> ptr \<Rightarrow> TTxnQObj option" where
  "txn_done TI_DBG s pSelectedTxn pInputTxn =
     (if pSelectedTxn \<noteq> pInputTxn then map_option snd (enqueue TI_DBG s DoneQ pSelectedTxn) else Some s)"

partial_function (option) send_loop ::
  "bool \<Rightarrow> bus_drv \<Rightarrow> ptr \<Rightarrow> ETxnStatus \<Rightarrow> TTxnQObj \<Rightarrow> (ETxnStatus \<times> txn_event list \<times> TTxnQObj) option" where
  "send_loop TI_DBG bus pInputTxn eInputTxnStatus s =
     (case txnQ_SelectTxn TI_DBG s of
        None \<Rightarrow> None
      | Some (p, s1) \<Rightarrow>
         if p = NULL then Some (eInputTxnStatus, [], s1)
         else (case bus p (s1\<lparr>pCurrTxn := p\<rparr>) of (eStatus, s2) \<Rightarrow>
           if eStatus \<noteq> TXN_STATUS_PENDING
           then (case txn_done TI_DBG (s2\<lparr>pCurrTxn := NULL\<rparr>) p pInputTxn of
                   None \<Rightarrow> None
                 | Some s3 \<Rightarrow>
                    Option.bind
                      (send_loop TI_DBG bus pInputTxn (if p = pInputTxn then eStatus else eInputTxnStatus) s3)
                      (\<lambda>(st, ev, s4). Some (st, Sent p eStatus # ev, s4)))
           else Some (if p = pInputTxn then eStatus else eInputTxnStatus, [Sent p eStatus], s2)))"

text \<open>The loop that reports what is in the done queue.\<close>

definition report_txn :: "done_cb \<Rightarrow> TTxnQObj \<Rightarrow> ptr \<Rightarrow> (txn_event \<times> TTxnQObj) option" where
  "report_txn cb s pTxn =
     (let i = aFuncInfo s ! func_of s pTxn
      in if func_of s pTxn \<ge> length (aFuncInfo s) \<or> fTxnQueueDoneCb i = NULL then None
         else Some (Reported (fTxnQueueDoneCb i) (hCbHandle i) pTxn,
                    cb (fTxnQueueDoneCb i) (hCbHandle i) pTxn s))"

partial_function (option) report_loop ::
  "bool \<Rightarrow> done_cb \<Rightarrow> TTxnQObj \<Rightarrow> (txn_event list \<times> TTxnQObj) option" where
  "report_loop TI_DBG cb s =
     (case dequeue TI_DBG s DoneQ of
        None \<Rightarrow> None
      | Some (p, s1) \<Rightarrow>
         if p = NULL then Some ([], s1)
         else (case report_txn cb s1 p of
                 None \<Rightarrow> None
               | Some (e, s2) \<Rightarrow>
                  Option.bind (report_loop TI_DBG cb s2) (\<lambda>(ev, s3). Some (e # ev, s3))))"

definition txnQ_Scheduler ::
  "bool \<Rightarrow> bus_drv \<Rightarrow> done_cb \<Rightarrow> TTxnQObj \<Rightarrow> ptr \<Rightarrow> (ETxnStatus \<times> txn_event list \<times> TTxnQObj) option" where
  "txnQ_Scheduler TI_DBG bus cb s pInputTxn =
     (if pCurrTxn s \<noteq> NULL then Some (TXN_STATUS_PENDING, [], s)
      else Option.bind (send_loop TI_DBG bus pInputTxn TXN_STATUS_PENDING s)
        (\<lambda>(st, ev1, s1). Option.bind (report_loop TI_DBG cb s1) (\<lambda>(ev2, s2). Some (st, ev1 @ ev2, s2))))"

text \<open>The iterations of \<^verbatim>\<open>txnQ_RunScheduler\<close> after the first.\<close>

partial_function (option) pend_loop ::
  "bool \<Rightarrow> bus_drv \<Rightarrow> done_cb \<Rightarrow> TTxnQObj \<Rightarrow> (txn_event list \<times> TTxnQObj) option" where
  "pend_loop TI_DBG bus cb s =
     (if \<not> bSchedulerPend s then Some ([], s\<lparr>bSchedulerBusy := False\<rparr>)
      else (case txnQ_Scheduler TI_DBG bus cb (s\<lparr>bSchedulerPend := False\<rparr>) NULL of
              None \<Rightarrow> None
            | Some (_, ev1, s1) \<Rightarrow>
               Option.bind (pend_loop TI_DBG bus cb s1) (\<lambda>(ev2, s2). Some (ev1 @ ev2, s2))))"

definition txnQ_RunScheduler ::
  "bool \<Rightarrow> bus_drv \<Rightarrow> done_cb \<Rightarrow> TTxnQObj \<Rightarrow> ptr \<Rightarrow> (ETxnStatus \<times> txn_event list \<times> TTxnQObj) option" where
  "txnQ_RunScheduler TI_DBG bus cb s pInputTxn =
     (if bSchedulerBusy s then Some (TXN_STATUS_PENDING, [], s\<lparr>bSchedulerPend := True\<rparr>)
      else Option.bind (txnQ_Scheduler TI_DBG bus cb (s\<lparr>bSchedulerBusy := True\<rparr>) pInputTxn)
        (\<lambda>(st, ev1, s1). Option.bind (pend_loop TI_DBG bus cb s1) (\<lambda>(ev2, s2). Some (st, ev1 @ ev2, s2))))"

definition txnQ_Run ::
  "bool \<Rightarrow> bus_drv \<Rightarrow> done_cb \<Rightarrow> TTxnQObj \<Rightarrow> u32 \<Rightarrow> (txn_event list \<times> TTxnQObj) option" where
  "txnQ_Run TI_DBG bus cb s uFuncId =
     (if unat uFuncId \<ge> length (aFuncInfo s) then None
      else map_option snd
        (txnQ_RunScheduler TI_DBG bus cb
          (set_func s (unat uFuncId) (\<lambda>i. i\<lparr>eState := FUNC_STATE_RUNNING\<rparr>)) NULL))"

definition txnQ_Stop :: "TTxnQObj \<Rightarrow> u32 \<Rightarrow> TTxnQObj option" where
  "txnQ_Stop s uFuncId =
     (if unat uFuncId \<ge> length (aFuncInfo s) then None
      else Some (set_func s (unat uFuncId) (\<lambda>i. i\<lparr>eState := FUNC_STATE_STOPPED\<rparr>)))"

definition txnQ_Transact ::
  "bool \<Rightarrow> bus_drv \<Rightarrow> done_cb \<Rightarrow> TTxnQObj \<Rightarrow> ptr \<Rightarrow> (ETxnStatus \<times> txn_event list \<times> TTxnQObj) option" where
  "txnQ_Transact TI_DBG bus cb s pTxn =
     (if TXN_PARAM_GET_SINGLE_STEP (uTxnParams s pTxn) \<noteq> 0
      then txnQ_RunScheduler TI_DBG bus cb (set_func s (func_of s pTxn) (\<lambda>i. i\<lparr>pSingleStep := pTxn\<rparr>)) pTxn
      else (case enqueue TI_DBG s (FuncQ (func_of s pTxn) (unat (TXN_PARAM_GET_PRIORITY (uTxnParams s pTxn)))) pTxn of
              None \<Rightarrow> None
            | Some (eStatus, s1) \<Rightarrow>
               if eStatus \<noteq> TI_OK then Some (TXN_STATUS_ERROR, [], s1)
               else txnQ_RunScheduler TI_DBG bus cb s1 pTxn))"

definition txnQ_TxnDoneCb ::
  "bool \<Rightarrow> bus_drv \<Rightarrow> done_cb \<Rightarrow> TTxnQObj \<Rightarrow> ptr \<Rightarrow> (txn_event list \<times> TTxnQObj) option" where
  "txnQ_TxnDoneCb TI_DBG bus cb s pTxn =
     (let uFuncId = TXN_PARAM_GET_FUNC_ID (uTxnParams s pTxn)
      in Option.bind
          (if eState (aFuncInfo s ! unat uFuncId) = FUNC_STATE_RESTART
           then Option.bind (txnQ_ClearQueues TI_DBG s uFuncId)
             (\<lambda>s1. map_option (\<lambda>(e, s2). ([e], s2))
               (report_txn cb (s1\<lparr>uTxnParams := (uTxnParams s1)
                  (pTxn := TXN_PARAM_SET_STATUS (uTxnParams s1 pTxn) TXN_PARAM_STATUS_RECOVERY)\<rparr>) pTxn))
           else map_option (\<lambda>(_, s1). ([], s1)) (enqueue TI_DBG s DoneQ pTxn))
          (\<lambda>(ev1, s1). map_option (\<lambda>(_, ev2, s2). (ev1 @ ev2, s2))
             (txnQ_RunScheduler TI_DBG bus cb (s1\<lparr>pCurrTxn := NULL\<rparr>) NULL)))"

end
