(* ===== verification/TxnSched.thy ===== *)
theory TxnSched
  imports TxnQueue "HOL-Library.Multiset"
begin

text \<open>
  The scheduler of the transaction queue: which transaction is selected, that none is lost or sent
  twice, and that the loops end.
\<close>

section \<open>The module as lists of transactions\<close>

definition items :: "TTxnQObj \<Rightarrow> qid \<Rightarrow> ptr list" where
  "items s = fam_items (links s) (queues s)"

text \<open>Where a transaction waits to be sent.\<close>

datatype place = Single nat | Queued nat nat

fun content :: "TTxnQObj \<Rightarrow> place \<Rightarrow> ptr list" where
  "content s (Single f) =
     (if pSingleStep (aFuncInfo s ! f) = NULL then [] else [pSingleStep (aFuncInfo s ! f)])"
| "content s (Queued f p) = items s (FuncQ f p)"

definition all_places :: "place list" where
  "all_places = map Single [0..<MAX_FUNCTIONS] @
     map (\<lambda>(p, f). Queued f p) (List.product [0..<MAX_PRIORITY] [0..<MAX_FUNCTIONS])"

definition waiting :: "TTxnQObj \<Rightarrow> ptr list" where
  "waiting s = concat (map (content s) all_places)"

text \<open>The places the scheduler looks at, in the order in which it does.\<close>

definition eligible_places :: "TTxnQObj \<Rightarrow> place list" where
  "eligible_places s = map Single (funcs s) @
     map (\<lambda>(p, f). Queued f p) (List.filter (\<lambda>(p, f). uses_prio s f p) (prio_order s))"

definition eligible :: "TTxnQObj \<Rightarrow> ptr list" where
  "eligible s = concat (map (content s) (eligible_places s))"

section \<open>The invariant\<close>

abbreviation info :: "TTxnQObj \<Rightarrow> nat \<Rightarrow> TFuncInfo" where
  "info s f \<equiv> aFuncInfo s ! f"

definition registered :: "TTxnQObj \<Rightarrow> nat \<Rightarrow> bool" where
  "registered s f \<longleftrightarrow> f < MAX_FUNCTIONS \<and> eState (info s f) \<noteq> FUNC_STATE_NONE"

text \<open>
  The queues of the registered functions exist and are unlimited, and the range of the scheduler's
  loops covers the registered functions, which have a callback.
\<close>

definition txnq_struct :: "TTxnQObj \<Rightarrow> bool" where
  "txnq_struct s \<longleftrightarrow>
     fam_ok off_tTxnQNode (links s) (queues s) \<and> length (aFuncInfo s) = MAX_FUNCTIONS \<and>
     queues s DoneQ \<noteq> None \<and>
     (\<forall>f p. queues s (FuncQ f p) \<noteq> None \<longleftrightarrow> f < MAX_FUNCTIONS \<and> p < unat (uNumPrios (info s f))) \<and>
     (\<forall>k q. queues s k = Some q \<longrightarrow> (\<forall>n. k \<noteq> ClientQ n) \<longrightarrow> uLimit q = QUE_UNLIMITED_SIZE) \<and>
     (\<forall>f < MAX_FUNCTIONS. unat (uNumPrios (info s f)) \<le> MAX_PRIORITY \<and>
        (if eState (info s f) = FUNC_STATE_NONE then uNumPrios (info s f) = 0 \<and> pSingleStep (info s f) = NULL
         else unat (uMinFuncId s) \<le> f \<and> f \<le> unat (uMaxFuncId s) \<and> fTxnQueueDoneCb (info s f) \<noteq> NULL)) \<and>
     unat (uMaxFuncId s) < MAX_FUNCTIONS \<and>
     (\<forall>k. pAggregQueue s = Some k \<longrightarrow> (\<exists>f p. k = FuncQ f p) \<and> queues s k \<noteq> None)"

text \<open>A transaction outside the queues: one that waits in a single-step slot or is on the bus.\<close>

definition loose :: "TTxnQObj \<Rightarrow> ptr \<Rightarrow> bool" where
  "loose s x \<longleftrightarrow> fam_valid off_tTxnQNode (queues s) x \<and> (\<forall>k. x \<notin> set (items s k))"

definition txnq_txns :: "TTxnQObj \<Rightarrow> bool" where
  "txnq_txns s \<longleftrightarrow>
     (\<forall>f p. \<forall>x \<in> set (items s (FuncQ f p)). func_of s x = f) \<and>
     (\<forall>x \<in> set (items s DoneQ). registered s (func_of s x)) \<and>
     (\<forall>f < MAX_FUNCTIONS. pSingleStep (info s f) \<noteq> NULL \<longrightarrow>
        loose s (pSingleStep (info s f)) \<and> func_of s (pSingleStep (info s f)) = f) \<and>
     (pCurrTxn s \<noteq> NULL \<longrightarrow> loose s (pCurrTxn s) \<and> registered s (func_of s (pCurrTxn s)) \<and>
        (\<forall>f < MAX_FUNCTIONS. pSingleStep (info s f) \<noteq> pCurrTxn s))"

definition txnq_ok :: "TTxnQObj \<Rightarrow> bool" where
  "txnq_ok s \<longleftrightarrow> txnq_struct s \<and> txnq_txns s"

lemma txnq_structD:
  assumes "txnq_struct s"
  shows "fam_ok 0 (links s) (queues s)" "length (aFuncInfo s) = 4" "queues s DoneQ \<noteq> None"
    "queues s (FuncQ f p) \<noteq> None \<longleftrightarrow> f < 4 \<and> p < unat (uNumPrios (info s f))"
    "queues s k = Some q \<Longrightarrow> (\<And>n. k \<noteq> ClientQ n) \<Longrightarrow> uLimit q = QUE_UNLIMITED_SIZE"
    "f < 4 \<Longrightarrow> unat (uNumPrios (info s f)) \<le> 2"
    "f < 4 \<Longrightarrow> eState (info s f) = FUNC_STATE_NONE \<Longrightarrow> uNumPrios (info s f) = 0"
    "registered s f \<Longrightarrow> f \<in> set (funcs s) \<and> fTxnQueueDoneCb (info s f) \<noteq> NULL"
    "unat (uMaxFuncId s) < 4"
    "pAggregQueue s = Some k \<Longrightarrow> (\<exists>f p. k = FuncQ f p) \<and> queues s k \<noteq> None"
    "f < 4 \<Longrightarrow> pSingleStep (info s f) \<noteq> NULL \<Longrightarrow> registered s f"
  using assms by (auto simp: txnq_struct_def registered_def funcs_def split: if_splits)

lemma txnq_txnsD:
  assumes "txnq_txns s"
  shows "x \<in> set (items s (FuncQ f p)) \<Longrightarrow> func_of s x = f"
    "x \<in> set (items s DoneQ) \<Longrightarrow> registered s (func_of s x)"
    "f < 4 \<Longrightarrow> pSingleStep (info s f) \<noteq> NULL \<Longrightarrow> loose s (pSingleStep (info s f))"
    "f < 4 \<Longrightarrow> pSingleStep (info s f) \<noteq> NULL \<Longrightarrow> func_of s (pSingleStep (info s f)) = f"
    "pCurrTxn s \<noteq> NULL \<Longrightarrow> loose s (pCurrTxn s)"
    "pCurrTxn s \<noteq> NULL \<Longrightarrow> registered s (func_of s (pCurrTxn s))"
    "pCurrTxn s \<noteq> NULL \<Longrightarrow> f < 4 \<Longrightarrow> pSingleStep (info s f) \<noteq> pCurrTxn s"
  using assms by (auto simp: txnq_txns_def)

section \<open>Queue operations of the module\<close>

lemma items_queue: "items s k \<noteq> [] \<Longrightarrow> queues s k \<noteq> None"
  by (cases "queues s k") (simp_all add: items_def fam_items_def)

lemma dequeue_spec:
  assumes ok: "fam_ok 0 (links s) (queues s)" and k: "queues s k \<noteq> None"
  obtains x h' qs' where "dequeue True s k = Some (x, s\<lparr>links := h', queues := qs'\<rparr>)"
    and "fam_ok 0 h' qs'" and "fam_params qs' = fam_params (queues s)"
    and "case items s k of
           [] \<Rightarrow> x = NULL \<and> h' = links s \<and> qs' = queues s
         | i # js \<Rightarrow> x = i \<and> x \<noteq> NULL \<and> fam_valid 0 (queues s) x \<and> fam_items h' qs' = (items s)(k := js)"
proof -
  obtain q where "queues s k = Some q" using k by blast
  from fam_Dequeue_spec [OF ok this] obtain x h' qs' where
      "fam_Dequeue True (links s) (queues s) k = Some (x, h', qs')"
      "fam_ok 0 h' qs'" "fam_params qs' = fam_params (queues s)"
      "case items s k of
         [] \<Rightarrow> x = NULL \<and> h' = links s \<and> qs' = queues s
       | i # js \<Rightarrow> x = i \<and> x \<noteq> NULL \<and> fam_valid 0 (queues s) x \<and> fam_items h' qs' = (items s)(k := js)"
    unfolding items_def by blast
  then show ?thesis by (intro that) (simp_all add: dequeue_def)
qed

lemma dequeue_empty:
  assumes "fam_ok 0 (links s) (queues s)" and "queues s k \<noteq> None" and "items s k = []"
  shows "dequeue True s k = Some (NULL, s)"
  using assms(3) by (rule_tac dequeue_spec [OF assms(1,2)]) simp

lemma dequeue_cons:
  assumes "fam_ok 0 (links s) (queues s)" and "queues s k \<noteq> None" and "items s k = x # xs"
  obtains h' qs' where "dequeue True s k = Some (x, s\<lparr>links := h', queues := qs'\<rparr>)"
    and "fam_ok 0 h' qs'" and "fam_params qs' = fam_params (queues s)"
    and "x \<noteq> NULL" and "fam_valid 0 (queues s) x" and "fam_items h' qs' = (items s)(k := xs)"
  using assms(3) that by (rule_tac dequeue_spec [OF assms(1,2)]) auto

lemma enqueue_loose:
  assumes ok: "fam_ok 0 (links s) (queues s)" and k: "queues s k = Some q" "uLimit q = QUE_UNLIMITED_SIZE"
    and x: "loose s x"
  obtains h' qs' where "enqueue d s k x = Some (TI_OK, s\<lparr>links := h', queues := qs'\<rparr>)"
    and "fam_ok 0 h' qs'" and "fam_params qs' = fam_params (queues s)"
    and "fam_items h' qs' = (items s)(k := items s k @ [x])"
proof -
  have v: "fam_valid 0 (queues s) x" and nq: "\<not> fam_queued (links s) (queues s) x"
    using x by (auto simp: loose_def items_def fam_queued_def)
  obtain st h' qs' where e: "fam_Enqueue d (links s) (queues s) k x = Some (st, h', qs')"
      "fam_ok 0 h' qs'" "fam_params qs' = fam_params (queues s)"
      "if fam_full (queues s) k \<or> fam_queued (links s) (queues s) x
       then st = TI_NOK \<and> fam_items h' qs' = fam_items (links s) (queues s)
       else st = TI_OK \<and> fam_items h' qs' = (fam_items (links s) (queues s))(k := fam_items (links s) (queues s) k @ [x])"
    using fam_Enqueue_spec [OF ok v k(1), of d] by blast
  then show ?thesis
    using that nq fam_not_full [OF ok k] by (simp add: enqueue_def items_def)
qed

section \<open>Selection\<close>

text \<open>What sending and reporting leave alone.\<close>

definition core :: "TTxnQObj \<Rightarrow> TTxnQObj" where
  "core s = s\<lparr>links := \<lparr>pNext = \<lambda>_. 0, pPrev = \<lambda>_. 0\<rparr>, queues := Map.empty, pAggregQueue := None,
     uTxnParams := \<lambda>_. 0, pCurrTxn := NULL, aFuncInfo := map (\<lambda>i. i\<lparr>pSingleStep := NULL\<rparr>) (aFuncInfo s)\<rparr>"

lemma coreD:
  assumes "core s' = core s"
  shows "uMinFuncId s' = uMinFuncId s" "uMaxFuncId s' = uMaxFuncId s" "bSchedulerBusy s' = bSchedulerBusy s"
    "bSchedulerPend s' = bSchedulerPend s" "length (aFuncInfo s') = length (aFuncInfo s)"
  using arg_cong [OF assms, of uMinFuncId] arg_cong [OF assms, of uMaxFuncId]
    arg_cong [OF assms, of bSchedulerBusy] arg_cong [OF assms, of bSchedulerPend]
    arg_cong [OF assms, of "\<lambda>s. length (aFuncInfo s)"]
  by (simp_all add: core_def)

lemma core_info:
  assumes "core s' = core s" and "f < length (aFuncInfo s)"
  shows "eState (info s' f) = eState (info s f)" "uNumPrios (info s' f) = uNumPrios (info s f)"
    "fTxnQueueDoneCb (info s' f) = fTxnQueueDoneCb (info s f)" "hCbHandle (info s' f) = hCbHandle (info s f)"
proof -
  have "map (\<lambda>i. i\<lparr>pSingleStep := NULL\<rparr>) (aFuncInfo s') ! f = map (\<lambda>i. i\<lparr>pSingleStep := NULL\<rparr>) (aFuncInfo s) ! f"
    using arg_cong [OF assms(1), of aFuncInfo] by (simp add: core_def)
  then have *: "(info s' f)\<lparr>pSingleStep := NULL\<rparr> = (info s f)\<lparr>pSingleStep := NULL\<rparr>"
    using assms(2) coreD(5) [OF assms(1)] by simp
  show "eState (info s' f) = eState (info s f)" "uNumPrios (info s' f) = uNumPrios (info s f)"
    "fTxnQueueDoneCb (info s' f) = fTxnQueueDoneCb (info s f)" "hCbHandle (info s' f) = hCbHandle (info s f)"
    using arg_cong [OF *, of eState] arg_cong [OF *, of uNumPrios]
      arg_cong [OF *, of fTxnQueueDoneCb] arg_cong [OF *, of hCbHandle] by simp_all
qed

lemma core_set_single: "core (set_func s f (\<lambda>i. i\<lparr>pSingleStep := x\<rparr>)) = core s"
  by (simp add: core_def set_func_def map_update)
     (metis (no_types, lifting) length_map list_update_beyond list_update_id not_less nth_map)

text \<open>Transaction \<open>x\<close> was taken from the front of place \<open>pl\<close>, and nothing else changed.\<close>

definition took :: "TTxnQObj \<Rightarrow> ptr \<Rightarrow> place \<Rightarrow> TTxnQObj \<Rightarrow> bool" where
  "took s x pl s' \<longleftrightarrow> core s' = core s \<and> txnq_struct s' \<and> x \<noteq> NULL \<and>
     uTxnParams s' = uTxnParams s \<and> pCurrTxn s' = pCurrTxn s \<and>
     fam_params (queues s') = fam_params (queues s) \<and>
     (\<exists>xs. content s pl = x # xs \<and> content s' = (content s)(pl := xs)) \<and>
     (\<forall>k. (\<forall>f p. k \<noteq> FuncQ f p) \<longrightarrow> items s' k = items s k) \<and>
     (fam_valid 0 (queues s) x \<or> (\<exists>f. pl = Single f)) \<and> pl \<in> set all_places"

lemma items_upd [simp]:
  "items (s\<lparr>links := h, queues := qs\<rparr>) = fam_items h qs"
  "items (s\<lparr>pAggregQueue := a\<rparr>) = items s" "items (s\<lparr>pCurrTxn := c\<rparr>) = items s"
  "items (s\<lparr>uTxnParams := w\<rparr>) = items s" "items (s\<lparr>bSchedulerBusy := b\<rparr>) = items s"
  "items (s\<lparr>bSchedulerPend := b\<rparr>) = items s" "items (set_func s f g) = items s"
  "items (s\<lparr>aFuncInfo := i\<rparr>) = items s"
  by (simp_all add: items_def set_func_def)

lemma content_eqI:
  "(\<And>f. pSingleStep (info s' f) = pSingleStep (info s f)) \<Longrightarrow> (\<And>f p. items s' (FuncQ f p) = items s (FuncQ f p)) \<Longrightarrow>
     content s' = content s"
  by (rule ext, rename_tac pl, case_tac pl) simp_all

lemma content_upd [simp]:
  "content (s\<lparr>pCurrTxn := c\<rparr>) = content s" "content (s\<lparr>uTxnParams := w\<rparr>) = content s"
  "content (s\<lparr>bSchedulerBusy := b\<rparr>) = content s" "content (s\<lparr>bSchedulerPend := b\<rparr>) = content s"
  "content (s\<lparr>pAggregQueue := a\<rparr>) = content s"
  by (rule content_eqI; simp)+

lemma struct_queues:
  assumes st: "txnq_struct s" and "fam_ok 0 h qs" and p: "fam_params qs = fam_params (queues s)"
  shows "txnq_struct (s\<lparr>links := h, queues := qs\<rparr>)"
proof -
  have n: "qs k = None \<longleftrightarrow> queues s k = None" for k using fam_params_None [OF p] .
  have l: "uLimit q = uLimit r" if "qs k = Some q" "queues s k = Some r" for k q r
    using fun_cong [OF p, of k] that by (simp add: fam_params_def)
  then have "uLimit q = QUE_UNLIMITED_SIZE" if "qs k = Some q" "\<forall>n. k \<noteq> ClientQ n" for k q
    using that n [of k] txnq_structD(5) [OF st, of k] by (cases "queues s k") auto
  then show ?thesis using st assms(2) n by (simp add: txnq_struct_def)
qed

lemma struct_aggr:
  "txnq_struct s \<Longrightarrow> a = None \<or> a = Some (FuncQ f p) \<and> queues s (FuncQ f p) \<noteq> None \<Longrightarrow>
     txnq_struct (s\<lparr>pAggregQueue := a\<rparr>)"
  by (auto simp: txnq_struct_def)

lemma struct_scalars [simp]:
  "txnq_struct (s\<lparr>pCurrTxn := c\<rparr>) = txnq_struct s" "txnq_struct (s\<lparr>uTxnParams := w\<rparr>) = txnq_struct s"
  "txnq_struct (s\<lparr>bSchedulerBusy := b\<rparr>) = txnq_struct s" "txnq_struct (s\<lparr>bSchedulerPend := b\<rparr>) = txnq_struct s"
  by (simp_all add: txnq_struct_def)

lemma struct_single_null: "txnq_struct s \<Longrightarrow> txnq_struct (set_func s f (\<lambda>i. i\<lparr>pSingleStep := NULL\<rparr>))"
  by (cases "f < 4") (auto simp: txnq_struct_def set_func_def nth_list_update)

lemma all_places_Queued: "f < 4 \<Longrightarrow> p < 2 \<Longrightarrow> Queued f p \<in> set all_places"
  unfolding all_places_def by (auto simp: image_iff intro!: bexI [of _ "(p, f)"])

text \<open>Taking from a queue, whatever happens to the aggregation pointer.\<close>

lemma took_queue:
  assumes st: "txnq_struct s" and it: "items s (FuncQ f p) = x # xs"
  obtains s' where "dequeue True s (FuncQ f p) = Some (x, s')" and "x \<noteq> NULL" and "uTxnParams s' = uTxnParams s"
    and "pAggregQueue s' = pAggregQueue s" and "took s x (Queued f p) s'"
    and "\<And>a. a = None \<or> a = Some (FuncQ f p) \<Longrightarrow> took s x (Queued f p) (s'\<lparr>pAggregQueue := a\<rparr>)"
proof -
  note ok = txnq_structD(1) [OF st]
  have k: "queues s (FuncQ f p) \<noteq> None" using it items_queue by simp
  obtain h' qs' where d: "dequeue True s (FuncQ f p) = Some (x, s\<lparr>links := h', queues := qs'\<rparr>)"
    and f: "fam_ok 0 h' qs'" "fam_params qs' = fam_params (queues s)" "x \<noteq> NULL" "fam_valid 0 (queues s) x"
      "fam_items h' qs' = (items s)(FuncQ f p := xs)"
    using dequeue_cons [OF ok k it] by blast
  let ?s = "s\<lparr>links := h', queues := qs'\<rparr>"
  have c: "content ?s = (content s)(Queued f p := xs)"
    by (rule ext, rename_tac pl, case_tac pl) (auto simp: f(5))
  have pl: "Queued f p \<in> set all_places"
  proof -
    have "f < 4" "p < unat (uNumPrios (info s f))" using k txnq_structD(4) [OF st, of f p] by simp_all
    moreover have "unat (uNumPrios (info s f)) \<le> 2" by (rule txnq_structD(6) [OF st]) fact
    ultimately show ?thesis by (intro all_places_Queued) simp_all
  qed
  have t: "took s x (Queued f p) ?s"
    using struct_queues [OF st f(1,2)] c f it pl by (simp add: took_def core_def)
  have "took s x (Queued f p) (?s\<lparr>pAggregQueue := a\<rparr>)" if "a = None \<or> a = Some (FuncQ f p)" for a
  proof -
    have "queues ?s (FuncQ f p) \<noteq> None" using k fam_params_None [OF f(2)] by simp
    then have "txnq_struct (?s\<lparr>pAggregQueue := a\<rparr>)"
      using struct_aggr [OF struct_queues [OF st f(1,2)], of a f p] that by blast
    moreover have "content (?s\<lparr>pAggregQueue := a\<rparr>) = content ?s" by (rule content_eqI) simp_all
    ultimately show ?thesis using t by (simp add: took_def core_def del: items_upd(1))
  qed
  then show ?thesis using that d f(3) t by simp
qed

lemma took_single:
  assumes st: "txnq_struct s" and f: "f < 4" and x: "pSingleStep (info s f) = x" "x \<noteq> NULL"
  shows "took s x (Single f) (set_func s f (\<lambda>i. i\<lparr>pSingleStep := NULL\<rparr>))"
proof -
  have l: "length (aFuncInfo s) = 4" using st by (simp add: txnq_struct_def)
  have c: "content (set_func s f (\<lambda>i. i\<lparr>pSingleStep := NULL\<rparr>)) = (content s)(Single f := [])"
  proof
    fix pl
    show "content (set_func s f (\<lambda>i. i\<lparr>pSingleStep := NULL\<rparr>)) pl = ((content s)(Single f := [])) pl"
      using f l by (cases pl) (auto simp: set_func_def)
  qed
  show ?thesis
    unfolding took_def
    using core_set_single [of s f NULL] struct_single_null [OF st, of f] c f x
    by (auto simp: all_places_def) (simp_all add: set_func_def)
qed

lemma select_single_spec:
  assumes st: "txnq_struct s"
  shows "set fs \<subseteq> {..<4} \<Longrightarrow>
    (case List.find (\<lambda>f. content s (Single f) \<noteq> []) fs of
       None \<Rightarrow> select_single s fs = (NULL, s)
     | Some f \<Rightarrow> \<exists>x s'. select_single s fs = (x, s') \<and> took s x (Single f) s' \<and> pAggregQueue s' = pAggregQueue s)"
proof (induction fs)
  case (Cons f fs)
  show ?case
  proof (cases "pSingleStep (info s f) = NULL")
    case False
    then have "took s (pSingleStep (info s f)) (Single f) (set_func s f (\<lambda>i. i\<lparr>pSingleStep := NULL\<rparr>))"
      using took_single [OF st _ refl] Cons(2) by simp
    then show ?thesis using False by (simp add: set_func_def)
  next
    case True
    then have e: "select_single s (f # fs) = select_single s fs"
        "List.find (\<lambda>f. content s (Single f) \<noteq> []) (f # fs) = List.find (\<lambda>f. content s (Single f) \<noteq> []) fs"
      by simp_all
    show ?thesis unfolding e by (rule Cons(1)) (use Cons(2) in simp)
  qed
qed simp

definition aggr_after :: "TTxnQObj \<Rightarrow> ptr \<Rightarrow> place \<Rightarrow> qid option" where
  "aggr_after s x pl = (case pl of Single f \<Rightarrow> None
     | Queued f p \<Rightarrow> if TXN_PARAM_GET_AGGREGATE (uTxnParams s x) = TXN_AGGREGATE_OFF then None else Some (FuncQ f p))"

lemma aggregate_bit: "TXN_PARAM_GET_AGGREGATE w = TXN_AGGREGATE_ON \<longleftrightarrow> TXN_PARAM_GET_AGGREGATE w \<noteq> TXN_AGGREGATE_OFF"
proof -
  have "TXN_PARAM_GET_AGGREGATE w = of_bool (bit w 12)"
    unfolding TXN_PARAM_GET_AGGREGATE_def
    by (rule bit_word_eqI) (auto simp: bit_simps numeral_eq_Suc)
  then show ?thesis by (simp split: if_splits)
qed

lemma select_queued_spec:
  assumes st: "txnq_struct s" and ag: "pAggregQueue s = None"
  shows "\<forall>(p, f) \<in> set ks. f < 4 \<Longrightarrow>
    (case List.find (\<lambda>(p, f). uses_prio s f p \<and> content s (Queued f p) \<noteq> []) ks of
       None \<Rightarrow> select_queued True s ks = Some (NULL, s)
     | Some (p, f) \<Rightarrow> \<exists>x s'. select_queued True s ks = Some (x, s') \<and> took s x (Queued f p) s' \<and>
         pAggregQueue s' = aggr_after s x (Queued f p))"
proof (induction ks)
  case (Cons k ks)
  obtain p f where k: "k = (p, f)" by (cases k)
  show ?case
  proof (cases "uses_prio s f p \<and> content s (Queued f p) \<noteq> []")
    case True
    then obtain x xs where it: "items s (FuncQ f p) = x # xs" by (cases "items s (FuncQ f p)") auto
    from took_queue [OF st it] obtain s' where
        t: "dequeue True s (FuncQ f p) = Some (x, s')" "x \<noteq> NULL" "uTxnParams s' = uTxnParams s"
          "pAggregQueue s' = pAggregQueue s" "took s x (Queued f p) s'"
        and ta: "\<And>a. a = None \<or> a = Some (FuncQ f p) \<Longrightarrow> took s x (Queued f p) (s'\<lparr>pAggregQueue := a\<rparr>)"
      by blast
    let ?s = "if TXN_PARAM_GET_AGGREGATE (uTxnParams s' x) = TXN_AGGREGATE_ON
              then s'\<lparr>pAggregQueue := Some (FuncQ f p)\<rparr> else s'"
    have "select_queued True s (k # ks) = Some (x, ?s)" using True k t by simp
    moreover have "took s x (Queued f p) ?s" using t(5) ta by simp
    moreover have "pAggregQueue ?s = aggr_after s x (Queued f p)"
      using t(3,4) ag aggregate_bit by (simp add: aggr_after_def)
    ultimately show ?thesis using True k by (simp del: content.simps)
  next
    case False
    have e: "select_queued True s (k # ks) = select_queued True s ks"
    proof (cases "uses_prio s f p")
      case True
      then have "f < 4" "p < unat (uNumPrios (info s f))" using Cons(2) k by (auto simp: uses_prio_def)
      then have "queues s (FuncQ f p) \<noteq> None" using txnq_structD(4) [OF st] by blast
      then have "dequeue True s (FuncQ f p) = Some (NULL, s)"
        using dequeue_empty [OF txnq_structD(1) [OF st]] False True by simp
      then show ?thesis using k True by simp
    qed (simp add: k)
    have e': "List.find (\<lambda>(p, f). uses_prio s f p \<and> content s (Queued f p) \<noteq> []) (k # ks) =
        List.find (\<lambda>(p, f). uses_prio s f p \<and> content s (Queued f p) \<noteq> []) ks"
      using False k by auto
    show ?thesis unfolding e e' by (rule Cons(1)) (use Cons(2) in simp)
  qed
qed simp

lemma find_append: "List.find P (xs @ ys) = (case List.find P xs of None \<Rightarrow> List.find P ys | Some x \<Rightarrow> Some x)"
  by (induction xs) auto

lemma find_map: "List.find P (map g xs) = map_option g (List.find (P \<circ> g) xs)"
  by (induction xs) auto

lemma find_filter: "List.find P (List.filter Q xs) = List.find (\<lambda>x. Q x \<and> P x) xs"
  by (induction xs) auto

lemma find_concat_None: "List.find (\<lambda>k. c k \<noteq> []) ks = None \<Longrightarrow> concat (map c ks) = []"
  by (induction ks) (auto split: if_splits)

lemma find_concat_Some:
  "List.find (\<lambda>k. c k \<noteq> []) ks = Some k \<Longrightarrow> c k = x # xs \<Longrightarrow> distinct ks \<Longrightarrow>
     concat (map c ks) = x # concat (map (c(k := xs)) ks)"
proof (induction ks)
  case (Cons a ks)
  show ?case
  proof (cases "c a = []")
    case False
    then have "a = k" using Cons by simp
    have m: "map (c(k := xs)) ks = map c ks" using Cons(4) \<open>a = k\<close> by (intro map_cong) auto
    show ?thesis using Cons(3) \<open>a = k\<close> by (simp add: m del: fun_upd_apply) (simp add: fun_upd_same)
  qed (use Cons in \<open>auto split: if_splits\<close>)
qed simp

lemma eligible_find:
  "List.find (\<lambda>pl. content s pl \<noteq> []) (eligible_places s) =
     (case List.find (\<lambda>f. content s (Single f) \<noteq> []) (funcs s) of
        Some f \<Rightarrow> Some (Single f)
      | None \<Rightarrow> map_option (\<lambda>(p, f). Queued f p)
          (List.find (\<lambda>(p, f). uses_prio s f p \<and> content s (Queued f p) \<noteq> []) (prio_order s)))"
proof -
  have "(\<lambda>x. (case x of (p, f) \<Rightarrow> uses_prio s f p) \<and> ((\<lambda>pl. content s pl \<noteq> []) \<circ> (\<lambda>(p, f). Queued f p)) x) =
      (\<lambda>(p, f). uses_prio s f p \<and> content s (Queued f p) \<noteq> [])"
    by (auto simp: fun_eq_iff)
  then show ?thesis
    by (auto simp: eligible_places_def find_append find_map find_filter comp_def
        simp del: content.simps split: option.split)
qed

text \<open>
  Outside an aggregation the first transaction of the first eligible place is selected; during one,
  the first of the queue that aggregates.
\<close>

lemma funcs_range: "txnq_struct s \<Longrightarrow> set (funcs s) \<subseteq> {..<4}"
  using txnq_structD(9) by (fastforce simp: funcs_def)

lemma select_spec:
  assumes st: "txnq_struct s" and ag: "pAggregQueue s = None"
  shows "case List.find (\<lambda>pl. content s pl \<noteq> []) (eligible_places s) of
       None \<Rightarrow> txnQ_SelectTxn True s = Some (NULL, s)
     | Some pl \<Rightarrow> \<exists>x s'. txnQ_SelectTxn True s = Some (x, s') \<and> took s x pl s' \<and>
         pAggregQueue s' = aggr_after s x pl"
proof -
  have r: "\<forall>(p, f) \<in> set (prio_order s). f < 4"
    using funcs_range [OF st] by (auto simp: prio_order_def)
  note si = select_single_spec [OF st funcs_range [OF st]] and sq = select_queued_spec [OF st ag r]
  show ?thesis
  proof (cases "List.find (\<lambda>f. content s (Single f) \<noteq> []) (funcs s)")
    case None
    then have e: "txnQ_SelectTxn True s = select_queued True s (prio_order s)"
      using si ag by (simp add: txnQ_SelectTxn_def del: content.simps)
    show ?thesis
      unfolding eligible_find None e using sq
      by (cases "List.find (\<lambda>(p, f). uses_prio s f p \<and> content s (Queued f p) \<noteq> []) (prio_order s)")
        (auto simp del: content.simps)
  next
    case (Some f)
    then obtain x s' where "select_single s (funcs s) = (x, s')" "took s x (Single f) s'"
        "pAggregQueue s' = pAggregQueue s"
      using si by (auto simp del: content.simps)
    then show ?thesis
      unfolding eligible_find Some using ag by (simp add: txnQ_SelectTxn_def took_def aggr_after_def)
  qed
qed

lemma select_aggr:
  assumes st: "txnq_struct s" and ag: "pAggregQueue s = Some (FuncQ f p)"
  shows "case items s (FuncQ f p) of
       [] \<Rightarrow> txnQ_SelectTxn True s = Some (NULL, s)
     | x # xs \<Rightarrow> \<exists>s'. txnQ_SelectTxn True s = Some (x, s') \<and> took s x (Queued f p) s' \<and>
         pAggregQueue s' = aggr_after s x (Queued f p)"
proof (cases "items s (FuncQ f p)")
  case Nil
  have "queues s (FuncQ f p) \<noteq> None" using txnq_structD(10) [OF st ag] by simp
  then show ?thesis
    using dequeue_empty [OF txnq_structD(1) [OF st] _ Nil] Nil ag by (simp add: txnQ_SelectTxn_def)
next
  case (Cons x xs)
  from took_queue [OF st Cons] obtain s' where
      t: "dequeue True s (FuncQ f p) = Some (x, s')" "x \<noteq> NULL" "uTxnParams s' = uTxnParams s"
        "pAggregQueue s' = pAggregQueue s" "took s x (Queued f p) s'"
      and ta: "\<And>a. a = None \<or> a = Some (FuncQ f p) \<Longrightarrow> took s x (Queued f p) (s'\<lparr>pAggregQueue := a\<rparr>)"
    by blast
  then show ?thesis
    using ag Cons by (auto simp: txnQ_SelectTxn_def aggr_after_def)
qed

text \<open>
  Aggregation keeps the order of the places: every queue ends with a transaction that ends the
  aggregation, and the queue that aggregates is the first eligible place that is not empty.
\<close>

definition aggr_ok :: "TTxnQObj \<Rightarrow> bool" where
  "aggr_ok s \<longleftrightarrow>
     (\<forall>f p. items s (FuncQ f p) \<noteq> [] \<longrightarrow>
        TXN_PARAM_GET_AGGREGATE (uTxnParams s (last (items s (FuncQ f p)))) = TXN_AGGREGATE_OFF) \<and>
     (\<forall>f p. pAggregQueue s = Some (FuncQ f p) \<longrightarrow>
        List.find (\<lambda>pl. content s pl \<noteq> []) (eligible_places s) = Some (Queued f p))"

text \<open>Nothing can be sent.\<close>

definition idle :: "TTxnQObj \<Rightarrow> bool" where
  "idle s \<longleftrightarrow> (case pAggregQueue s of
     None \<Rightarrow> eligible s = [] | Some k \<Rightarrow> items s k = [])"

text \<open>Either nothing is selected and nothing changes, or one transaction is taken from its place.\<close>

lemma select_cases:
  assumes st: "txnq_struct s"
  obtains "txnQ_SelectTxn True s = Some (NULL, s)" "idle s"
    | x pl s' where "txnQ_SelectTxn True s = Some (x, s')" "took s x pl s'" "pAggregQueue s' = aggr_after s x pl"
      "aggr_ok s \<Longrightarrow> List.find (\<lambda>pl. content s pl \<noteq> []) (eligible_places s) = Some pl"
proof (cases "pAggregQueue s")
  case None
  show ?thesis
  proof (cases "List.find (\<lambda>pl. content s pl \<noteq> []) (eligible_places s)")
    case f: None
    then show ?thesis
      using select_spec [OF st None] that(1) find_concat_None [OF f] None by (simp add: idle_def eligible_def)
  next
    case (Some pl)
    then show ?thesis using select_spec [OF st None] that(2) by auto
  qed
next
  case (Some k)
  then obtain f p where k: "k = FuncQ f p" using txnq_structD(10) [OF st] by blast
  show ?thesis
  proof (cases "items s (FuncQ f p)")
    case Nil
    then show ?thesis using select_aggr [OF st, of f p] Some k that(1) by (simp add: idle_def)
  next
    case (Cons x xs)
    then show ?thesis using select_aggr [OF st, of f p] Some k that(2) by (auto simp: aggr_ok_def)
  qed
qed

lemma tookD:
  assumes "took s x pl s'"
  shows "core s' = core s" "txnq_struct s'" "x \<noteq> NULL" "fam_params (queues s') = fam_params (queues s)"
    "pl \<in> set all_places" "uTxnParams s' = uTxnParams s" "pCurrTxn s' = pCurrTxn s"
  using assms by (simp_all add: took_def)

lemma core_registered:
  assumes "core s' = core s" "length (aFuncInfo s) = 4"
  shows "registered s' = registered s" "funcs s' = funcs s"
  using core_info(1) [OF assms(1)] assms(2) coreD [OF assms(1)]
  by (auto simp: registered_def funcs_def fun_eq_iff)

lemma core_eligible_places:
  assumes "core s' = core s" and st: "txnq_struct s"
  shows "eligible_places s' = eligible_places s"
proof -
  have l: "length (aFuncInfo s) = 4" using st by (simp add: txnq_struct_def)
  have f: "funcs s' = funcs s" using core_registered(2) [OF assms(1) l] .
  have "List.filter (\<lambda>(p, f). uses_prio s' f p) (prio_order s) = List.filter (\<lambda>(p, f). uses_prio s f p) (prio_order s)"
  proof (rule filter_cong [OF refl])
    fix a assume "a \<in> set (prio_order s)"
    then obtain p g where "a = (p, g)" "g < 4" using funcs_range [OF st] by (auto simp: prio_order_def)
    then show "(case a of (p, f) \<Rightarrow> uses_prio s' f p) = (case a of (p, f) \<Rightarrow> uses_prio s f p)"
      using core_info(1,2) [OF assms(1), of g] l by (simp add: uses_prio_def)
  qed
  then show ?thesis using f by (simp add: eligible_places_def prio_order_def)
qed

lemma eligible_distinct: "distinct (eligible_places s)"
proof -
  have "distinct (prio_order s)"
    by (auto simp: prio_order_def funcs_def upt_rec [of 0] upt_rec [of "Suc 0"] distinct_map inj_on_def)
  then show ?thesis
    by (auto simp: eligible_places_def distinct_map funcs_def inj_on_def)
qed

text \<open>What is selected is the first eligible transaction.\<close>

lemma took_eligible:
  assumes st: "txnq_struct s" and ok: "aggr_ok s" and t: "took s x pl s'" and a: "pAggregQueue s' = aggr_after s x pl"
    and f: "List.find (\<lambda>pl. content s pl \<noteq> []) (eligible_places s) = Some pl"
  shows "eligible s = x # eligible s'" and "aggr_ok s'"
proof -
  obtain xs where xs: "content s pl = x # xs" "content s' = (content s)(pl := xs)" using t by (auto simp: took_def)
  have e: "eligible_places s' = eligible_places s" using core_eligible_places [OF tookD(1) [OF t] st] .
  show "eligible s = x # eligible s'"
    using find_concat_Some [OF f xs(1) eligible_distinct] by (simp add: eligible_def e xs(2))
  have last: "TXN_PARAM_GET_AGGREGATE (uTxnParams s (last (content s (Queued g p)))) = TXN_AGGREGATE_OFF"
    if "content s (Queued g p) \<noteq> []" for g p
    using ok that by (simp add: aggr_ok_def)
  show "aggr_ok s'"
    unfolding aggr_ok_def e tookD(6) [OF t]
  proof (intro conjI allI impI)
    fix g p assume n: "items s' (FuncQ g p) \<noteq> []"
    have c: "items s' (FuncQ g p) = ((content s)(pl := xs)) (Queued g p)" using xs(2) by (metis content.simps(2))
    show "TXN_PARAM_GET_AGGREGATE (uTxnParams s (last (items s' (FuncQ g p)))) = TXN_AGGREGATE_OFF"
      using last [of g p] n xs(1) unfolding c by (cases "pl = Queued g p") (auto simp del: content.simps split: if_splits)
  next
    fix g p assume "pAggregQueue s' = Some (FuncQ g p)"
    then have pl: "pl = Queued g p" and on: "TXN_PARAM_GET_AGGREGATE (uTxnParams s x) \<noteq> TXN_AGGREGATE_OFF"
      using a by (auto simp: aggr_after_def split: place.splits if_splits)
    have ne: "xs \<noteq> []" using last [of g p] on xs(1) pl by (auto simp del: content.simps)
    have "(\<lambda>pl. content s' pl \<noteq> []) = (\<lambda>pl. content s pl \<noteq> [])"
      using xs ne by (auto simp: fun_eq_iff simp del: content.simps)
    then show "List.find (\<lambda>pl. content s' pl \<noteq> []) (eligible_places s) = Some (Queued g p)" using f pl by simp
  qed
qed

section \<open>The life of a transaction\<close>

lemma single_content:
  "pSingleStep (info s f) = (case content s (Single f) of [] \<Rightarrow> NULL | y # ys \<Rightarrow> y)"
  by simp

lemma items_place: "items s (FuncQ f p) = content s (Queued f p)"
  by simp

lemma took_loose:
  assumes st: "txnq_struct s" and tx: "txnq_txns s" and t: "took s x pl s'"
  shows "loose s' x" and "registered s (func_of s x)" and "\<And>f. f < 4 \<Longrightarrow> pSingleStep (info s' f) \<noteq> x"
    and "pCurrTxn s \<noteq> x" and "\<And>k. set (items s' k) \<subseteq> set (items s k)"
    and "\<And>y. loose s y \<Longrightarrow> loose s' y"
    and "\<And>f. pSingleStep (info s' f) \<noteq> NULL \<Longrightarrow> pSingleStep (info s' f) = pSingleStep (info s f)"
proof -
  obtain xs where xs: "content s pl = x # xs" "content s' = (content s)(pl := xs)"
    using t by (auto simp: took_def)
  note ok = txnq_structD(1) [OF st]
  note v = fam_params_valid [OF tookD(4) [OF t], of 0]
  show sub: "set (items s' k) \<subseteq> set (items s k)" for k
  proof (cases k)
    case (FuncQ f p)
    then have "items s' k = ((content s)(pl := xs)) (Queued f p)" "items s k = content s (Queued f p)"
      using xs(2) items_place [of s' f p] items_place [of s f p] by simp_all
    then show ?thesis using xs(1) by (auto simp del: content.simps split: if_splits)
  qed (use t in \<open>auto simp: took_def\<close>)
  show lo: "loose s' y" if "loose s y" for y using that v sub by (auto simp: loose_def)
  have x1: "xs = []" if "pl = Single f" for f using xs(1) that by (auto split: if_splits)
  show sg: "pSingleStep (info s' f) \<noteq> NULL \<Longrightarrow> pSingleStep (info s' f) = pSingleStep (info s f)" for f
    using xs(2) x1 [of f] unfolding single_content
    by (auto simp del: content.simps split: if_splits list.splits)
  have "registered s (func_of s x) \<and> loose s' x \<and> pCurrTxn s \<noteq> x \<and> (\<forall>f < 4. pSingleStep (info s' f) \<noteq> x)"
  proof (cases pl)
    case (Single g)
    then have g: "g < 4" "pSingleStep (info s g) = x" "pSingleStep (info s' g) = NULL"
      using tookD(5) [OF t] xs x1 single_content [of s' g] by (auto simp: all_places_def split: if_splits)
    then have lx: "loose s x" "func_of s x = g" using tx tookD(3) [OF t] by (auto simp: txnq_txns_def)
    moreover have "pCurrTxn s \<noteq> x" using tx g tookD(3) [OF t] by (auto simp: txnq_txns_def)
    moreover have "pSingleStep (info s' f) \<noteq> x" if "f < 4" for f
      using sg [of f] tx that g lx tookD(3) [OF t] by (cases "f = g") (auto simp: txnq_txns_def)
    ultimately show ?thesis
      using txnq_structD(11) [OF st g(1)] g(2) tookD(3) [OF t] lo by simp
  next
    case (Queued g p)
    then have it: "items s (FuncQ g p) = x # xs" "items s' (FuncQ g p) = xs"
      using xs items_place [of s' g p] by simp_all
    have "queues s (FuncQ g p) \<noteq> None" using it(1) items_queue by simp
    then have "registered s g"
      using txnq_structD(4,7) [OF st, of g] by (fastforce simp: registered_def)
    moreover have "func_of s x = g" by (rule txnq_txnsD(1) [OF tx, of x g p]) (simp add: it(1))
    moreover have "x \<notin> set (items s' k)" for k
    proof (cases "k = FuncQ g p")
      case True
      then show ?thesis using fam_items_distinct [OF ok, of "FuncQ g p"] it by (simp add: items_def)
    next
      case False
      then have "x \<notin> set (items s k)"
        using fam_items_disjoint [OF ok, of x "FuncQ g p" k] it(1) by (auto simp: items_def)
      then show ?thesis using sub by blast
    qed
    moreover have "fam_valid 0 (queues s) x" using t Queued by (auto simp: took_def)
    moreover have nl: "\<not> loose s x"
      unfolding loose_def using it(1) by (metis list.set_intros(1))
    moreover have "pCurrTxn s \<noteq> x" using tx nl tookD(3) [OF t] by (auto simp: txnq_txns_def)
    moreover have "pSingleStep (info s' f) \<noteq> x" if "f < 4" for f
      using sg [of f] tx nl that tookD(3) [OF t] by (auto simp: txnq_txns_def)
    ultimately show ?thesis using v by (simp add: loose_def)
  qed
  then show "registered s (func_of s x)" "loose s' x" "pCurrTxn s \<noteq> x"
    and "\<And>f. f < 4 \<Longrightarrow> pSingleStep (info s' f) \<noteq> x" by blast+
qed

lemma all_places_distinct: "distinct all_places"
  by (simp add: all_places_def upt_rec)

lemma mset_concat_upd:
  "distinct ks \<Longrightarrow> k \<in> set ks \<Longrightarrow> c k = x # xs \<Longrightarrow>
     mset (concat (map c ks)) = add_mset x (mset (concat (map (c(k := xs)) ks)))"
proof (induction ks)
  case (Cons a ks)
  show ?case
  proof (cases "a = k")
    case True
    have m: "map (c(k := xs)) ks = map c ks" using Cons(2) True by (intro map_cong) auto
    show ?thesis using Cons(4) True by (simp add: m del: fun_upd_apply) (simp add: fun_upd_same)
  qed (use Cons in simp)
qed simp

lemma took_waiting:
  assumes "took s x pl s'"
  shows "mset (waiting s) = add_mset x (mset (waiting s'))" and "length (waiting s) = Suc (length (waiting s'))"
proof -
  obtain xs where "content s pl = x # xs" "content s' = (content s)(pl := xs)"
    using assms by (auto simp: took_def)
  then show *: "mset (waiting s) = add_mset x (mset (waiting s'))"
    using mset_concat_upd [OF all_places_distinct tookD(5) [OF assms]] by (simp add: waiting_def)
  show "length (waiting s) = Suc (length (waiting s'))"
    using arg_cong [OF *, of size] by simp
qed

section \<open>Sending\<close>

text \<open>
  The bus driver writes the outcome into the attributes of the transaction it is given, and leaves
  its function alone.
\<close>

definition bus_quiet :: "bus_drv \<Rightarrow> bool" where
  "bus_quiet bus \<longleftrightarrow> (\<forall>x s. \<exists>w. snd (bus x s) = s\<lparr>uTxnParams := (uTxnParams s)(x := w)\<rparr> \<and>
     TXN_PARAM_GET_FUNC_ID w = TXN_PARAM_GET_FUNC_ID (uTxnParams s x))"

primrec sent1 :: "txn_event \<Rightarrow> ptr list" where
  "sent1 (Sent p st) = [p]"
| "sent1 (Reported f h p) = []"

primrec pending1 :: "txn_event \<Rightarrow> ptr list" where
  "pending1 (Sent p st) = (if st = TXN_STATUS_PENDING then [p] else [])"
| "pending1 (Reported f h p) = []"

primrec finished1 :: "txn_event \<Rightarrow> ptr list" where
  "finished1 (Sent p st) = (if st = TXN_STATUS_PENDING then [] else [p])"
| "finished1 (Reported f h p) = []"

primrec reported1 :: "txn_event \<Rightarrow> ptr list" where
  "reported1 (Sent p st) = []"
| "reported1 (Reported f h p) = [p]"

definition sent :: "txn_event list \<Rightarrow> ptr list" where "sent ev = concat (map sent1 ev)"
definition pending :: "txn_event list \<Rightarrow> ptr list" where "pending ev = concat (map pending1 ev)"
definition finished :: "txn_event list \<Rightarrow> ptr list" where "finished ev = concat (map finished1 ev)"
definition reported :: "txn_event list \<Rightarrow> ptr list" where "reported ev = concat (map reported1 ev)"

lemmas event_defs = sent_def pending_def finished_def reported_def

definition curr :: "TTxnQObj \<Rightarrow> ptr list" where
  "curr s = (if pCurrTxn s = NULL then [] else [pCurrTxn s])"

text \<open>Handing the selected transaction to the bus.\<close>

lemma txnq_send:
  assumes ok: "txnq_ok s" and c: "pCurrTxn s = NULL" and t: "took s x pl s1" and bus: "bus_quiet bus"
    and b: "bus x (s1\<lparr>pCurrTxn := x\<rparr>) = (st, s2)"
  shows "txnq_ok s2" and "core s2 = core s" and "func_of s2 = func_of s" and "pCurrTxn s2 = x"
    and "content s2 = content s1" and "items s2 = items s1" and "queues s2 = queues s1"
    and "pAggregQueue s2 = pAggregQueue s1" and "\<And>y. y \<noteq> x \<Longrightarrow> uTxnParams s2 y = uTxnParams s y"
proof -
  have st: "txnq_struct s" and tx: "txnq_txns s" using ok by (simp_all add: txnq_ok_def)
  obtain w where s2: "s2 = s1\<lparr>pCurrTxn := x, uTxnParams := (uTxnParams s1)(x := w)\<rparr>"
    and w: "TXN_PARAM_GET_FUNC_ID w = TXN_PARAM_GET_FUNC_ID (uTxnParams s1 x)"
  proof -
    obtain w where "snd (bus x (s1\<lparr>pCurrTxn := x\<rparr>)) =
        s1\<lparr>pCurrTxn := x\<rparr>\<lparr>uTxnParams := (uTxnParams (s1\<lparr>pCurrTxn := x\<rparr>))(x := w)\<rparr>"
        "TXN_PARAM_GET_FUNC_ID w = TXN_PARAM_GET_FUNC_ID (uTxnParams (s1\<lparr>pCurrTxn := x\<rparr>) x)"
      using bus unfolding bus_quiet_def by blast
    then show ?thesis using that b by simp
  qed
  show "pCurrTxn s2 = x" "content s2 = content s1" "items s2 = items s1" "queues s2 = queues s1"
      "pAggregQueue s2 = pAggregQueue s1" "\<And>y. y \<noteq> x \<Longrightarrow> uTxnParams s2 y = uTxnParams s y"
    using tookD(6) [OF t] by (simp_all add: s2)
  show co: "core s2 = core s" using tookD(1) [OF t] by (simp add: s2 core_def)
  show fo: "func_of s2 = func_of s" using w tookD(6) [OF t] by (simp add: s2 func_of_def fun_eq_iff)
  have l: "length (aFuncInfo s) = 4" and i2: "aFuncInfo s2 = aFuncInfo s1" using st by (simp_all add: txnq_struct_def s2)
  note lo = took_loose [OF st tx t]
  have lo2: "loose s2 y = loose s1 y" for y by (simp add: loose_def s2)
  have "txnq_txns s2"
    unfolding txnq_txns_def fo core_registered(1) [OF co l] lo2 \<open>items s2 = items s1\<close> \<open>pCurrTxn s2 = x\<close> i2
  proof (intro conjI allI ballI impI)
    show "func_of s y = f" if "y \<in> set (items s1 (FuncQ f p))" for f p y
      using that lo(5) txnq_txnsD(1) [OF tx] by blast
    show "registered s (func_of s y)" if "y \<in> set (items s1 DoneQ)" for y
      using that lo(5) txnq_txnsD(2) [OF tx] by blast
    show "loose s1 (pSingleStep (info s1 f))" "func_of s (pSingleStep (info s1 f)) = f"
      if "f < 4" "pSingleStep (info s1 f) \<noteq> NULL" for f
      using lo(6) lo(7) [OF that(2)] txnq_txnsD(3,4) [OF tx that(1)] that(2) by auto
  qed (use lo in auto)
  then show "txnq_ok s2" using tookD(2) [OF t] by (simp add: txnq_ok_def s2)
qed

text \<open>A completed transaction goes to the done queue, unless the caller is waiting for it.\<close>

lemma txnq_completed:
  assumes ok: "txnq_ok s" and c: "pCurrTxn s = x" "x \<noteq> NULL"
  obtains s' where "txn_done True (s\<lparr>pCurrTxn := NULL\<rparr>) x y = Some s'" and "txnq_ok s'" and "pCurrTxn s' = NULL"
    and "core s' = core s" and "uTxnParams s' = uTxnParams s" and "content s' = content s"
    and "fam_params (queues s') = fam_params (queues s)" and "pAggregQueue s' = pAggregQueue s"
    and "items s' DoneQ = items s DoneQ @ (if x = y then [] else [x])"
    and "\<And>n. items s' (ClientQ n) = items s (ClientQ n)"
proof (cases "x = y")
  case True
  have "txnq_ok (s\<lparr>pCurrTxn := NULL\<rparr>)"
    using ok by (simp add: txnq_ok_def txnq_txns_def registered_def func_of_def loose_def)
  then show ?thesis
    using True that [of "s\<lparr>pCurrTxn := NULL\<rparr>"] by (simp add: txn_done_def core_def)
next
  case False
  let ?s = "s\<lparr>pCurrTxn := NULL\<rparr>"
  have st: "txnq_struct s" and tx: "txnq_txns s" using ok by (simp_all add: txnq_ok_def)
  obtain q where q: "queues s DoneQ = Some q" using txnq_structD(3) [OF st] by blast
  have u: "uLimit q = QUE_UNLIMITED_SIZE" by (rule txnq_structD(5) [OF st q]) simp
  have lx: "loose s x" using txnq_txnsD(5) [OF tx] c by simp
  then have lx': "loose ?s x" by (simp add: loose_def)
  obtain h' qs' where e: "enqueue True ?s DoneQ x = Some (TI_OK, ?s\<lparr>links := h', queues := qs'\<rparr>)"
      "fam_ok 0 h' qs'" "fam_params qs' = fam_params (queues s)" "fam_items h' qs' = (items s)(DoneQ := items s DoneQ @ [x])"
    by (rule enqueue_loose [of ?s DoneQ q x True]) (use txnq_structD(1) [OF st] q u lx' in simp_all)
  let ?t = "?s\<lparr>links := h', queues := qs'\<rparr>"
  have co: "content ?t = content s"
    by (rule content_eqI) (simp_all add: e(4))
  have lo: "loose ?t y \<longleftrightarrow> loose s y \<and> y \<noteq> x" for y
    using fam_params_valid [OF e(3), of 0] by (auto simp: loose_def e(4) split: if_splits)
  have "txnq_txns ?t"
    unfolding txnq_txns_def lo
    using tx c lx txnq_txnsD(6,7) [OF tx] by (auto simp: txnq_txns_def registered_def func_of_def e(4))
  moreover have "txnq_struct ?t" using struct_queues [OF _ e(2), of ?s] st e(3) by simp
  ultimately have "txnq_ok ?t" by (simp add: txnq_ok_def)
  then show ?thesis
    using False e co that [of ?t] by (simp add: txn_done_def core_def)
qed

fun status_of :: "ptr \<Rightarrow> ETxnStatus \<Rightarrow> txn_event list \<Rightarrow> ETxnStatus" where
  "status_of x st [] = st"
| "status_of x st (Sent p e # ev) = status_of x (if p = x then e else st) ev"
| "status_of x st (Reported f h p # ev) = status_of x st ev"

text \<open>
  What the sending loop does to the module: it ends; the transactions sent leave their places, the
  completed ones other than the caller's go to the done queue in the order they were sent, and at
  most the last one is kept by the bus.
\<close>

definition send_result ::
  "TTxnQObj \<Rightarrow> ptr \<Rightarrow> ETxnStatus \<Rightarrow> ETxnStatus \<times> txn_event list \<times> TTxnQObj \<Rightarrow> bool" where
  "send_result s y st0 r = (case r of (st, ev, s') \<Rightarrow>
     txnq_ok s' \<and> core s' = core s \<and> fam_params (queues s') = fam_params (queues s) \<and> func_of s' = func_of s \<and>
     mset (waiting s) = mset (sent ev) + mset (waiting s') \<and> reported ev = [] \<and>
     items s' DoneQ = items s DoneQ @ List.filter (\<lambda>x. x \<noteq> y) (finished ev) \<and>
     curr s' = pending ev \<and> st = status_of y st0 ev \<and>
     (pending ev = [] \<longrightarrow> idle s') \<and>
     (aggr_ok s \<longrightarrow> aggr_ok s' \<and> eligible s = sent ev @ eligible s') \<and>
     (\<forall>n. items s' (ClientQ n) = items s (ClientQ n)) \<and>
     (\<forall>x. x \<notin> set (sent ev) \<longrightarrow> uTxnParams s' x = uTxnParams s x))"

lemma send_loop_spec:
  assumes bus: "bus_quiet bus"
  shows "txnq_ok s \<Longrightarrow> pCurrTxn s = NULL \<Longrightarrow>
    \<exists>r. send_loop True bus y st0 s = Some r \<and> send_result s y st0 r"
proof (induction "length (waiting s)" arbitrary: s st0)
  case less: 0
  have st: "txnq_struct s" using less by (simp add: txnq_ok_def)
  from select_cases [OF st] have "txnQ_SelectTxn True s = Some (NULL, s) \<and> idle s"
    using took_waiting(2) less(1) by cases auto
  then show ?case
    using less by (subst send_loop.simps) (simp add: send_result_def event_defs curr_def)
next
  case (Suc n)
  have st: "txnq_struct s" using Suc(3) by (simp add: txnq_ok_def)
  from select_cases [OF st] show ?case
  proof cases
    case 1
    then show ?thesis
      using Suc(3,4) by (subst send_loop.simps) (simp add: send_result_def event_defs curr_def)
  next
    case (2 x pl s1)
    obtain e s2 where b: "bus x (s1\<lparr>pCurrTxn := x\<rparr>) = (e, s2)" by (cases "bus x (s1\<lparr>pCurrTxn := x\<rparr>)")
    note sd = txnq_send [OF Suc(3,4) 2(2) bus b]
    have x: "x \<noteq> NULL" using tookD(3) [OF 2(2)] .
    have it: "items s2 DoneQ = items s DoneQ" "\<And>n. items s2 (ClientQ n) = items s (ClientQ n)"
      using 2(2) sd(6) by (auto simp: took_def)
    have w2: "waiting s2 = waiting s1" using sd(5) by (simp add: waiting_def)
    have p2: "fam_params (queues s2) = fam_params (queues s)" using tookD(4) [OF 2(2)] sd(7) by simp
    have el: "aggr_ok s2 \<and> eligible s = x # eligible s2" if "aggr_ok s"
    proof -
      note te = took_eligible [OF st that 2(2,3) 2(4) [OF that]]
      have "txnq_struct s2" using sd(1) by (simp add: txnq_ok_def)
      then have "eligible_places s2 = eligible_places s1"
        using core_eligible_places [of s2 s1] core_eligible_places [of s1 s] sd(2) tookD(1,2) [OF 2(2)] st by simp
      moreover have "uTxnParams s2 (last (items s1 (FuncQ f p))) = uTxnParams s (last (items s1 (FuncQ f p)))"
        if "items s1 (FuncQ f p) \<noteq> []" for f p
        using took_loose(1) [OF st _ 2(2)] Suc(3) last_in_set [OF that]
        by (intro sd(9)) (auto simp: txnq_ok_def loose_def)
      ultimately show ?thesis
        using te sd(5,6,8) tookD(6) [OF 2(2)] by (simp add: aggr_ok_def eligible_def)
    qed
    show ?thesis
    proof (cases "e = TXN_STATUS_PENDING")
      case True
      then have "send_loop True bus y st0 s = Some (if x = y then e else st0, [Sent x e], s2)"
        using 2 b x by (subst send_loop.simps) simp
      moreover have "send_result s y st0 (if x = y then e else st0, [Sent x e], s2)"
        using sd True it p2 w2 took_waiting(1) [OF 2(2)] x el by (simp add: send_result_def event_defs curr_def)
      ultimately show ?thesis by blast
    next
      case False
      obtain s3 where d: "txn_done True (s2\<lparr>pCurrTxn := NULL\<rparr>) x y = Some s3"
        and s3: "txnq_ok s3" "pCurrTxn s3 = NULL" "core s3 = core s2" "uTxnParams s3 = uTxnParams s2"
          "content s3 = content s2" "fam_params (queues s3) = fam_params (queues s2)"
          "pAggregQueue s3 = pAggregQueue s2" "items s3 DoneQ = items s2 DoneQ @ (if x = y then [] else [x])"
          "\<And>n. items s3 (ClientQ n) = items s2 (ClientQ n)"
        using txnq_completed [OF sd(1,4) x, of y] by blast
      have w3: "waiting s3 = waiting s1" using s3(5) w2 by (simp add: waiting_def)
      have "txnq_struct s3" using s3(1) by (simp add: txnq_ok_def)
      then have e3: "eligible_places s3 = eligible_places s2"
        using core_eligible_places [of s2 s3] s3(3) by simp
      then have el3: "aggr_ok s3 \<and> eligible s = x # eligible s3" if "aggr_ok s"
        using el [OF that] s3(4,5,7) items_place [of s3] items_place [of s2]
        by (simp add: aggr_ok_def eligible_def del: content.simps)
      have f3: "func_of s3 = func_of s" using s3(4) sd(3) by (simp add: func_of_def fun_eq_iff)
      obtain st ev s4 where r: "send_loop True bus y (if x = y then e else st0) s3 = Some (st, ev, s4)"
          "send_result s3 y (if x = y then e else st0) (st, ev, s4)"
        using Suc(1) [of s3 "if x = y then e else st0"] s3(1,2) w3 Suc(2) took_waiting(2) [OF 2(2)] by auto
      have "send_loop True bus y st0 s = Some (st, Sent x e # ev, s4)"
        using 2 b x False d r(1) by (subst send_loop.simps) simp
      moreover have "send_result s y st0 (st, Sent x e # ev, s4)"
        using r(2) s3 sd it p2 w3 f3 el3 False took_waiting(1) [OF 2(2)]
        by (auto simp: send_result_def event_defs)
      ultimately show ?thesis by blast
    qed
  qed
qed

section \<open>Reporting\<close>

text \<open>
  What a client does with a transaction that it is given: it may change it, and queue it in a queue
  of its own.
\<close>

definition client_step :: "ptr \<Rightarrow> TTxnQObj \<Rightarrow> TTxnQObj \<Rightarrow> bool" where
  "client_step x s s' \<longleftrightarrow> core s' = core s \<and> aFuncInfo s' = aFuncInfo s \<and> pCurrTxn s' = pCurrTxn s \<and>
     pAggregQueue s' = pAggregQueue s \<and>
     fam_ok off_tTxnQNode (links s') (queues s') \<and> fam_params (queues s') = fam_params (queues s) \<and>
     (\<forall>k. (\<forall>n. k \<noteq> ClientQ n) \<longrightarrow> items s' k = items s k) \<and>
     (\<forall>y. y \<noteq> x \<longrightarrow> uTxnParams s' y = uTxnParams s y) \<and>
     (\<forall>n. \<forall>y \<in> set (items s' (ClientQ n)). y = x \<or> (\<exists>m. y \<in> set (items s (ClientQ m))))"

definition cb_quiet :: "done_cb \<Rightarrow> bool" where
  "cb_quiet cb \<longleftrightarrow> (\<forall>f h x s. txnq_struct s \<longrightarrow> loose s x \<longrightarrow> client_step x s (cb f h x s))"

text \<open>The transaction is not one that the module still holds.\<close>

definition owned :: "TTxnQObj \<Rightarrow> ptr \<Rightarrow> bool" where
  "owned s x \<longleftrightarrow> x \<in> set (waiting s) \<or> x \<in> set (curr s) \<or> x \<in> set (items s DoneQ)"

lemma waiting_Queued: "txnq_struct s \<Longrightarrow> x \<in> set (items s (FuncQ f p)) \<Longrightarrow> x \<in> set (waiting s)"
proof -
  assume st: "txnq_struct s" and x: "x \<in> set (items s (FuncQ f p))"
  have "queues s (FuncQ f p) \<noteq> None" by (rule items_queue) (use x in auto)
  then have "f < 4" "p < unat (uNumPrios (info s f))" using txnq_structD(4) [OF st] by blast+
  moreover have "unat (uNumPrios (info s f)) \<le> 2" by (rule txnq_structD(6) [OF st]) fact
  ultimately have "Queued f p \<in> set all_places" by (intro all_places_Queued) simp_all
  then show ?thesis using x unfolding waiting_def by force
qed

lemma waiting_Single: "f < 4 \<Longrightarrow> pSingleStep (info s f) \<noteq> NULL \<Longrightarrow> pSingleStep (info s f) \<in> set (waiting s)"
  unfolding waiting_def all_places_def by (auto intro!: bexI [of _ f])

lemma client_step_ok:
  assumes ok: "txnq_ok s" and c: "client_step x s s'" and x: "\<not> owned s x"
  shows "txnq_ok s'" and "content s' = content s" and "\<And>y. y \<noteq> x \<Longrightarrow> func_of s' y = func_of s y"
proof -
  have st: "txnq_struct s" and tx: "txnq_txns s" using ok by (simp_all add: txnq_ok_def)
  have co: "core s' = core s" "aFuncInfo s' = aFuncInfo s" "pCurrTxn s' = pCurrTxn s"
      "pAggregQueue s' = pAggregQueue s" "fam_ok 0 (links s') (queues s')" "fam_params (queues s') = fam_params (queues s)"
    and it: "\<And>f p. items s' (FuncQ f p) = items s (FuncQ f p)" "items s' DoneQ = items s DoneQ"
    and cl: "\<And>n y. y \<in> set (items s' (ClientQ n)) \<Longrightarrow> y = x \<or> (\<exists>m. y \<in> set (items s (ClientQ m)))"
    and fo: "\<And>y. y \<noteq> x \<Longrightarrow> func_of s' y = func_of s y"
    using c by (auto simp: client_step_def func_of_def)
  show "\<And>y. y \<noteq> x \<Longrightarrow> func_of s' y = func_of s y" by (rule fo)
  show "content s' = content s" by (rule content_eqI) (simp_all add: co(2) it)
  have lo: "loose s' y" if "loose s y" "y \<noteq> x" for y
  proof -
    have "y \<notin> set (items s' k)" for k
      using that it cl [of y] by (cases k) (auto simp: loose_def)
    then show ?thesis using that(1) fam_params_valid [OF co(6), of 0] by (simp add: loose_def)
  qed
  have reg: "registered s' = registered s" by (simp add: registered_def co(2) fun_eq_iff)
  have "txnq_struct s'"
  proof -
    have "txnq_struct (s\<lparr>links := links s', queues := queues s'\<rparr>)" using struct_queues [OF st co(5,6)] .
    then show ?thesis using co coreD [OF co(1)] by (simp add: txnq_struct_def cong: if_cong)
  qed
  moreover have "txnq_txns s'"
    unfolding txnq_txns_def reg it co(2,3)
  proof (intro conjI allI ballI impI)
    show "func_of s' y = f" if "y \<in> set (items s (FuncQ f p))" for f p y
      using fo [of y] waiting_Queued [OF st that] x txnq_txnsD(1) [OF tx that] by (auto simp: owned_def)
    show "registered s (func_of s' y)" if "y \<in> set (items s DoneQ)" for y
      using fo [of y] x txnq_txnsD(2) [OF tx that] that by (cases "y = x") (simp_all add: owned_def)
    show "loose s' (pSingleStep (info s f))" "func_of s' (pSingleStep (info s f)) = f"
      if "f < 4" "pSingleStep (info s f) \<noteq> NULL" for f
      using fo [of "pSingleStep (info s f)"] lo waiting_Single [OF that] x txnq_txnsD(3,4) [OF tx that]
      by (auto simp: owned_def)
    show "loose s' (pCurrTxn s)" "registered s (func_of s' (pCurrTxn s))" if "pCurrTxn s \<noteq> NULL"
      using fo [of "pCurrTxn s"] lo x txnq_txnsD(5,6) [OF tx that] that by (auto simp: owned_def curr_def)
  qed (use txnq_txnsD(7) [OF tx] in auto)
  ultimately show "txnq_ok s'" by (simp add: txnq_ok_def)
qed

text \<open>Taking a transaction out of the done queue.\<close>

lemma txnq_take_done:
  assumes ok: "txnq_ok s" and it: "items s DoneQ = x # xs"
  obtains s' where "dequeue True s DoneQ = Some (x, s')" and "txnq_ok s'" and "x \<noteq> NULL" and "loose s' x"
    and "core s' = core s" and "aFuncInfo s' = aFuncInfo s" and "content s' = content s" and "items s' DoneQ = xs"
    and "fam_params (queues s') = fam_params (queues s)" and "uTxnParams s' = uTxnParams s"
    and "pCurrTxn s' = pCurrTxn s" and "pAggregQueue s' = pAggregQueue s" and "\<not> owned s' x"
    and "registered s (func_of s x)"
proof -
  have st: "txnq_struct s" and tx: "txnq_txns s" using ok by (simp_all add: txnq_ok_def)
  note fo = txnq_structD(1) [OF st]
  obtain h' qs' where d: "dequeue True s DoneQ = Some (x, s\<lparr>links := h', queues := qs'\<rparr>)"
    and f: "fam_ok 0 h' qs'" "fam_params qs' = fam_params (queues s)" "x \<noteq> NULL" "fam_valid 0 (queues s) x"
      "fam_items h' qs' = (items s)(DoneQ := xs)"
    using dequeue_cons [OF fo txnq_structD(3) [OF st] it] by blast
  let ?s = "s\<lparr>links := h', queues := qs'\<rparr>"
  have co: "content ?s = content s" by (rule content_eqI) (simp_all add: f(5))
  have nx: "x \<notin> set (items s k)" if "k \<noteq> DoneQ" for k
    using fam_items_disjoint [OF fo, of x k DoneQ] that it by (auto simp: items_def)
  have dx: "x \<notin> set xs" using fam_items_distinct [OF fo, of DoneQ] it by (simp add: items_def)
  have v: "fam_valid 0 qs' = fam_valid 0 (queues s)" using fam_params_valid [OF f(2)] .
  have lx: "loose ?s x" using nx dx f(4) v by (auto simp: loose_def f(5))
  have sub: "set (items ?s k) \<subseteq> set (items s k)" for k using it by (auto simp: f(5))
  have lo: "loose ?s y" if "loose s y" for y using that v sub unfolding loose_def by auto
  have nl: "\<not> loose s x" using it unfolding loose_def by (metis list.set_intros(1))
  have struct: "txnq_struct ?s" using struct_queues [OF st f(1,2)] .
  have "txnq_txns ?s"
    using tx lo it by (simp add: txnq_txns_def registered_def func_of_def f(5))
  then have ok': "txnq_ok ?s" using struct by (simp add: txnq_ok_def)
  have "x \<notin> set (waiting ?s)"
  proof
    assume "x \<in> set (waiting ?s)"
    then obtain pl where pl: "pl \<in> set all_places" "x \<in> set (content s pl)" by (auto simp: waiting_def co)
    show False
    proof (cases pl)
      case (Single g)
      then have "g < 4" "pSingleStep (info s g) = x" using pl by (auto simp: all_places_def split: if_splits)
      then show ?thesis using txnq_txnsD(3) [OF tx] nl f(3) by metis
    next
      case (Queued g p)
      then show ?thesis using nx pl(2) by simp
    qed
  qed
  moreover have "x \<notin> set (curr ?s)" using txnq_txnsD(5) [OF tx] nl by (auto simp: curr_def)
  ultimately have "\<not> owned ?s x" using dx by (simp add: owned_def f(5))
  moreover have "registered s (func_of s x)" by (rule txnq_txnsD(2) [OF tx]) (simp add: it)
  ultimately show ?thesis
    using that [of ?s] d ok' lx co f by (simp add: core_def)
qed

definition report_of :: "TTxnQObj \<Rightarrow> ptr \<Rightarrow> txn_event" where
  "report_of s x = Reported (fTxnQueueDoneCb (info s (func_of s x))) (hCbHandle (info s (func_of s x))) x"

definition report_result :: "TTxnQObj \<Rightarrow> txn_event list \<times> TTxnQObj \<Rightarrow> bool" where
  "report_result s r = (case r of (ev, s') \<Rightarrow>
     txnq_ok s' \<and> core s' = core s \<and> aFuncInfo s' = aFuncInfo s \<and>
     fam_params (queues s') = fam_params (queues s) \<and> content s' = content s \<and>
     pCurrTxn s' = pCurrTxn s \<and> pAggregQueue s' = pAggregQueue s \<and> items s' DoneQ = [] \<and>
     ev = map (report_of s) (items s DoneQ) \<and>
     (\<forall>x. x \<notin> set (items s DoneQ) \<longrightarrow> uTxnParams s' x = uTxnParams s x))"

lemma report_loop_spec:
  assumes cb: "cb_quiet cb"
  shows "txnq_ok s \<Longrightarrow> items s DoneQ = xs \<Longrightarrow> \<exists>r. report_loop True cb s = Some r \<and> report_result s r"
proof (induction xs arbitrary: s)
  case Nil
  have st: "txnq_struct s" using Nil by (simp add: txnq_ok_def)
  have "dequeue True s DoneQ = Some (NULL, s)"
    using dequeue_empty [OF txnq_structD(1,3) [OF st] Nil(2)] .
  then show ?case using Nil by (subst report_loop.simps) (simp add: report_result_def)
next
  case (Cons x xs)
  obtain s1 where d: "dequeue True s DoneQ = Some (x, s1)" "txnq_ok s1" "x \<noteq> NULL" "loose s1 x"
      "core s1 = core s" "aFuncInfo s1 = aFuncInfo s" "content s1 = content s" "items s1 DoneQ = xs"
      "fam_params (queues s1) = fam_params (queues s)" "uTxnParams s1 = uTxnParams s"
      "pCurrTxn s1 = pCurrTxn s" "pAggregQueue s1 = pAggregQueue s" "\<not> owned s1 x" "registered s (func_of s x)"
    using txnq_take_done [OF Cons(2,3)] by blast
  have st: "txnq_struct s" "txnq_struct s1" using Cons(2) d(2) by (simp_all add: txnq_ok_def)
  have fo: "func_of s1 = func_of s" using d(10) by (simp add: func_of_def fun_eq_iff)
  have "fTxnQueueDoneCb (info s1 (func_of s1 x)) \<noteq> NULL" "func_of s1 x < length (aFuncInfo s1)"
    using txnq_structD(8) [OF st(1) d(14)] d(14) txnq_structD(2) [OF st(1)] by (simp_all add: d(6) fo registered_def)
  then obtain s2 where rt: "report_txn cb s1 x = Some (report_of s x, s2)" and "client_step x s1 s2"
    using cb st(2) d(4) by (simp add: report_txn_def report_of_def cb_quiet_def d(6) fo Let_def)
  note c2 = client_step_ok [OF d(2) this(2) d(13)]
  have s2: "core s2 = core s" "aFuncInfo s2 = aFuncInfo s" "pCurrTxn s2 = pCurrTxn s" "pAggregQueue s2 = pAggregQueue s"
      "fam_params (queues s2) = fam_params (queues s)" "items s2 DoneQ = xs"
      "\<And>y. y \<noteq> x \<Longrightarrow> uTxnParams s2 y = uTxnParams s y"
    using \<open>client_step x s1 s2\<close> d by (auto simp: client_step_def)
  obtain ev s3 where r: "report_loop True cb s2 = Some (ev, s3)" "report_result s2 (ev, s3)"
    using Cons(1) [OF c2(1) s2(6)] by auto
  have "x \<notin> set xs" using d(8,13) by (auto simp: owned_def)
  then have "report_of s2 y = report_of s y" if "y \<in> set xs" for y
    using that s2(2) s2(7) [of y] by (cases "y = x") (simp_all add: report_of_def func_of_def)
  then have e: "map (report_of s2) xs = map (report_of s) xs" by simp
  have "report_loop True cb s = Some (report_of s x # ev, s3)"
    using d rt r(1) by (subst report_loop.simps) simp
  moreover have "report_result s (report_of s x # ev, s3)"
    using r(2) s2 c2(2) d Cons(3) e by (simp add: report_result_def)
  ultimately show ?case by blast
qed

section \<open>Every transaction is in one place\<close>

definition inside :: "TTxnQObj \<Rightarrow> ptr list" where
  "inside s = waiting s @ curr s @ items s DoneQ"

lemma owned_inside: "owned s x \<longleftrightarrow> x \<in> set (inside s)"
  by (simp add: owned_def inside_def)

lemma distinct_concat_map:
  "distinct ks \<Longrightarrow> (\<And>k. k \<in> set ks \<Longrightarrow> distinct (c k)) \<Longrightarrow>
     (\<And>k l. k \<in> set ks \<Longrightarrow> l \<in> set ks \<Longrightarrow> k \<noteq> l \<Longrightarrow> set (c k) \<inter> set (c l) = {}) \<Longrightarrow> distinct (concat (map c ks))"
proof (induction ks)
  case (Cons a ks)
  have "distinct (concat (map c ks))" by (rule Cons(1)) (use Cons(2-4) in auto)
  moreover have "set (c a) \<inter> set (c l) = {}" if "l \<in> set ks" for l using Cons(2) Cons(4) [of a l] that by auto
  ultimately show ?case using Cons(3) [of a] by auto
qed simp

lemma content_loose:
  assumes "txnq_ok s" "Single f \<in> set all_places" "x \<in> set (content s (Single f))"
  shows "loose s x" "func_of s x = f" "x \<noteq> NULL" "x \<noteq> pCurrTxn s"
proof -
  have "f < 4" "pSingleStep (info s f) = x" "x \<noteq> NULL" using assms by (auto simp: all_places_def split: if_splits)
  then show "loose s x" "func_of s x = f" "x \<noteq> NULL" "x \<noteq> pCurrTxn s"
    using txnq_txnsD(3,4,7) [of s f] assms(1) by (auto simp: txnq_ok_def)
qed

lemma distinct_inside:
  assumes ok: "txnq_ok s"
  shows "distinct (inside s)"
proof -
  have st: "txnq_struct s" and tx: "txnq_txns s" using ok by (simp_all add: txnq_ok_def)
  note fo = txnq_structD(1) [OF st]
  have q: "k = l" if "x \<in> set (items s k)" "x \<in> set (items s l)" for x k l
    using fam_items_disjoint [OF fo] that by (simp add: items_def)
  have lq: "\<not> loose s x" if "x \<in> set (items s k)" for x k using that by (auto simp: loose_def)
  have "set (content s k) \<inter> set (content s l) = {}"
    if "k \<in> set all_places" "l \<in> set all_places" "k \<noteq> l" for k l
  proof (rule ccontr)
    assume "set (content s k) \<inter> set (content s l) \<noteq> {}"
    then obtain x where x: "x \<in> set (content s k)" "x \<in> set (content s l)" by blast
    show False
    proof (cases k)
      case k: (Single f)
      show False
      proof (cases l)
        case (Single g)
        then show ?thesis using content_loose(2) [OF ok] that x k by metis
      next
        case (Queued g p)
        then show ?thesis using content_loose(1) [OF ok, of f x] that(1) x k lq [of x "FuncQ g p"] by (simp del: content.simps(1))
      qed
    next
      case k: (Queued f p)
      show False
      proof (cases l)
        case (Single g)
        then show ?thesis using content_loose(1) [OF ok, of g x] that(2) x k lq [of x "FuncQ f p"] by (simp del: content.simps(1))
      next
        case (Queued g r)
        then show ?thesis using q [of x "FuncQ f p" "FuncQ g r"] that(3) x k by simp
      qed
    qed
  qed
  then have "distinct (waiting s)"
    unfolding waiting_def
  proof (intro distinct_concat_map all_places_distinct)
    show "distinct (content s k)" for k
      using fam_items_distinct [OF fo] by (cases k) (simp_all add: items_def)
  qed
  moreover have "x \<notin> set (waiting s)" if "x \<in> set (items s DoneQ)" for x
  proof
    assume "x \<in> set (waiting s)"
    then obtain pl where pl: "pl \<in> set all_places" "x \<in> set (content s pl)" by (auto simp: waiting_def)
    show False
    proof (cases pl)
      case (Single f)
      then show ?thesis using content_loose(1) [OF ok] pl lq [OF that] by blast
    next
      case (Queued f p)
      then show ?thesis using q [OF that, of "FuncQ f p"] pl(2) by simp
    qed
  qed
  moreover have "x \<notin> set (waiting s)" if x: "x \<in> set (curr s)" for x
  proof
    assume "x \<in> set (waiting s)"
    then obtain pl where pl: "pl \<in> set all_places" "x \<in> set (content s pl)" by (auto simp: waiting_def)
    have c: "loose s x" "x = pCurrTxn s" using x txnq_txnsD(5) [OF tx] by (auto simp: curr_def split: if_splits)
    show False
    proof (cases pl)
      case (Single f)
      then show ?thesis using content_loose(4) [OF ok] pl c(2) by blast
    next
      case (Queued f p)
      then show ?thesis using lq [of x "FuncQ f p"] pl(2) c(1) by simp
    qed
  qed
  moreover have "x \<notin> set (items s DoneQ)" if "x \<in> set (curr s)" for x
    using that txnq_txnsD(5) [OF tx] lq by (auto simp: curr_def split: if_splits)
  moreover have "distinct (items s DoneQ)" using fam_items_distinct [OF fo] by (simp add: items_def)
  ultimately show ?thesis by (auto simp: inside_def curr_def)
qed

section \<open>The scheduler\<close>

definition sched_result ::
  "TTxnQObj \<Rightarrow> ptr \<Rightarrow> ETxnStatus \<times> txn_event list \<times> TTxnQObj \<Rightarrow> bool" where
  "sched_result s y r = (case r of (st, ev, s') \<Rightarrow>
     txnq_ok s' \<and> core s' = core s \<and> fam_params (queues s') = fam_params (queues s) \<and>
     mset (inside s) = mset (inside s') + mset (reported ev) + mset (List.filter (\<lambda>x. x = y) (finished ev)) \<and>
     st = status_of y TXN_STATUS_PENDING ev \<and> (curr s' = [] \<longrightarrow> idle s') \<and> set (sent ev) \<subseteq> set (waiting s) \<and>
     distinct (sent ev) \<and>
     (curr s = [] \<longrightarrow> reported ev = items s DoneQ @ List.filter (\<lambda>x. x \<noteq> y) (finished ev) \<and> items s' DoneQ = []) \<and>
     (aggr_ok s \<longrightarrow> aggr_ok s' \<and> eligible s = sent ev @ eligible s'))"

lemma status_of_reports: "status_of y st (ev @ map (report_of s) xs) = status_of y st ev"
  by (induction y st ev rule: status_of.induct) (simp_all add: report_of_def, induction xs, simp_all)

lemma events_append:
  "sent (a @ b) = sent a @ sent b" "finished (a @ b) = finished a @ finished b"
  "reported (a @ b) = reported a @ reported b" "pending (a @ b) = pending a @ pending b"
  by (simp_all add: event_defs)

lemma events_reports:
  "sent (map (report_of s) xs) = []" "finished (map (report_of s) xs) = []" "pending (map (report_of s) xs) = []"
  "reported (map (report_of s) xs) = xs"
  by (induction xs) (simp_all add: event_defs report_of_def)

lemma sent_split: "mset (sent ev) = mset (pending ev) + mset (finished ev)"
proof (induction ev)
  case (Cons e ev)
  then show ?case by (cases e) (simp_all add: event_defs)
qed (simp add: event_defs)

lemma idle_cong:
  assumes "core s' = core s" "txnq_struct s" "content s' = content s" "pAggregQueue s' = pAggregQueue s"
  shows "idle s' = idle s" "eligible s' = eligible s"
proof -
  have e: "eligible_places s' = eligible_places s" using core_eligible_places [OF assms(1,2)] .
  then show "eligible s' = eligible s" using assms(3) by (simp add: eligible_def)
  moreover have "items s' k = items s k" if k: "pAggregQueue s = Some k" for k
  proof -
    obtain f p where "k = FuncQ f p" using txnq_structD(10) [OF assms(2) k] by blast
    then show ?thesis using arg_cong [OF assms(3), of "\<lambda>c. c (Queued f p)"] by simp
  qed
  ultimately show "idle s' = idle s" using assms(4) by (cases "pAggregQueue s") (simp_all add: idle_def)
qed

lemma txnQ_Scheduler_spec:
  assumes bus: "bus_quiet bus" and cb: "cb_quiet cb" and ok: "txnq_ok s"
  shows "\<exists>r. txnQ_Scheduler True bus cb s y = Some r \<and> sched_result s y r"
proof (cases "pCurrTxn s = NULL")
  case False
  then show ?thesis using ok by (simp add: txnQ_Scheduler_def sched_result_def event_defs curr_def)
next
  case True
  obtain st ev1 s1 where l: "send_loop True bus y TXN_STATUS_PENDING s = Some (st, ev1, s1)"
      "send_result s y TXN_STATUS_PENDING (st, ev1, s1)"
    using send_loop_spec [OF bus ok True, of y TXN_STATUS_PENDING] by (metis prod_cases3)
  have s1: "txnq_ok s1" "core s1 = core s" "fam_params (queues s1) = fam_params (queues s)"
      "mset (waiting s) = mset (sent ev1) + mset (waiting s1)" "reported ev1 = []"
      "items s1 DoneQ = items s DoneQ @ List.filter (\<lambda>x. x \<noteq> y) (finished ev1)"
      "curr s1 = pending ev1" "st = status_of y TXN_STATUS_PENDING ev1" "pending ev1 = [] \<longrightarrow> idle s1"
      "aggr_ok s \<longrightarrow> aggr_ok s1 \<and> eligible s = sent ev1 @ eligible s1"
    using l(2) by (simp_all add: send_result_def)
  obtain ev2 s2 where r: "report_loop True cb s1 = Some (ev2, s2)" "report_result s1 (ev2, s2)"
    using report_loop_spec [OF cb s1(1) refl] by auto
  have s2: "txnq_ok s2" "core s2 = core s1" "fam_params (queues s2) = fam_params (queues s1)"
      "content s2 = content s1" "pCurrTxn s2 = pCurrTxn s1" "pAggregQueue s2 = pAggregQueue s1" "items s2 DoneQ = []"
      "ev2 = map (report_of s1) (items s1 DoneQ)"
      "\<And>x. x \<notin> set (items s1 DoneQ) \<Longrightarrow> uTxnParams s2 x = uTxnParams s1 x"
    using r(2) by (simp_all add: report_result_def)
  have st1: "txnq_struct s1" using s1(1) by (simp add: txnq_ok_def)
  note ic = idle_cong [OF s2(2) st1 s2(4,6)]
  have w2: "waiting s2 = waiting s1" "curr s2 = curr s1" using s2(4,5) by (simp_all add: waiting_def curr_def)
  have d: "distinct (waiting s)" using distinct_inside [OF ok] by (simp add: inside_def)
  have sent: "set (sent ev1) \<subseteq> set (waiting s)" "distinct (sent ev1)"
  proof -
    have m: "mset (waiting s) = mset (sent ev1 @ waiting s1)" using s1(4) by simp
    show "set (sent ev1) \<subseteq> set (waiting s)" using mset_eq_setD [OF m] by simp
    show "distinct (sent ev1)" using mset_eq_imp_distinct_iff [OF m] d by simp
  qed
  have ag: "aggr_ok s2" if "aggr_ok s1"
  proof -
    have "last (items s1 (FuncQ f p)) \<notin> set (items s1 DoneQ)" if "items s1 (FuncQ f p) \<noteq> []" for f p
      using distinct_inside [OF s1(1)] waiting_Queued [OF st1 last_in_set [OF that]] by (auto simp: inside_def)
    then show ?thesis
      using that s2(6,9) core_eligible_places [OF s2(2) st1] s2(4) items_place [of s1] items_place [of s2]
      by (simp add: aggr_ok_def del: content.simps)
  qed
  let ?r = "(st, ev1 @ ev2, s2)"
  have "txnQ_Scheduler True bus cb s y = Some ?r"
    using True l(1) r(1) by (simp add: txnQ_Scheduler_def)
  moreover have "sched_result s y ?r"
  proof -
    have "mset (finished ev1) = mset (List.filter (\<lambda>x. x \<noteq> y) (finished ev1)) + mset (List.filter (\<lambda>x. x = y) (finished ev1))"
      by (simp add: multiset_partition [of "mset (finished ev1)" "\<lambda>x. x \<noteq> y", symmetric])
    then have "mset (inside s) = mset (inside s2) + mset (reported (ev1 @ ev2)) +
        mset (List.filter (\<lambda>x. x = y) (finished (ev1 @ ev2)))"
      using True s1(4-7) s2(7,8) w2
      by (simp add: inside_def events_append events_reports sent_split curr_def)
    moreover have "status_of y TXN_STATUS_PENDING (ev1 @ ev2) = st"
      unfolding s2(8) s1(8) by (rule status_of_reports)
    ultimately show ?thesis
      using s1 s2 w2 ic ag sent
      by (simp add: sched_result_def events_append events_reports)
  qed
  ultimately show ?thesis by blast
qed

text \<open>
  A run of the scheduler from outside; a caller's transaction is finished in the run exactly if its
  status is not \<open>TXN_STATUS_PENDING\<close>.
\<close>

definition quiet :: "TTxnQObj \<Rightarrow> bool" where
  "quiet s \<longleftrightarrow> \<not> bSchedulerBusy s \<and> \<not> bSchedulerPend s"

lemma status_of_finished:
  "distinct (sent ev) \<Longrightarrow> y \<notin> set (sent ev) \<Longrightarrow> status_of y st ev = st"
  "distinct (sent ev) \<Longrightarrow>
     List.filter (\<lambda>x. x = y) (finished ev) = (if status_of y TXN_STATUS_PENDING ev = TXN_STATUS_PENDING then [] else [y])"
proof -
  have none: "y \<notin> set (sent ev) \<Longrightarrow> status_of y st ev = st \<and> List.filter (\<lambda>x. x = y) (finished ev) = []" for ev st
  proof (induction ev)
    case (Cons e ev)
    then show ?case by (cases e) (auto simp: event_defs)
  qed (simp add: event_defs)
  then show "distinct (sent ev) \<Longrightarrow> y \<notin> set (sent ev) \<Longrightarrow> status_of y st ev = st" by simp
  show "distinct (sent ev) \<Longrightarrow>
     List.filter (\<lambda>x. x = y) (finished ev) = (if status_of y TXN_STATUS_PENDING ev = TXN_STATUS_PENDING then [] else [y])"
  proof (induction ev)
    case (Cons e ev)
    show ?case
    proof (cases e)
      case (Sent x st)
      then show ?thesis using Cons none [of ev st] by (auto simp: event_defs split: if_splits)
    next
      case (Reported f h x)
      then show ?thesis using Cons by (simp add: event_defs)
    qed
  qed (simp add: event_defs)
qed

definition run_result ::
  "TTxnQObj \<Rightarrow> ptr \<Rightarrow> ETxnStatus \<times> txn_event list \<times> TTxnQObj \<Rightarrow> bool" where
  "run_result s y r = (case r of (st, ev, s') \<Rightarrow>
     txnq_ok s' \<and> quiet s' \<and> fam_params (queues s') = fam_params (queues s) \<and>
     registered s' = registered s \<and>
     mset (inside s) = mset (inside s') + mset (reported ev) + (if st = TXN_STATUS_PENDING then {#} else {#y#}) \<and>
     (curr s' = [] \<longrightarrow> idle s') \<and> distinct (sent ev) \<and>
     (curr s = [] \<longrightarrow> reported ev = items s DoneQ @ List.filter (\<lambda>x. x \<noteq> y) (finished ev) \<and> items s' DoneQ = []) \<and>
     (aggr_ok s \<longrightarrow> aggr_ok s' \<and> eligible s = sent ev @ eligible s'))"

lemma scalar_upd [simp]:
  "txnq_ok (s\<lparr>bSchedulerBusy := b\<rparr>) = txnq_ok s" "txnq_ok (s\<lparr>bSchedulerPend := b\<rparr>) = txnq_ok s"
  "inside (s\<lparr>bSchedulerBusy := b\<rparr>) = inside s" "curr (s\<lparr>bSchedulerBusy := b\<rparr>) = curr s"
  "eligible (s\<lparr>bSchedulerBusy := b\<rparr>) = eligible s" "idle (s\<lparr>bSchedulerBusy := b\<rparr>) = idle s"
  "aggr_ok (s\<lparr>bSchedulerBusy := b\<rparr>) = aggr_ok s" "registered (s\<lparr>bSchedulerBusy := b\<rparr>) = registered s"
  by (simp_all add: txnq_ok_def txnq_txns_def registered_def func_of_def loose_def inside_def waiting_def curr_def
      eligible_def eligible_places_def funcs_def prio_order_def uses_prio_def [abs_def] idle_def aggr_ok_def fun_eq_iff
      cong: option.case_cong)

lemma txnQ_RunScheduler_spec:
  assumes bus: "bus_quiet bus" and cb: "cb_quiet cb" and ok: "txnq_ok s" and q: "quiet s"
  shows "\<exists>r. txnQ_RunScheduler True bus cb s y = Some r \<and> run_result s y r"
proof -
  let ?s = "s\<lparr>bSchedulerBusy := True\<rparr>"
  obtain st ev s1 where r: "txnQ_Scheduler True bus cb ?s y = Some (st, ev, s1)" "sched_result ?s y (st, ev, s1)"
    using txnQ_Scheduler_spec [OF bus cb, of ?s y] ok by (metis prod_cases3 scalar_upd(1))
  have c: "core s1 = core ?s" and st: "txnq_struct ?s" using r(2) ok by (simp_all add: sched_result_def txnq_ok_def)
  have p: "\<not> bSchedulerPend s1" using coreD(4) [OF c] q by (simp add: quiet_def)
  then have "txnQ_RunScheduler True bus cb s y = Some (st, ev, s1\<lparr>bSchedulerBusy := False\<rparr>)"
    using q r(1) by (simp add: txnQ_RunScheduler_def quiet_def pend_loop.simps)
  moreover have "registered s1 = registered s"
    using core_registered(1) [OF c] txnq_structD(2) [OF st] by simp
  moreover have "mset (List.filter (\<lambda>x. x = y) (finished ev)) = (if st = TXN_STATUS_PENDING then {#} else {#y#})"
    using r(2) status_of_finished(2) [of ev y] by (simp add: sched_result_def del: mset_filter)
  ultimately show ?thesis
    using r(2) p by (simp add: run_result_def sched_result_def quiet_def del: mset_filter)
qed

end
