(* ===== verification/TxnLedger.thy ===== *)
theory TxnLedger
  imports TxnSched
begin

text \<open>
  The operations of the transaction queue on a module in order, the runs they make up, and the
  properties of these runs.
\<close>

section \<open>Accepting a transaction\<close>

text \<open>What a caller of \<^verbatim>\<open>txnQ_Transact\<close> has to see to.\<close>

definition can_take :: "TTxnQObj \<Rightarrow> ptr \<Rightarrow> bool" where
  "can_take s x \<longleftrightarrow> loose s x \<and> \<not> owned s x \<and> registered s (func_of s x) \<and>
     (if TXN_PARAM_GET_SINGLE_STEP (uTxnParams s x) \<noteq> 0 then pSingleStep (info s (func_of s x)) = NULL
      else TXN_PARAM_GET_PRIORITY (uTxnParams s x) < uNumPrios (info s (func_of s x)))"

lemma mset_concat_app:
  "distinct ks \<Longrightarrow> k \<in> set ks \<Longrightarrow>
     mset (concat (map (c(k := c k @ [x])) ks)) = add_mset x (mset (concat (map c ks)))"
proof (induction ks)
  case (Cons a ks)
  show ?case
  proof (cases "a = k")
    case True
    have m: "map (c(k := c k @ [x])) ks = map c ks" using Cons(2) True by (intro map_cong) auto
    show ?thesis using True by (simp add: m del: fun_upd_apply) (simp add: fun_upd_same)
  qed (use Cons in simp)
qed simp

lemma set_func_sel [simp]:
  "links (set_func s f g) = links s" "queues (set_func s f g) = queues s"
  "uTxnParams (set_func s f g) = uTxnParams s" "pCurrTxn (set_func s f g) = pCurrTxn s"
  "uMinFuncId (set_func s f g) = uMinFuncId s" "uMaxFuncId (set_func s f g) = uMaxFuncId s"
  "bSchedulerBusy (set_func s f g) = bSchedulerBusy s" "bSchedulerPend (set_func s f g) = bSchedulerPend s"
  "pAggregQueue (set_func s f g) = pAggregQueue s" "length (aFuncInfo (set_func s f g)) = length (aFuncInfo s)"
  "func_of (set_func s f g) = func_of s" "loose (set_func s f g) = loose s" "curr (set_func s f g) = curr s"
  by (simp_all add: set_func_def func_of_def [abs_def] loose_def [abs_def] curr_def)

lemma queues_upd [simp]:
  "func_of (s\<lparr>links := h, queues := qs\<rparr>) = func_of s" "registered (s\<lparr>links := h, queues := qs\<rparr>) = registered s"
  by (simp_all add: func_of_def [abs_def] registered_def [abs_def])

lemma info_set_func:
  "f < length (aFuncInfo s) \<Longrightarrow> info (set_func s f g) i = (if i = f then g (info s f) else info s i)"
  by (simp add: set_func_def nth_list_update)

lemma loose_nonnull: "loose s x \<Longrightarrow> x \<noteq> NULL"
  by (simp add: loose_def fam_valid_def)

lemma take_single:
  assumes ok: "txnq_ok s" and x: "loose s x" "\<not> owned s x" "registered s (func_of s x)"
    and free: "pSingleStep (info s (func_of s x)) = NULL"
  shows "txnq_ok (set_func s (func_of s x) (\<lambda>i. i\<lparr>pSingleStep := x\<rparr>))"
    and "mset (inside (set_func s (func_of s x) (\<lambda>i. i\<lparr>pSingleStep := x\<rparr>))) = add_mset x (mset (inside s))"
proof -
  let ?f = "func_of s x"
  let ?s = "set_func s ?f (\<lambda>i. i\<lparr>pSingleStep := x\<rparr>)"
  have st: "txnq_struct s" and tx: "txnq_txns s" using ok by (simp_all add: txnq_ok_def)
  have f: "?f < 4" "eState (info s ?f) \<noteq> FUNC_STATE_NONE" using x(3) by (simp_all add: registered_def)
  have l: "length (aFuncInfo s) = 4" using st by (simp add: txnq_struct_def)
  have i: "info ?s g = (if g = ?f then (info s g)\<lparr>pSingleStep := x\<rparr> else info s g)" for g
    using f(1) l by (simp add: info_set_func)
  have "txnq_struct ?s"
  proof -
    have "eState (info ?s g) = eState (info s g) \<and> uNumPrios (info ?s g) = uNumPrios (info s g) \<and>
        fTxnQueueDoneCb (info ?s g) = fTxnQueueDoneCb (info s g) \<and>
        (eState (info s g) = FUNC_STATE_NONE \<longrightarrow> pSingleStep (info ?s g) = pSingleStep (info s g))" for g
      using f(2) by (simp add: i)
    then show ?thesis using st unfolding txnq_struct_def by (simp cong: if_cong)
  qed
  moreover have "txnq_txns ?s"
  proof -
    have e: "registered ?s = registered s" using core_registered(1) [OF core_set_single l] .
    have "x \<noteq> pCurrTxn s" using x(2) loose_nonnull [OF x(1)] by (auto simp: owned_def curr_def)
    then show ?thesis
      unfolding txnq_txns_def e using tx x f by (auto simp: i txnq_txns_def)
  qed
  ultimately show "txnq_ok ?s" by (simp add: txnq_ok_def)
  have "content ?s = (content s)(Single ?f := content s (Single ?f) @ [x])"
  proof
    fix pl
    show "content ?s pl = ((content s)(Single ?f := content s (Single ?f) @ [x])) pl"
      using free loose_nonnull [OF x(1)] by (cases pl) (auto simp: i)
  qed
  moreover have "Single ?f \<in> set all_places" using f(1) by (simp add: all_places_def)
  ultimately have "mset (waiting ?s) = add_mset x (mset (waiting s))"
    using mset_concat_app [OF all_places_distinct, of "Single ?f" "content s" x] by (simp add: waiting_def)
  then show "mset (inside ?s) = add_mset x (mset (inside s))" by (simp add: inside_def)
qed

lemma take_queued:
  assumes ok: "txnq_ok s" and x: "loose s x" "\<not> owned s x" "registered s (func_of s x)"
    and p: "p < unat (uNumPrios (info s (func_of s x)))"
  obtains s' where "enqueue True s (FuncQ (func_of s x) p) x = Some (TI_OK, s')" and "txnq_ok s'"
    and "mset (inside s') = add_mset x (mset (inside s))" and "core s' = core s"
    and "content s' = (content s)(Queued (func_of s x) p := content s (Queued (func_of s x) p) @ [x])"
    and "uTxnParams s' = uTxnParams s" and "pCurrTxn s' = pCurrTxn s" and "pAggregQueue s' = pAggregQueue s"
    and "items s' DoneQ = items s DoneQ"
proof -
  let ?f = "func_of s x"
  let ?k = "FuncQ ?f p"
  have st: "txnq_struct s" and tx: "txnq_txns s" using ok by (simp_all add: txnq_ok_def)
  have f: "?f < 4" using x(3) by (simp add: registered_def)
  obtain q where q: "queues s ?k = Some q" using txnq_structD(4) [OF st, of ?f p] f p by blast
  have u: "uLimit q = QUE_UNLIMITED_SIZE" by (rule txnq_structD(5) [OF st q]) simp
  obtain h' qs' where e: "enqueue True s ?k x = Some (TI_OK, s\<lparr>links := h', queues := qs'\<rparr>)"
      "fam_ok 0 h' qs'" "fam_params qs' = fam_params (queues s)" "fam_items h' qs' = (items s)(?k := items s ?k @ [x])"
    by (rule enqueue_loose [of s ?k q x True]) (use txnq_structD(1) [OF st] q u x(1) in simp_all)
  let ?s = "s\<lparr>links := h', queues := qs'\<rparr>"
  have c: "content ?s = (content s)(Queued ?f p := content s (Queued ?f p) @ [x])"
  proof
    fix pl
    show "content ?s pl = ((content s)(Queued ?f p := content s (Queued ?f p) @ [x])) pl"
      by (cases pl) (auto simp: e(4))
  qed
  have lo: "loose ?s y \<longleftrightarrow> loose s y \<and> y \<noteq> x" for y
    using fam_params_valid [OF e(3), of 0] by (auto simp: loose_def e(4) split: if_splits)
  have ns: "pSingleStep (info s g) \<noteq> x" if "g < 4" for g
    using waiting_Single [OF that] x(2) loose_nonnull [OF x(1)] by (auto simp: owned_def)
  have nc: "pCurrTxn s \<noteq> x" using x(2) loose_nonnull [OF x(1)] by (auto simp: owned_def curr_def)
  have "txnq_txns ?s"
    unfolding txnq_txns_def lo
  proof (intro conjI allI ballI impI)
    show "func_of ?s y = g" if "y \<in> set (items ?s (FuncQ g r))" for g r y
      using that txnq_txnsD(1) [OF tx, of y g r] by (simp add: e(4) split: if_splits) blast
  qed (use txnq_txnsD [OF tx] ns nc in \<open>simp_all add: e(4)\<close>)
  then have "txnq_ok ?s" using struct_queues [OF st e(2,3)] by (simp add: txnq_ok_def)
  moreover have "Queued ?f p \<in> set all_places"
    using f p txnq_structD(6) [OF st f] by (intro all_places_Queued) simp_all
  then have "mset (waiting ?s) = add_mset x (mset (waiting s))"
    using mset_concat_app [OF all_places_distinct, of "Queued ?f p" "content s" x] c by (simp add: waiting_def del: content.simps)
  then have "mset (inside ?s) = add_mset x (mset (inside s))" by (simp add: inside_def curr_def e(4))
  ultimately show ?thesis using that [of ?s] e(1,4) c by (simp add: core_def)
qed

lemma core_quiet: "core s' = core s \<Longrightarrow> quiet s' = quiet s"
  using coreD(3) [of s' s] coreD(4) [of s' s] by (simp add: quiet_def)

lemma txnQ_Transact_spec:
  assumes bus: "bus_quiet bus" and cb: "cb_quiet cb" and ok: "txnq_ok s" and q: "quiet s" and x: "can_take s x"
  obtains st ev s' where "txnQ_Transact True bus cb s x = Some (st, ev, s')" and "txnq_ok s'" and "quiet s'"
    and "registered s' = registered s"
    and "add_mset x (mset (inside s)) =
      mset (inside s') + mset (reported ev) + (if st = TXN_STATUS_PENDING then {#} else {#x#})"
proof (cases "TXN_PARAM_GET_SINGLE_STEP (uTxnParams s x) = 0")
  case False
  let ?s = "set_func s (func_of s x) (\<lambda>i. i\<lparr>pSingleStep := x\<rparr>)"
  have t: "txnq_ok ?s" "mset (inside ?s) = add_mset x (mset (inside s))"
    using take_single [OF ok] x False by (simp_all add: can_take_def)
  have c: "core ?s = core s" by (rule core_set_single)
  obtain r where r: "txnQ_RunScheduler True bus cb ?s x = Some r" "run_result ?s x r"
    using txnQ_RunScheduler_spec [OF bus cb t(1), of x] core_quiet [OF c] q by blast
  obtain st ev s' where [simp]: "r = (st, ev, s')" by (cases r)
  have "registered ?s = registered s"
    using core_registered(1) [OF c] ok by (simp add: txnq_ok_def txnq_struct_def)
  then show ?thesis
    using that [of st ev s'] r t(2) False by (simp add: txnQ_Transact_def run_result_def)
next
  case True
  have p: "unat (TXN_PARAM_GET_PRIORITY (uTxnParams s x)) < unat (uNumPrios (info s (func_of s x)))"
    using x True by (simp add: can_take_def word_less_nat_alt)
  have x': "loose s x" "\<not> owned s x" "registered s (func_of s x)" using x by (simp_all add: can_take_def)
  obtain s1 where e: "enqueue True s (FuncQ (func_of s x) (unat (TXN_PARAM_GET_PRIORITY (uTxnParams s x)))) x = Some (TI_OK, s1)"
      "txnq_ok s1" "mset (inside s1) = add_mset x (mset (inside s))" and c: "core s1 = core s"
    using take_queued [OF ok x' p] by blast
  obtain r where r: "txnQ_RunScheduler True bus cb s1 x = Some r" "run_result s1 x r"
    using txnQ_RunScheduler_spec [OF bus cb e(2), of x] core_quiet [OF c] q by blast
  obtain st ev s' where [simp]: "r = (st, ev, s')" by (cases r)
  have "registered s1 = registered s"
    using core_registered(1) [OF c] ok by (simp add: txnq_ok_def txnq_struct_def)
  then show ?thesis
    using that [of st ev s'] r e True by (simp add: txnQ_Transact_def run_result_def)
qed

section \<open>The state of a function\<close>

lemma set_state_ok:
  assumes ok: "txnq_ok s" and f: "registered s f" and e: "e \<noteq> FUNC_STATE_NONE"
  shows "txnq_ok (set_func s f (\<lambda>i. i\<lparr>eState := e\<rparr>))"
    and "registered (set_func s f (\<lambda>i. i\<lparr>eState := e\<rparr>)) = registered s"
    and "content (set_func s f (\<lambda>i. i\<lparr>eState := e\<rparr>)) = content s"
    and "inside (set_func s f (\<lambda>i. i\<lparr>eState := e\<rparr>)) = inside s"
proof -
  let ?s = "set_func s f (\<lambda>i. i\<lparr>eState := e\<rparr>)"
  have st: "txnq_struct s" and tx: "txnq_txns s" using ok by (simp_all add: txnq_ok_def)
  have f': "f < 4" "eState (info s f) \<noteq> FUNC_STATE_NONE" using f by (simp_all add: registered_def)
  have i: "info ?s g = (if g = f then (info s f)\<lparr>eState := e\<rparr> else info s g)" for g
    using f'(1) txnq_structD(2) [OF st] by (simp add: info_set_func)
  have n: "eState (info ?s g) = FUNC_STATE_NONE \<longleftrightarrow> eState (info s g) = FUNC_STATE_NONE" for g
    using e f'(2) by (simp add: i)
  have o: "uNumPrios (info ?s g) = uNumPrios (info s g)" "fTxnQueueDoneCb (info ?s g) = fTxnQueueDoneCb (info s g)"
      "pSingleStep (info ?s g) = pSingleStep (info s g)" for g by (simp_all add: i)
  show reg: "registered ?s = registered s" using n by (simp add: registered_def fun_eq_iff)
  show c: "content ?s = content s" by (rule content_eqI) (simp_all add: o)
  then show "inside ?s = inside s" by (simp add: inside_def waiting_def)
  have "txnq_struct ?s" using st unfolding txnq_struct_def by (simp add: n o cong: if_cong)
  moreover have "txnq_txns ?s" using tx unfolding txnq_txns_def by (simp add: o reg)
  ultimately show "txnq_ok ?s" by (simp add: txnq_ok_def)
qed

section \<open>Clearing the queues of a function\<close>

definition place_of :: "nat \<Rightarrow> place \<Rightarrow> bool" where
  "place_of f pl \<longleftrightarrow> (case pl of Single g \<Rightarrow> g = f | Queued g p \<Rightarrow> g = f)"

definition dropped :: "TTxnQObj \<Rightarrow> nat \<Rightarrow> ptr list" where
  "dropped s f = concat (map (content s) (List.filter (place_of f) all_places))"

lemma clear_queues_spec:
  "fam_ok 0 (links s) (queues s) \<Longrightarrow> (\<And>i. i \<in> set is \<Longrightarrow> queues s (FuncQ f i) \<noteq> None) \<Longrightarrow>
   \<exists>h qs. clear_queues True s f is = Some (s\<lparr>links := h, queues := qs\<rparr>) \<and> fam_ok 0 h qs \<and>
     fam_params qs = fam_params (queues s) \<and>
     fam_items h qs = (\<lambda>k. if \<exists>i \<in> set is. k = FuncQ f i then [] else items s k)"
proof (induction "is" arbitrary: s)
  case Nil
  then show ?case by (intro exI [of _ "links s"] exI [of _ "queues s"]) (simp add: items_def)
next
  case (Cons i js)
  obtain q where q: "queues s (FuncQ f i) = Some q" using Cons(3) [of i] by auto
  obtain h1 q1 where c: "que_Clear True (links s) q = (h1, q1)" by (cases "que_Clear True (links s) q")
  let ?qs = "(queues s)(FuncQ f i \<mapsto> q1)"
  let ?s = "s\<lparr>links := h1, queues := ?qs\<rparr>"
  have f1: "fam_ok 0 h1 ?qs" "fam_params ?qs = fam_params (queues s)" "items ?s = (items s)(FuncQ f i := [])"
    using fam_Clear_spec [OF Cons(2) q c] by (simp_all add: items_def)
  have "\<exists>h qs. clear_queues True ?s f js = Some (?s\<lparr>links := h, queues := qs\<rparr>) \<and> fam_ok 0 h qs \<and>
     fam_params qs = fam_params (queues ?s) \<and>
     fam_items h qs = (\<lambda>k. if \<exists>i \<in> set js. k = FuncQ f i then [] else items ?s k)"
  proof (rule Cons(1))
    show "fam_ok 0 (links ?s) (queues ?s)" using f1(1) by (simp del: fun_upd_apply)
    show "queues ?s (FuncQ f j) \<noteq> None" if "j \<in> set js" for j using that Cons(3) by auto
  qed
  then obtain h qs where r: "clear_queues True ?s f js = Some (?s\<lparr>links := h, queues := qs\<rparr>)" "fam_ok 0 h qs"
     "fam_params qs = fam_params ?qs" "fam_items h qs = (\<lambda>k. if \<exists>i \<in> set js. k = FuncQ f i then [] else items ?s k)"
    by auto
  have "fam_items h qs = (\<lambda>k. if \<exists>j \<in> set (i # js). k = FuncQ f j then [] else items s k)"
    unfolding r(4) f1(3) by (auto simp: fun_eq_iff)
  moreover have "clear_queues True s f (i # js) = Some (s\<lparr>links := h, queues := qs\<rparr>)"
    using r(1) c q by (simp add: clear_queue_def del: fun_upd_apply)
  ultimately show ?case using r(2) r(3) [unfolded f1(2)] by blast
qed

lemma mset_concat_restrict:
  "mset (concat (map c ks)) = mset (concat (map (\<lambda>k. if P k then [] else c k) ks)) + mset (concat (map c (List.filter P ks)))"
  by (induction ks) auto

text \<open>
  The function's queues and single-step slot are empty, and the function runs; the other functions,
  the bus and the done queue are untouched.
\<close>

lemma txnQ_ClearQueues_spec:
  assumes ok: "txnq_ok s" and f: "registered s (unat uFuncId)"
  obtains s' where "txnQ_ClearQueues True s uFuncId = Some s'" and "txnq_ok s'" and "registered s' = registered s"
    and "mset (inside s) = mset (inside s') + mset (dropped s (unat uFuncId))"
    and "content s' = (\<lambda>pl. if place_of (unat uFuncId) pl then [] else content s pl)"
    and "eState (info s' (unat uFuncId)) = FUNC_STATE_RUNNING"
    and "pCurrTxn s' = pCurrTxn s" "items s' DoneQ = items s DoneQ" "uTxnParams s' = uTxnParams s"
    and "pAggregQueue s' = pAggregQueue s" "quiet s' = quiet s" "hCbHandle (info s' (unat uFuncId)) = hCbHandle (info s (unat uFuncId))"
    and "fTxnQueueDoneCb (info s' (unat uFuncId)) = fTxnQueueDoneCb (info s (unat uFuncId))"
    and "fam_params (queues s') = fam_params (queues s)"
proof -
  let ?f = "unat uFuncId"
  have st: "txnq_struct s" and tx: "txnq_txns s" using ok by (simp_all add: txnq_ok_def)
  have f': "?f < 4" using f by (simp add: registered_def)
  have l: "length (aFuncInfo s) = 4" using st by (simp add: txnq_struct_def)
  let ?n = "unat (uNumPrios (info s ?f))"
  let ?s1 = "set_func s ?f (\<lambda>i. i\<lparr>pSingleStep := NULL\<rparr>)"
  have ne: "queues s (FuncQ ?f i) \<noteq> None" if "i < ?n" for i using that txnq_structD(4) [OF st] f' by blast
  have "\<exists>h qs. clear_queues True ?s1 ?f [0..<?n] = Some (?s1\<lparr>links := h, queues := qs\<rparr>) \<and> fam_ok 0 h qs \<and>
      fam_params qs = fam_params (queues ?s1) \<and>
      fam_items h qs = (\<lambda>k. if \<exists>i \<in> set [0..<?n]. k = FuncQ ?f i then [] else items ?s1 k)"
    by (rule clear_queues_spec) (use ne txnq_structD(1) [OF st] in simp_all)
  then obtain h qs where c: "clear_queues True ?s1 ?f [0..<?n] = Some (?s1\<lparr>links := h, queues := qs\<rparr>)"
      "fam_ok 0 h qs" "fam_params qs = fam_params (queues s)"
      "fam_items h qs = (\<lambda>k. if \<exists>i \<in> set [0..<?n]. k = FuncQ ?f i then [] else items s k)"
    unfolding set_func_sel items_upd by blast
  have no: "items s (FuncQ ?f i) = []" if "\<not> i < ?n" for i
  proof (rule ccontr)
    assume "items s (FuncQ ?f i) \<noteq> []"
    from items_queue [OF this] show False using that txnq_structD(4) [OF st] by blast
  qed
  then have it: "fam_items h qs = (\<lambda>k. if \<exists>i. k = FuncQ ?f i then [] else items s k)"
    unfolding c(4) by (force simp: fun_eq_iff)
  let ?s2 = "?s1\<lparr>links := h, queues := qs\<rparr>"
  let ?s3 = "set_func ?s2 ?f (\<lambda>i. i\<lparr>eState := FUNC_STATE_RUNNING\<rparr>)"
  have i1: "info ?s1 g = (if g = ?f then (info s g)\<lparr>pSingleStep := NULL\<rparr> else info s g)" for g
    using f' l by (simp add: info_set_func)
  have co: "content ?s2 = (\<lambda>pl. if place_of ?f pl then [] else content s pl)"
  proof
    fix pl show "content ?s2 pl = (if place_of ?f pl then [] else content s pl)"
      by (cases pl) (auto simp: i1 it place_of_def)
  qed
  have lo: "loose ?s2 y" if "loose s y" for y
    using that fam_params_valid [OF c(3), of 0] by (simp add: loose_def it)
  have "txnq_struct ?s1" using struct_single_null [OF st] .
  then have st2: "txnq_struct ?s2" using struct_queues [OF _ c(2), of ?s1] c(3) by simp
  have reg: "registered ?s1 = registered s" using core_registered(1) [OF core_set_single l] .
  have tx2: "txnq_txns ?s2"
    unfolding txnq_txns_def
  proof (intro conjI allI ballI impI)
    show "func_of ?s2 y = g" if "y \<in> set (items ?s2 (FuncQ g r))" for g r y
      using that txnq_txnsD(1) [OF tx, of y g r] by (simp add: it split: if_splits)
    show "loose ?s2 (pSingleStep (info ?s2 g))" "func_of ?s2 (pSingleStep (info ?s2 g)) = g"
      if "g < 4" "pSingleStep (info ?s2 g) \<noteq> NULL" for g
      using that txnq_txnsD(3,4) [OF tx, of g] lo by (simp_all add: i1 split: if_splits)
  qed (use txnq_txnsD [OF tx] lo reg in \<open>simp_all add: it i1\<close>)
  have reg2: "registered ?s2 ?f" using f reg by simp
  note s3 = set_state_ok [OF _ reg2, of FUNC_STATE_RUNNING]
  have ok2: "txnq_ok ?s2" using st2 tx2 by (simp add: txnq_ok_def)
  have "mset (waiting s) = mset (waiting ?s2) + mset (dropped s ?f)"
    unfolding waiting_def dropped_def co by (rule mset_concat_restrict)
  then have "mset (inside s) = mset (inside ?s3) + mset (dropped s ?f)"
    using s3(4) [OF ok2] it by (simp add: inside_def curr_def)
  moreover have "txnQ_ClearQueues True s uFuncId = Some ?s3"
    using c(1) f' l by (simp add: txnQ_ClearQueues_def)
  moreover have "eState (info ?s3 ?f) = FUNC_STATE_RUNNING" "hCbHandle (info ?s3 ?f) = hCbHandle (info s ?f)"
      "fTxnQueueDoneCb (info ?s3 ?f) = fTxnQueueDoneCb (info s ?f)"
    using f' l i1 [of ?f] by (simp_all add: info_set_func)
  ultimately show ?thesis
    using that [of ?s3] s3 [OF ok2] co reg it c(3) by (simp add: quiet_def)
qed

section \<open>Completion and restart\<close>

lemma inside_nonnull:
  assumes ok: "txnq_ok s"
  shows "NULL \<notin> set (inside s)"
proof -
  have st: "txnq_struct s" using ok by (simp add: txnq_ok_def)
  have i: "NULL \<notin> set (items s k)" for k
    using fam_items_nonnull [OF txnq_structD(1) [OF st]] by (auto simp: items_def)
  have "NULL \<notin> set (content s pl)" for pl using i by (cases pl) auto
  then show ?thesis using i by (auto simp: inside_def waiting_def curr_def)
qed

lemma enqueue_curr:
  "enqueue d (s\<lparr>pCurrTxn := c\<rparr>) k x = map_option (\<lambda>(st, t). (st, t\<lparr>pCurrTxn := c\<rparr>)) (enqueue d s k x)"
  by (cases s) (simp add: enqueue_def option.map_comp comp_def split_def)

lemma core_upd: "core (s\<lparr>pCurrTxn := c\<rparr>) = core s"
  by (simp add: core_def)

text \<open>The completion of a transaction that the bus driver kept, when its function is not restarting.\<close>

lemma txnQ_TxnDoneCb_spec:
  assumes bus: "bus_quiet bus" and cb: "cb_quiet cb" and ok: "txnq_ok s" and q: "quiet s"
    and x: "pCurrTxn s = x" "x \<noteq> NULL" and r: "eState (info s (func_of s x)) \<noteq> FUNC_STATE_RESTART"
  obtains ev s' where "txnQ_TxnDoneCb True bus cb s x = Some (ev, s')" and "txnq_ok s'" and "quiet s'"
    and "registered s' = registered s" and "mset (inside s) = mset (inside s') + mset (reported ev)"
    and "x \<in> set (reported ev)"
proof -
  obtain s1 where d: "txn_done True (s\<lparr>pCurrTxn := NULL\<rparr>) x NULL = Some s1" "txnq_ok s1" "pCurrTxn s1 = NULL"
      "core s1 = core s" "content s1 = content s" and "items s1 DoneQ = items s DoneQ @ (if x = NULL then [] else [x])"
    using txnq_completed [OF ok x, of NULL] by blast
  then have d6: "items s1 DoneQ = items s DoneQ @ [x]" using x(2) by simp
  from d obtain st t where e: "enqueue True s DoneQ x = Some (st, t)" "s1 = t\<lparr>pCurrTxn := NULL\<rparr>"
    using x(2) by (auto simp: txn_done_def enqueue_curr)
  have "quiet s1" using core_quiet [OF d(4)] q by simp
  then obtain st' ev s' where r2: "txnQ_RunScheduler True bus cb s1 NULL = Some (st', ev, s')" "run_result s1 NULL (st', ev, s')"
    using txnQ_RunScheduler_spec [OF bus cb d(2), of NULL] by (metis prod_cases3)
  have "txnQ_TxnDoneCb True bus cb s x = Some (ev, s')"
    using r e r2(1) by (simp add: txnQ_TxnDoneCb_def func_of_def)
  moreover have "mset (inside s1) = mset (inside s)"
    using d d6 x by (simp add: inside_def waiting_def curr_def)
  moreover have "st' = TXN_STATUS_PENDING"
  proof (rule ccontr)
    assume "st' \<noteq> TXN_STATUS_PENDING"
    then have "NULL \<in># mset (inside s1)" using r2(2) by (simp add: run_result_def)
    then show False using inside_nonnull [OF d(2)] by simp
  qed
  moreover have "registered s1 = registered s"
    using core_registered(1) [OF d(4)] ok by (simp add: txnq_ok_def txnq_struct_def)
  moreover have "x \<in> set (reported ev)"
    using r2(2) d(3) d6 by (simp add: run_result_def curr_def)
  ultimately show ?thesis using that [of ev s'] r2(2) by (simp add: run_result_def)
qed

text \<open>A function that restarts: what it has queued is dropped, and its transaction is reported at once.\<close>

lemma func_id_status: "TXN_PARAM_GET_FUNC_ID (TXN_PARAM_SET_STATUS w TXN_PARAM_STATUS_RECOVERY) = TXN_PARAM_GET_FUNC_ID w"
proof -
  have "TXN_PARAM_SET_STATUS w TXN_PARAM_STATUS_RECOVERY AND 0xC = w AND 0xC"
    by (simp add: TXN_PARAM_SET_STATUS_def bit.conj_disj_distrib2 and.assoc push_bit_eq_mult)
  then show ?thesis by (simp add: TXN_PARAM_GET_FUNC_ID_def)
qed

lemma txnQ_TxnDoneCb_restart:
  assumes bus: "bus_quiet bus" and cb: "cb_quiet cb" and ok: "txnq_ok s" and q: "quiet s"
    and x: "pCurrTxn s = x" "x \<noteq> NULL" and r: "eState (info s (func_of s x)) = FUNC_STATE_RESTART"
  obtains ev s' where "txnQ_TxnDoneCb True bus cb s x = Some (report_of s x # ev, s')" and "txnq_ok s'" and "quiet s'"
    and "registered s' = registered s"
    and "mset (inside s) = mset (inside s') + mset (reported (report_of s x # ev)) + mset (dropped s (func_of s x))"
proof -
  let ?u = "TXN_PARAM_GET_FUNC_ID (uTxnParams s x)"
  have u: "unat ?u = func_of s x" by (simp add: func_of_def)
  have tx: "txnq_txns s" and st: "txnq_struct s" using ok by (simp_all add: txnq_ok_def)
  have reg: "registered s (func_of s x)" using txnq_txnsD(6) [OF tx] x by simp
  obtain s1 where c: "txnQ_ClearQueues True s ?u = Some s1" "txnq_ok s1" "registered s1 = registered s"
      "mset (inside s) = mset (inside s1) + mset (dropped s (func_of s x))" "pCurrTxn s1 = pCurrTxn s"
      "items s1 DoneQ = items s DoneQ" "uTxnParams s1 = uTxnParams s" "quiet s1 = quiet s"
      "hCbHandle (info s1 (func_of s x)) = hCbHandle (info s (func_of s x))"
      "fTxnQueueDoneCb (info s1 (func_of s x)) = fTxnQueueDoneCb (info s (func_of s x))"
    using txnQ_ClearQueues_spec [OF ok, of ?u] reg unfolding u by blast
  let ?w = "(uTxnParams s1)(x := TXN_PARAM_SET_STATUS (uTxnParams s1 x) TXN_PARAM_STATUS_RECOVERY)"
  let ?s2 = "s1\<lparr>uTxnParams := ?w\<rparr>"
  have fo: "func_of ?s2 = func_of s1" "func_of s1 = func_of s"
    by (simp_all add: func_of_def fun_eq_iff func_id_status c(7))
  have ok2: "txnq_ok ?s2" using c(2) by (simp add: txnq_ok_def txnq_txns_def fo loose_def registered_def)
  have st2: "txnq_struct ?s2" "txnq_txns ?s2" using ok2 by (simp_all add: txnq_ok_def)
  have lx: "loose ?s2 x" using txnq_txnsD(5) [OF st2(2)] c(5) x by simp
  have cbn: "fTxnQueueDoneCb (info s (func_of s x)) \<noteq> NULL" "func_of s x < 4"
    using txnq_structD(8) [OF st reg] reg by (simp_all add: registered_def)
  have l1: "length (aFuncInfo s1) = 4" using c(2) by (simp add: txnq_ok_def txnq_struct_def)
  obtain s3 where rt: "report_txn cb ?s2 x = Some (report_of s x, s3)" "client_step x ?s2 s3"
    using cb st2(1) lx cbn l1 by (simp add: report_txn_def report_of_def cb_quiet_def fo c(9,10) Let_def)
  let ?s2' = "?s2\<lparr>pCurrTxn := NULL\<rparr>" and ?s3' = "s3\<lparr>pCurrTxn := NULL\<rparr>"
  have ok2': "txnq_ok ?s2'"
    using ok2 by (simp add: txnq_ok_def txnq_txns_def registered_def func_of_def loose_def)
  have in2: "mset (inside s1) = add_mset x (mset (inside ?s2'))"
    using c(5) x by (simp add: inside_def waiting_def curr_def)
  have nx: "\<not> owned ?s2' x"
    using distinct_inside [OF c(2)] mset_eq_imp_distinct_iff [of "inside s1" "x # inside ?s2'"] in2
    by (simp add: owned_inside)
  have cs: "client_step x ?s2' ?s3'" using rt(2) by (simp add: client_step_def core_upd)
  note c3 = client_step_ok [OF ok2' cs nx]
  have "registered ?s3' = registered s"
    using cs c(3) by (simp add: client_step_def registered_def fun_eq_iff)
  moreover have in3: "inside ?s3' = inside ?s2'"
    using c3(2) cs by (simp add: inside_def waiting_def curr_def client_step_def)
  moreover have "quiet ?s3'" using core_quiet [of ?s3' ?s2'] cs c(8) q by (simp add: client_step_def quiet_def)
  then obtain st' ev s' where r2: "txnQ_RunScheduler True bus cb ?s3' NULL = Some (st', ev, s')" "run_result ?s3' NULL (st', ev, s')"
    using txnQ_RunScheduler_spec [OF bus cb c3(1), of NULL] by (metis prod_cases3)
  moreover have "st' = TXN_STATUS_PENDING"
  proof (rule ccontr)
    assume "st' \<noteq> TXN_STATUS_PENDING"
    then have "NULL \<in># mset (inside ?s3')" using r2(2) by (simp add: run_result_def)
    then show False using inside_nonnull [OF c3(1)] by simp
  qed
  moreover have "txnQ_TxnDoneCb True bus cb s x = Some (report_of s x # ev, s')"
    using r c(1) rt(1) r2(1) by (simp add: txnQ_TxnDoneCb_def func_of_def)
  ultimately show ?thesis
    using that [of ev s'] c(4) in2 r2(2) by (simp add: run_result_def reported_def report_of_def)
qed

lemma txnQ_Restart_spec:
  assumes ok: "txnq_ok s" and f: "registered s (unat uFuncId)"
  obtains st s' where "txnQ_Restart True s uFuncId = Some (st, s')" and "txnq_ok s'" and "quiet s' = quiet s"
    and "registered s' = registered s"
    and "if st = TXN_STATUS_PENDING
         then pCurrTxn s \<noteq> NULL \<and> func_of s (pCurrTxn s) = unat uFuncId \<and> inside s' = inside s \<and>
           eState (info s' (unat uFuncId)) = FUNC_STATE_RESTART
         else st = TXN_STATUS_COMPLETE \<and> mset (inside s) = mset (inside s') + mset (dropped s (unat uFuncId)) \<and>
           eState (info s' (unat uFuncId)) = FUNC_STATE_RUNNING"
proof -
  have l: "length (aFuncInfo s) = 4" "unat uFuncId < 4"
    using ok f by (simp_all add: txnq_ok_def txnq_struct_def registered_def)
  show ?thesis
  proof (cases "pCurrTxn s \<noteq> NULL \<and> TXN_PARAM_GET_FUNC_ID (uTxnParams s (pCurrTxn s)) = uFuncId")
    case True
    note so = set_state_ok [OF ok f, of FUNC_STATE_RESTART]
    show ?thesis
      using True l so that [of TXN_STATUS_PENDING "set_func s (unat uFuncId) (\<lambda>i. i\<lparr>eState := FUNC_STATE_RESTART\<rparr>)"]
      by (simp add: txnQ_Restart_def quiet_def func_of_def info_set_func)
  next
    case False
    obtain s1 where "txnQ_ClearQueues True s uFuncId = Some s1" "txnq_ok s1" "registered s1 = registered s"
        "mset (inside s) = mset (inside s1) + mset (dropped s (unat uFuncId))"
        "eState (info s1 (unat uFuncId)) = FUNC_STATE_RUNNING" "quiet s1 = quiet s"
      using txnQ_ClearQueues_spec [OF ok f] by blast
    then show ?thesis
      using False l that [of TXN_STATUS_COMPLETE s1] by (simp add: txnQ_Restart_def)
  qed
qed

section \<open>Registering a function\<close>

text \<open>The queue objects come from the allocator: distinct, cleared and not in use.\<close>

definition fresh_queues :: "TTxnQObj \<Rightarrow> (nat \<Rightarrow> ptr) \<Rightarrow> nat \<Rightarrow> bool" where
  "fresh_queues s pQue n \<longleftrightarrow> inj_on pQue {..<n} \<and>
     (\<forall>i < n. pQue i \<noteq> NULL \<and> pNext (links s) (pQue i) = NULL \<and> \<not> owned s (pQue i))"

lemma create_queue_spec:
  assumes ok: "fam_ok 0 (links s) (queues s)" and k: "queues s k = None" and a: "a \<noteq> NULL" "pNext (links s) a = NULL"
  obtains h q where "create_queue a s k QUE_UNLIMITED_SIZE os rep = s\<lparr>links := h, queues := (queues s)(k \<mapsto> q)\<rparr>"
    and "fam_ok 0 h ((queues s)(k \<mapsto> q))" and "fam_items h ((queues s)(k \<mapsto> q)) = items s"
    and "uLimit q = QUE_UNLIMITED_SIZE" and "tHead q = a"
    and "\<And>b. b \<noteq> a \<Longrightarrow> pNext h b = pNext (links s) b"
proof -
  obtain h q where c: "que_Create a (links s) os rep QUE_UNLIMITED_SIZE 0 = Some (h, q)"
    and q: "uLimit q = QUE_UNLIMITED_SIZE" "tHead q = a" "\<And>b. b \<noteq> a \<Longrightarrow> pNext h b = pNext (links s) b"
    using a(1) by (simp add: que_Create_def)
  from fam_Create_spec [OF ok a k c] show ?thesis
    using that [of q h] q c by (simp add: create_queue_def items_def)
qed

lemma fam_heads_upd: "qs k = None \<Longrightarrow> fam_heads (qs(k \<mapsto> q)) = insert (tHead q) (fam_heads qs)"
  by (auto simp: fam_heads_def) (metis option.distinct(1))

lemma create_queues_spec:
  "fam_ok 0 (links s) (queues s) \<Longrightarrow> distinct js \<Longrightarrow> (\<And>i. i \<in> set js \<Longrightarrow> queues s (FuncQ f i) = None) \<Longrightarrow>
   inj_on pQue (set js) \<Longrightarrow> (\<And>i. i \<in> set js \<Longrightarrow> pQue i \<noteq> NULL \<and> pNext (links s) (pQue i) = NULL) \<Longrightarrow>
   \<exists>h qs. create_queues pQue s f js os rep = (TI_OK, s\<lparr>links := h, queues := qs\<rparr>) \<and> fam_ok 0 h qs \<and>
     fam_items h qs = items s \<and> fam_heads qs = fam_heads (queues s) \<union> pQue ` set js \<and>
     (\<forall>k. (\<forall>i \<in> set js. k \<noteq> FuncQ f i) \<longrightarrow> qs k = queues s k) \<and>
     (\<forall>i \<in> set js. \<exists>q. qs (FuncQ f i) = Some q \<and> uLimit q = QUE_UNLIMITED_SIZE)"
proof (induction js arbitrary: s)
  case Nil
  then show ?case by (intro exI [of _ "links s"] exI [of _ "queues s"]) (simp add: items_def)
next
  case (Cons i js)
  have a: "pQue i \<noteq> NULL" "pNext (links s) (pQue i) = NULL" and k: "queues s (FuncQ f i) = None"
    using Cons(6) [of i] Cons(4) [of i] by simp_all
  obtain h q where c: "create_queue (pQue i) s (FuncQ f i) QUE_UNLIMITED_SIZE os rep =
        s\<lparr>links := h, queues := (queues s)(FuncQ f i \<mapsto> q)\<rparr>"
      "fam_ok 0 h ((queues s)(FuncQ f i \<mapsto> q))" "fam_items h ((queues s)(FuncQ f i \<mapsto> q)) = items s"
      "uLimit q = QUE_UNLIMITED_SIZE" "tHead q = pQue i" "\<And>b. b \<noteq> pQue i \<Longrightarrow> pNext h b = pNext (links s) b"
    using create_queue_spec [OF Cons(2) k a] by blast
  let ?qs = "(queues s)(FuncQ f i \<mapsto> q)"
  let ?s = "s\<lparr>links := h, queues := ?qs\<rparr>"
  have "\<exists>h qs. create_queues pQue ?s f js os rep = (TI_OK, ?s\<lparr>links := h, queues := qs\<rparr>) \<and> fam_ok 0 h qs \<and>
     fam_items h qs = items ?s \<and> fam_heads qs = fam_heads (queues ?s) \<union> pQue ` set js \<and>
     (\<forall>k. (\<forall>i \<in> set js. k \<noteq> FuncQ f i) \<longrightarrow> qs k = queues ?s k) \<and>
     (\<forall>i \<in> set js. \<exists>q. qs (FuncQ f i) = Some q \<and> uLimit q = QUE_UNLIMITED_SIZE)"
  proof (rule Cons(1))
    show "fam_ok 0 (links ?s) (queues ?s)" using c(2) by (simp del: fun_upd_apply)
    show "queues ?s (FuncQ f j) = None" if "j \<in> set js" for j using that Cons(3,4) by auto
    show "pQue j \<noteq> NULL \<and> pNext (links ?s) (pQue j) = NULL" if "j \<in> set js" for j
    proof -
      have "pQue j \<noteq> pQue i" using that Cons(3,5) by (auto simp: inj_on_def)
      then show ?thesis using c(6) Cons(6) [of j] that by simp
    qed
  qed (use Cons(3,5) in \<open>auto simp: inj_on_def\<close>)
  then obtain h2 qs where r: "create_queues pQue ?s f js os rep = (TI_OK, ?s\<lparr>links := h2, queues := qs\<rparr>)" "fam_ok 0 h2 qs"
      "fam_items h2 qs = items s" "fam_heads qs = fam_heads ?qs \<union> pQue ` set js"
      "\<forall>k. (\<forall>i \<in> set js. k \<noteq> FuncQ f i) \<longrightarrow> qs k = ?qs k"
      "\<forall>i \<in> set js. \<exists>q. qs (FuncQ f i) = Some q \<and> uLimit q = QUE_UNLIMITED_SIZE"
    using c(3) by (auto simp del: fun_upd_apply)
  have "create_queues pQue s f (i # js) os rep = (TI_OK, s\<lparr>links := h2, queues := qs\<rparr>)"
    using r(1) c(1) by (simp add: Let_def)
  moreover have "fam_heads qs = fam_heads (queues s) \<union> pQue ` set (i # js)"
    using r(4) fam_heads_upd [of "queues s" "FuncQ f i" q] k c(5) by simp
  moreover have "\<forall>k. (\<forall>j \<in> set (i # js). k \<noteq> FuncQ f j) \<longrightarrow> qs k = queues s k" using r(5) by simp
  moreover have "\<exists>q. qs (FuncQ f i) = Some q \<and> uLimit q = QUE_UNLIMITED_SIZE"
    using r(5) [rule_format, of "FuncQ f i"] c(4) Cons(3) by auto
  ultimately show ?case using r(2,3,6) by auto
qed

lemma txnQ_Open_spec:
  assumes ok: "txnq_ok s" and f: "unat uFuncId < 4" "eState (info s (unat uFuncId)) = FUNC_STATE_NONE"
    and n: "unat numPrios \<le> 2" and fresh: "fresh_queues s pQue (unat numPrios)" and cb: "doneCb \<noteq> NULL"
  obtains s' where "txnQ_Open pQue s uFuncId numPrios doneCb cbHandle os rep = (TI_OK, s')" and "txnq_ok s'"
    and "quiet s' = quiet s" and "inside s' = inside s"
    and "registered s' = (registered s)(unat uFuncId := True)"
proof -
  let ?f = "unat uFuncId" and ?n = "unat numPrios"
  have st: "txnq_struct s" and tx: "txnq_txns s" using ok by (simp_all add: txnq_ok_def)
  have l: "length (aFuncInfo s) = 4" using txnq_structD(2) [OF st] .
  have none: "uNumPrios (info s ?f) = 0" "pSingleStep (info s ?f) = NULL"
    using txnq_structD(7) [OF st f] txnq_structD(11) [OF st f(1)] f(2) by (auto simp: registered_def)
  let ?g = "\<lambda>i. i\<lparr>uNumPrios := numPrios, fTxnQueueDoneCb := doneCb, hCbHandle := cbHandle, eState := FUNC_STATE_STOPPED\<rparr>"
  let ?s1 = "set_func s ?f ?g"
  have "\<exists>h qs. create_queues pQue ?s1 ?f [0..<?n] os rep = (TI_OK, ?s1\<lparr>links := h, queues := qs\<rparr>) \<and> fam_ok 0 h qs \<and>
     fam_items h qs = items ?s1 \<and> fam_heads qs = fam_heads (queues ?s1) \<union> pQue ` set [0..<?n] \<and>
     (\<forall>k. (\<forall>i \<in> set [0..<?n]. k \<noteq> FuncQ ?f i) \<longrightarrow> qs k = queues ?s1 k) \<and>
     (\<forall>i \<in> set [0..<?n]. \<exists>q. qs (FuncQ ?f i) = Some q \<and> uLimit q = QUE_UNLIMITED_SIZE)"
  proof (rule create_queues_spec)
    show "queues ?s1 (FuncQ ?f i) = None" for i
      using txnq_structD(4) [OF st, of ?f i] none(1) by simp
  qed (use fresh txnq_structD(1) [OF st] in \<open>auto simp: fresh_queues_def lessThan_atLeast0\<close>)
  then obtain h qs where c: "create_queues pQue ?s1 ?f [0..<?n] os rep = (TI_OK, ?s1\<lparr>links := h, queues := qs\<rparr>)"
      "fam_ok 0 h qs" "fam_items h qs = items s" "fam_heads qs = fam_heads (queues s) \<union> pQue ` {..<?n}"
      "\<And>k. (\<And>i. i < ?n \<Longrightarrow> k \<noteq> FuncQ ?f i) \<Longrightarrow> qs k = queues s k"
      "\<And>i. i < ?n \<Longrightarrow> \<exists>q. qs (FuncQ ?f i) = Some q \<and> uLimit q = QUE_UNLIMITED_SIZE"
    unfolding set_func_sel items_upd by (auto simp: lessThan_atLeast0)
  let ?s2 = "?s1\<lparr>links := h, queues := qs\<rparr>"
  let ?s3 = "?s2\<lparr>uMinFuncId := (if uFuncId < uMinFuncId s then uFuncId else uMinFuncId s),
                 uMaxFuncId := (if uFuncId > uMaxFuncId s then uFuncId else uMaxFuncId s)\<rparr>"
  have op: "txnQ_Open pQue s uFuncId numPrios doneCb cbHandle os rep = (TI_OK, ?s3)"
    using f(1) n c(1) by (simp add: txnQ_Open_def)
  have i1: "info ?s1 g = (if g = ?f then ?g (info s g) else info s g)" for g
    using f(1) l by (simp add: info_set_func)
  have it: "items ?s3 = items s" using c(3) by (simp add: items_def)
  have lo: "loose ?s3 x" if "loose s x" "owned s x" for x
    using that fresh c(4) unfolding loose_def it by (auto simp: fam_valid_def fresh_queues_def)
  have fo: "func_of ?s3 = func_of s" by (simp add: func_of_def [abs_def])
  have reg: "registered ?s3 = (registered s)(?f := True)"
    using f(1) by (auto simp: registered_def fun_eq_iff i1)
  have st3: "txnq_struct ?s3"
    unfolding txnq_struct_def
  proof (intro conjI allI impI)
    show "fam_ok 0 (links ?s3) (queues ?s3)" using c(2) by simp
    show "queues ?s3 DoneQ \<noteq> None" using c(5) [of DoneQ] txnq_structD(3) [OF st] by simp
    show "queues ?s3 (FuncQ g p) \<noteq> None \<longleftrightarrow> g < 4 \<and> p < unat (uNumPrios (info ?s3 g))" for g p
    proof (cases "g = ?f \<and> p < ?n")
      case True
      then show ?thesis using c(6) [of p] f(1) by (auto simp: i1)
    next
      case False
      then have "qs (FuncQ g p) = queues s (FuncQ g p)" by (intro c(5)) auto
      then show ?thesis using False txnq_structD(4) [OF st, of g p] none(1) by (auto simp: i1)
    qed
    show "uLimit q = QUE_UNLIMITED_SIZE" if "queues ?s3 k = Some q" "\<forall>n. k \<noteq> ClientQ n" for k q
    proof (cases "\<exists>i < ?n. k = FuncQ ?f i")
      case True
      then obtain i where i: "i < ?n" "k = FuncQ ?f i" by blast
      then show ?thesis using c(6) [OF i(1)] that(1) by simp
    next
      case False
      then have "queues s k = Some q" using c(5) [of k] that(1) by auto
      then show ?thesis using txnq_structD(5) [OF st] that(2) by blast
    qed
    show "unat (uNumPrios (info ?s3 g)) \<le> 2" if "g < 4" for g using that n txnq_structD(6) [OF st that] by (simp add: i1)
    show "if eState (info ?s3 g) = FUNC_STATE_NONE then uNumPrios (info ?s3 g) = 0 \<and> pSingleStep (info ?s3 g) = NULL
        else unat (uMinFuncId ?s3) \<le> g \<and> g \<le> unat (uMaxFuncId ?s3) \<and> fTxnQueueDoneCb (info ?s3 g) \<noteq> NULL"
      if "g < 4" for g
      using st that cb unfolding txnq_struct_def
      by (cases "g = ?f") (fastforce simp: i1 word_less_nat_alt)+
    show "unat (uMaxFuncId ?s3) < 4" using f(1) txnq_structD(9) [OF st] by simp
    show "\<exists>g p. k = FuncQ g p" "queues ?s3 k \<noteq> None" if "pAggregQueue ?s3 = Some k" for k
      using txnq_structD(10) [OF st, of k] that c(5) [of k] c(6) by (auto, metis option.distinct(1))
  qed (simp_all add: l)
  have tx3: "txnq_txns ?s3"
    unfolding txnq_txns_def it fo reg
  proof (intro conjI allI ballI impI)
    show "loose ?s3 (pSingleStep (info ?s3 g))" "func_of s (pSingleStep (info ?s3 g)) = g"
      if "g < 4" "pSingleStep (info ?s3 g) \<noteq> NULL" for g
    proof -
      have e: "pSingleStep (info ?s3 g) = pSingleStep (info s g)" by (simp add: i1)
      then have ne: "pSingleStep (info s g) \<noteq> NULL" using that(2) by simp
      show "loose ?s3 (pSingleStep (info ?s3 g))" "func_of s (pSingleStep (info ?s3 g)) = g"
        unfolding e using lo [OF txnq_txnsD(3) [OF tx that(1) ne]] waiting_Single [OF that(1) ne]
          txnq_txnsD(4) [OF tx that(1) ne] by (simp_all add: owned_def)
    qed
    show "loose ?s3 (pCurrTxn ?s3)" "((registered s)(?f := True)) (func_of s (pCurrTxn ?s3))" if "pCurrTxn ?s3 \<noteq> NULL"
      using that lo [OF txnq_txnsD(5) [OF tx]] txnq_txnsD(6) [OF tx] by (simp_all add: owned_def curr_def)
  qed (use txnq_txnsD [OF tx] in \<open>simp_all add: i1\<close>)
  have "content ?s3 = content s" by (rule content_eqI) (simp_all add: i1 it)
  then have "inside ?s3 = inside s" using it by (simp add: inside_def waiting_def curr_def)
  then show ?thesis using that [of ?s3] op st3 tx3 reg by (simp add: txnq_ok_def quiet_def)
qed

text \<open>Closing a function that has nothing in the module.\<close>

lemma destroy_queues_spec:
  "fam_ok 0 (links s) (queues s) \<Longrightarrow> distinct js \<Longrightarrow> (\<And>i. i \<in> set js \<Longrightarrow> queues s (FuncQ f i) \<noteq> None) \<Longrightarrow>
   (\<And>i. i \<in> set js \<Longrightarrow> items s (FuncQ f i) = []) \<Longrightarrow>
   \<exists>h qs. destroy_queues s f js = Some (s\<lparr>links := h, queues := qs\<rparr>) \<and> fam_ok 0 h qs \<and> fam_items h qs = items s \<and>
     (\<forall>k. qs k = (if \<exists>i \<in> set js. k = FuncQ f i then None else queues s k))"
proof (induction js arbitrary: s)
  case Nil
  then show ?case by (intro exI [of _ "links s"] exI [of _ "queues s"]) (simp add: items_def)
next
  case (Cons i js)
  obtain q where q: "queues s (FuncQ f i) = Some q" using Cons(4) [of i] by auto
  have e: "fam_items (links s) (queues s) (FuncQ f i) = []" using Cons(5) [of i] by (simp add: items_def)
  let ?qs = "(queues s)(FuncQ f i := None)" and ?h = "que_Destroy (links s) q"
  let ?s = "s\<lparr>links := ?h, queues := ?qs\<rparr>"
  have d: "fam_ok 0 ?h ?qs" "items ?s = items s"
    using fam_Destroy_spec [OF Cons(2) q e] by (simp_all add: items_def)
  have "\<exists>h qs. destroy_queues ?s f js = Some (?s\<lparr>links := h, queues := qs\<rparr>) \<and> fam_ok 0 h qs \<and> fam_items h qs = items ?s \<and>
     (\<forall>k. qs k = (if \<exists>i \<in> set js. k = FuncQ f i then None else queues ?s k))"
  proof (rule Cons(1))
    show "fam_ok 0 (links ?s) (queues ?s)" using d(1) by (simp del: fun_upd_apply)
    show "queues ?s (FuncQ f j) \<noteq> None" if "j \<in> set js" for j using that Cons(3,4) by auto
    show "items ?s (FuncQ f j) = []" if "j \<in> set js" for j unfolding d(2) using that Cons(5) by simp
  qed (use Cons(3) in simp)
  then obtain h qs where r: "destroy_queues ?s f js = Some (?s\<lparr>links := h, queues := qs\<rparr>)" "fam_ok 0 h qs"
      "fam_items h qs = items s" "\<And>k. qs k = (if \<exists>i \<in> set js. k = FuncQ f i then None else ?qs k)"
    unfolding d(2) by auto
  have "destroy_queues s f (i # js) = Some (s\<lparr>links := h, queues := qs\<rparr>)"
    using r(1) q by (simp add: destroy_queue_def del: fun_upd_apply)
  moreover have "qs k = (if \<exists>i \<in> set (i # js). k = FuncQ f i then None else queues s k)" for k
    using r(4) [of k] by auto
  ultimately show ?case using r(2,3) by blast
qed

lemma range_fold:
  "n \<le> 4 \<Longrightarrow> \<exists>a b. fold (\<lambda>i s. range_step s i) [0..<n] (s\<lparr>uMinFuncId := 4, uMaxFuncId := 0\<rparr>) =
      s\<lparr>uMinFuncId := a, uMaxFuncId := b\<rparr> \<and> unat b < 4 \<and>
      (\<forall>g < n. eState (info s g) \<noteq> FUNC_STATE_NONE \<longrightarrow> unat a \<le> g \<and> g \<le> unat b)"
proof (induction n)
  case 0
  show ?case by (intro exI [of _ 4] exI [of _ 0]) simp
next
  case (Suc n)
  then obtain a b where r: "fold (\<lambda>i s. range_step s i) [0..<n] (s\<lparr>uMinFuncId := 4, uMaxFuncId := 0\<rparr>) =
      s\<lparr>uMinFuncId := a, uMaxFuncId := b\<rparr>" "unat b < 4"
      "\<forall>g < n. eState (info s g) \<noteq> FUNC_STATE_NONE \<longrightarrow> unat a \<le> g \<and> g \<le> unat b" by auto
  have n: "unat (of_nat n :: u32) = n" using Suc(2) by (simp add: unsigned_of_nat take_bit_nat_eq_self)
  show ?case
  proof (cases "eState (info s n) = FUNC_STATE_NONE")
    case True
    then show ?thesis
      using r by (intro exI [of _ a] exI [of _ b]) (auto simp: range_step_def less_Suc_eq)
  next
    case False
    let ?a = "if of_nat n < a then of_nat n else a" and ?b = "if of_nat n > b then of_nat n else b"
    have le: "unat ?a \<le> n" "unat ?a \<le> unat a" "n \<le> unat ?b" "unat b \<le> unat ?b" "unat ?b < 4"
      using n r(2) Suc(2) by (simp_all add: word_less_nat_alt)
    have "fold (\<lambda>i s. range_step s i) [0..<Suc n] (s\<lparr>uMinFuncId := 4, uMaxFuncId := 0\<rparr>) =
        s\<lparr>uMinFuncId := ?a, uMaxFuncId := ?b\<rparr>"
      using r(1) False by (simp add: range_step_def)
    moreover have "unat ?a \<le> g \<and> g \<le> unat ?b" if "g < Suc n" "eState (info s g) \<noteq> FUNC_STATE_NONE" for g
    proof (cases "g = n")
      case False
      then have "unat a \<le> g \<and> g \<le> unat b" using r(3) that by simp
      then show ?thesis using le(2,4) by linarith
    qed (use le(1,3) in simp)
    ultimately show ?thesis using le(5) by blast
  qed
qed

definition can_close :: "TTxnQObj \<Rightarrow> nat \<Rightarrow> bool" where
  "can_close s f \<longleftrightarrow> registered s f \<and> (\<forall>x. owned s x \<longrightarrow> func_of s x \<noteq> f) \<and> (\<forall>p. pAggregQueue s \<noteq> Some (FuncQ f p))"

lemma txnQ_Close_spec:
  assumes ok: "txnq_ok s" and c: "can_close s (unat uFuncId)"
  obtains s' where "txnQ_Close s uFuncId = Some s'" and "txnq_ok s'" and "quiet s' = quiet s" and "inside s' = inside s"
    and "registered s' = (registered s)(unat uFuncId := False)"
proof -
  let ?f = "unat uFuncId" and ?n = "unat (uNumPrios (info s (unat uFuncId)))"
  have st: "txnq_struct s" and tx: "txnq_txns s" using ok by (simp_all add: txnq_ok_def)
  have f: "?f < 4" using c by (simp add: can_close_def registered_def)
  have l: "length (aFuncInfo s) = 4" using txnq_structD(2) [OF st] .
  have e: "items s (FuncQ ?f p) = []" for p
  proof (rule ccontr)
    assume "items s (FuncQ ?f p) \<noteq> []"
    then obtain x where x: "x \<in> set (items s (FuncQ ?f p))" by (cases "items s (FuncQ ?f p)") auto
    show False
      using c waiting_Queued [OF st x] txnq_txnsD(1) [OF tx x] by (simp add: can_close_def owned_def)
  qed
  have ns: "pSingleStep (info s ?f) = NULL"
    using c waiting_Single [OF f] txnq_txnsD(4) [OF tx f] by (auto simp: can_close_def owned_def)
  have "\<exists>h qs. destroy_queues s ?f [0..<?n] = Some (s\<lparr>links := h, queues := qs\<rparr>) \<and> fam_ok 0 h qs \<and> fam_items h qs = items s \<and>
     (\<forall>k. qs k = (if \<exists>i \<in> set [0..<?n]. k = FuncQ ?f i then None else queues s k))"
  proof (rule destroy_queues_spec)
    show "queues s (FuncQ ?f i) \<noteq> None" if "i \<in> set [0..<?n]" for i
      using that txnq_structD(4) [OF st, of ?f i] f by simp
  qed (use txnq_structD(1) [OF st] e in simp_all)
  then obtain h qs where d: "destroy_queues s ?f [0..<?n] = Some (s\<lparr>links := h, queues := qs\<rparr>)" "fam_ok 0 h qs"
      "fam_items h qs = items s" "\<And>k. qs k = (if \<exists>i \<in> set [0..<?n]. k = FuncQ ?f i then None else queues s k)"
    by blast
  have qs: "qs k = (if \<exists>p. k = FuncQ ?f p then None else queues s k)" for k
  proof (cases "\<exists>p. k = FuncQ ?f p")
    case True
    then obtain p where p: "k = FuncQ ?f p" by blast
    show ?thesis
    proof (cases "p < ?n")
      case False
      then have "queues s k = None" using txnq_structD(4) [OF st, of ?f p] p by blast
      then show ?thesis using d(4) [of k] True by simp
    qed (use d(4) [of k] p in simp)
  qed (use d(4) [of k] in auto)
  let ?g = "\<lambda>i. i\<lparr>uNumPrios := 0, fTxnQueueDoneCb := NULL, hCbHandle := NULL, eState := FUNC_STATE_NONE\<rparr>"
  let ?s2 = "set_func (s\<lparr>links := h, queues := qs\<rparr>) ?f ?g"
  obtain a b where r: "fold (\<lambda>i s. range_step s i) [0..<4] (?s2\<lparr>uMinFuncId := 4, uMaxFuncId := 0\<rparr>) =
      ?s2\<lparr>uMinFuncId := a, uMaxFuncId := b\<rparr>" "unat b < 4"
      "\<And>g. g < 4 \<Longrightarrow> eState (info ?s2 g) \<noteq> FUNC_STATE_NONE \<Longrightarrow> unat a \<le> g \<and> g \<le> unat b"
    using range_fold [of 4 ?s2] by blast
  let ?s = "?s2\<lparr>uMinFuncId := a, uMaxFuncId := b\<rparr>"
  have cl: "txnQ_Close s uFuncId = Some ?s"
    using f l d(1) r(1) by (simp add: txnQ_Close_def)
  have i2: "info ?s2 g = (if g = ?f then ?g (info s g) else info s g)" for g
    using f l by (simp add: info_set_func)
  have it: "items ?s = items s" using d(3) by (simp add: items_def)
  have hd: "fam_heads qs \<subseteq> fam_heads (queues s)" by (auto simp: fam_heads_def qs split: if_splits)
  have lo: "loose ?s x" if "loose s x" for x
    using that hd unfolding loose_def it by (auto simp: fam_valid_def)
  have fo: "func_of ?s = func_of s" by (simp add: func_of_def [abs_def])
  have reg: "registered ?s = (registered s)(?f := False)" by (auto simp: registered_def fun_eq_iff i2)
  have nf: "func_of s x \<noteq> ?f" if "owned s x" for x using c that by (simp add: can_close_def)
  have st3: "txnq_struct ?s"
    unfolding txnq_struct_def
  proof (intro conjI allI impI)
    show "fam_ok 0 (links ?s) (queues ?s)" using d(2) by simp
    show "queues ?s DoneQ \<noteq> None" using txnq_structD(3) [OF st] by (simp add: qs)
    show "queues ?s (FuncQ g p) \<noteq> None \<longleftrightarrow> g < 4 \<and> p < unat (uNumPrios (info ?s g))" for g p
      using txnq_structD(4) [OF st, of g p] by (simp add: qs i2)
    show "uLimit q = QUE_UNLIMITED_SIZE" if "queues ?s k = Some q" "\<forall>n. k \<noteq> ClientQ n" for k q
      using that txnq_structD(5) [OF st, of k q] by (simp add: qs split: if_splits)
    show "unat (uNumPrios (info ?s g)) \<le> 2" if "g < 4" for g using txnq_structD(6) [OF st that] by (simp add: i2)
    show "if eState (info ?s g) = FUNC_STATE_NONE then uNumPrios (info ?s g) = 0 \<and> pSingleStep (info ?s g) = NULL
        else unat (uMinFuncId ?s) \<le> g \<and> g \<le> unat (uMaxFuncId ?s) \<and> fTxnQueueDoneCb (info ?s g) \<noteq> NULL"
      if "g < 4" for g
      using st that r(3) [OF that] ns unfolding txnq_struct_def by (cases "g = ?f") (fastforce simp: i2)+
    show "unat (uMaxFuncId ?s) < 4" using r(2) by simp
    show "\<exists>g p. k = FuncQ g p" "queues ?s k \<noteq> None" if "pAggregQueue ?s = Some k" for k
      using txnq_structD(10) [OF st, of k] that c by (auto simp: qs can_close_def)
  qed (simp_all add: l)
  have tx3: "txnq_txns ?s"
    unfolding txnq_txns_def it fo reg
  proof (intro conjI allI ballI impI)
    show "((registered s)(?f := False)) (func_of s x)" if "x \<in> set (items s DoneQ)" for x
      using txnq_txnsD(2) [OF tx that] nf [of x] that by (simp add: owned_def)
    show "loose ?s (pSingleStep (info ?s g))" "func_of s (pSingleStep (info ?s g)) = g"
      if "g < 4" "pSingleStep (info ?s g) \<noteq> NULL" for g
      using that lo txnq_txnsD(3,4) [OF tx, of g] by (simp_all add: i2 split: if_splits)
    show "loose ?s (pCurrTxn ?s)" "((registered s)(?f := False)) (func_of s (pCurrTxn ?s))" if "pCurrTxn ?s \<noteq> NULL"
      using that lo txnq_txnsD(5,6) [OF tx] nf [of "pCurrTxn s"] by (simp_all add: owned_def curr_def)
  qed (use txnq_txnsD [OF tx] in \<open>simp_all add: i2\<close>)
  have "content ?s = content s" by (rule content_eqI) (simp_all add: i2 it)
  then have "inside ?s = inside s" using it by (simp add: inside_def waiting_def curr_def)
  then show ?thesis using that [of ?s] cl st3 tx3 reg by (simp add: txnq_ok_def quiet_def)
qed

section \<open>Runs of the module\<close>

text \<open>
  A ledger beside the module: the transactions accepted so far, those given back to their function
  (by the callback or as a result that is not pending), and those dropped by a restart.
\<close>

record ledger =
  accepted :: "ptr multiset"
  returned :: "ptr multiset"
  discarded :: "ptr multiset"

definition post :: "ptr multiset \<Rightarrow> ptr multiset \<Rightarrow> ptr multiset \<Rightarrow> ledger \<Rightarrow> ledger" where
  "post a r d l = \<lparr>accepted = accepted l + a, returned = returned l + r, discarded = discarded l + d\<rparr>"

text \<open>
  The steps of the module: its functions under the conditions their callers have to see to, with a bus
  driver and callbacks that behave, and whatever the clients do with transactions of their own.
\<close>

definition env_ok :: "bus_drv \<Rightarrow> done_cb \<Rightarrow> bool" where
  "env_ok bus cb \<longleftrightarrow> bus_quiet bus \<and> cb_quiet cb"

inductive txnq_step :: "TTxnQObj \<times> ledger \<Rightarrow> TTxnQObj \<times> ledger \<Rightarrow> bool" where
  transact: "env_ok bus cb \<Longrightarrow> can_take s x \<Longrightarrow> txnQ_Transact True bus cb s x = Some (st, ev, s') \<Longrightarrow>
    txnq_step (s, l)
      (s', post {#x#} (mset (reported ev) + (if st = TXN_STATUS_PENDING then {#} else {#x#})) {#} l)"
| bus_done: "env_ok bus cb \<Longrightarrow> pCurrTxn s = x \<Longrightarrow> x \<noteq> NULL \<Longrightarrow> txnQ_TxnDoneCb True bus cb s x = Some (ev, s') \<Longrightarrow>
    txnq_step (s, l) (s', post {#} (mset (reported ev))
      (if eState (info s (func_of s x)) = FUNC_STATE_RESTART then mset (dropped s (func_of s x)) else {#}) l)"
| run: "env_ok bus cb \<Longrightarrow> registered s (unat f) \<Longrightarrow> txnQ_Run True bus cb s f = Some (ev, s') \<Longrightarrow>
    txnq_step (s, l) (s', post {#} (mset (reported ev)) {#} l)"
| stop: "registered s (unat f) \<Longrightarrow> txnQ_Stop s f = Some s' \<Longrightarrow> txnq_step (s, l) (s', l)"
| restart: "registered s (unat f) \<Longrightarrow> txnQ_Restart True s f = Some (st, s') \<Longrightarrow>
    txnq_step (s, l)
      (s', post {#} {#} (if st = TXN_STATUS_PENDING then {#} else mset (dropped s (unat f))) l)"
| open_func: "unat f < 4 \<Longrightarrow> eState (info s (unat f)) = FUNC_STATE_NONE \<Longrightarrow> unat n \<le> 2 \<Longrightarrow>
    fresh_queues s pQue (unat n) \<Longrightarrow> c \<noteq> NULL \<Longrightarrow> txnQ_Open pQue s f n c h os rep = (st, s') \<Longrightarrow>
    txnq_step (s, l) (s', l)"
| close_func: "can_close s (unat f) \<Longrightarrow> txnQ_Close s f = Some s' \<Longrightarrow> txnq_step (s, l) (s', l)"
| client: "\<not> owned s x \<Longrightarrow> client_step x s s' \<Longrightarrow> txnq_step (s, l) (s', l)"

definition txnq_start :: "TTxnQObj \<times> ledger \<Rightarrow> bool" where
  "txnq_start r \<longleftrightarrow> (\<exists>pObj pBus h clients params s0 pQue os report.
     txnQ_Create pObj pBus h clients params = Some s0 \<and> fam_ok off_tTxnQNode h (queues s0) \<and>
     pQue \<noteq> NULL \<and> pNext h pQue = NULL \<and> r = (txnQ_Init pQue s0 os report, \<lparr>accepted = {#}, returned = {#}, discarded = {#}\<rparr>))"

definition txnq_balanced :: "TTxnQObj \<times> ledger \<Rightarrow> bool" where
  "txnq_balanced r \<longleftrightarrow> (case r of (s, l) \<Rightarrow> txnq_ok s \<and> quiet s \<and>
     accepted l = mset (inside s) + returned l + discarded l)"

lemma txnq_start_balanced:
  assumes "txnq_start r"
  shows "txnq_balanced r"
proof -
  from assms obtain pObj pBus h clients params s0 pQue os report where c: "txnQ_Create pObj pBus h clients params = Some s0"
      "fam_ok 0 h (queues s0)" "pQue \<noteq> NULL" "pNext h pQue = NULL"
    and r: "r = (txnQ_Init pQue s0 os report, \<lparr>accepted = {#}, returned = {#}, discarded = {#}\<rparr>)"
    by (auto simp: txnq_start_def)
  have s0: "links s0 = h" "aFuncInfo s0 = replicate 4 func_init" "pCurrTxn s0 = NULL" "uMaxFuncId s0 = 0" "quiet s0"
      "pAggregQueue s0 = None" "\<And>f p. queues s0 (FuncQ f p) = None" "queues s0 DoneQ = None"
    using c(1) by (auto simp: txnQ_Create_def quiet_def split: if_splits)
  have it: "items s0 (FuncQ f p) = []" "items s0 DoneQ = []" for f p
    by (simp_all add: items_def fam_items_def s0)
  have ok: "fam_ok 0 (links s0) (queues s0)" and pn: "pNext (links s0) pQue = NULL" using c(2,4) s0(1) by simp_all
  obtain h' q where i: "create_queue pQue s0 DoneQ QUE_UNLIMITED_SIZE os report =
        s0\<lparr>links := h', queues := (queues s0)(DoneQ \<mapsto> q)\<rparr>"
      "fam_ok 0 h' ((queues s0)(DoneQ \<mapsto> q))" "fam_items h' ((queues s0)(DoneQ \<mapsto> q)) = items s0"
      "uLimit q = QUE_UNLIMITED_SIZE"
    using create_queue_spec [OF ok s0(8) c(3) pn] by blast
  let ?s = "s0\<lparr>links := h', queues := (queues s0)(DoneQ \<mapsto> q)\<rparr>"
  have inf: "info s0 f = func_init" if "f < 4" for f using that by (simp add: s0)
  have lim: "uLimit r = QUE_UNLIMITED_SIZE" if "((queues s0)(DoneQ \<mapsto> q)) k = Some r" "\<forall>n. k \<noteq> ClientQ n" for k r
    using that i(4) s0(7) by (cases k) auto
  have "txnq_struct ?s"
    unfolding txnq_struct_def using i(2) lim by (auto simp: s0 func_init_def simp del: fun_upd_apply) (auto simp: s0)
  moreover have "txnq_txns ?s"
    unfolding txnq_txns_def using it by (simp add: i(3) s0 func_init_def del: fun_upd_apply)
  moreover have "inside ?s = []"
  proof -
    have "content ?s pl = []" if pl: "pl \<in> set all_places" for pl
    proof (cases pl)
      case (Single f)
      then have "f < 4" using pl by (auto simp: all_places_def)
      then show ?thesis using Single by (simp add: s0 func_init_def)
    next
      case (Queued f p)
      then show ?thesis using it by (simp add: i(3) del: fun_upd_apply)
    qed
    then show ?thesis using it by (simp add: inside_def waiting_def curr_def i(3) s0 del: fun_upd_apply)
  qed
  ultimately show ?thesis
    using i(1) s0(5) by (simp add: r txnQ_Init_def txnq_balanced_def txnq_ok_def quiet_def)
qed

lemma txnQ_Run_spec:
  assumes e: "env_ok bus cb" and ok: "txnq_ok s" and q: "quiet s" and f: "registered s (unat uFuncId)"
  obtains ev s' where "txnQ_Run True bus cb s uFuncId = Some (ev, s')" and "txnq_ok s'" and "quiet s'"
    and "mset (inside s) = mset (inside s') + mset (reported ev)"
proof -
  let ?s = "set_func s (unat uFuncId) (\<lambda>i. i\<lparr>eState := FUNC_STATE_RUNNING\<rparr>)"
  note so = set_state_ok [OF ok f, of FUNC_STATE_RUNNING]
  have s: "txnq_ok ?s" "inside ?s = inside s" "quiet ?s" using so q by (simp_all add: quiet_def)
  obtain st ev s' where r: "txnQ_RunScheduler True bus cb ?s NULL = Some (st, ev, s')" "run_result ?s NULL (st, ev, s')"
    using txnQ_RunScheduler_spec [OF _ _ s(1,3), of bus cb NULL] e unfolding env_ok_def by (metis prod_cases3)
  have "st = TXN_STATUS_PENDING"
  proof (rule ccontr)
    assume "st \<noteq> TXN_STATUS_PENDING"
    then have "NULL \<in># mset (inside ?s)" using r(2) by (simp add: run_result_def)
    then show False using inside_nonnull [OF s(1)] by simp
  qed
  moreover have "unat uFuncId < length (aFuncInfo s)"
    using f ok by (simp add: registered_def txnq_ok_def txnq_struct_def)
  ultimately show ?thesis using that [of ev s'] r s(2) by (simp add: txnQ_Run_def run_result_def)
qed

text \<open>Every step keeps the books.\<close>

lemma txnq_step_balanced:
  assumes "txnq_step r r'" and "txnq_balanced r"
  shows "txnq_balanced r'"
  using assms
proof (induction rule: txnq_step.induct)
  case (transact bus cb s x st ev s' l)
  then have "bus_quiet bus" "cb_quiet cb" "txnq_ok s" "quiet s" by (simp_all add: env_ok_def txnq_balanced_def)
  from txnQ_Transact_spec [OF this transact(2)] obtain st2 ev2 s2 where
      "txnQ_Transact True bus cb s x = Some (st2, ev2, s2)" "txnq_ok s2" "quiet s2"
      "add_mset x (mset (inside s)) =
        mset (inside s2) + mset (reported ev2) + (if st2 = TXN_STATUS_PENDING then {#} else {#x#})"
    by blast
  then show ?case using transact(3,4) by (simp add: txnq_balanced_def post_def)
next
  case (bus_done bus cb s x ev s' l)
  then have e: "bus_quiet bus" "cb_quiet cb" "txnq_ok s" "quiet s" by (simp_all add: env_ok_def txnq_balanced_def)
  show ?case
  proof (cases "eState (info s (func_of s x)) = FUNC_STATE_RESTART")
    case True
    from txnQ_TxnDoneCb_restart [OF e bus_done(2,3) True] obtain ev2 s2 where
        "txnQ_TxnDoneCb True bus cb s x = Some (report_of s x # ev2, s2)" "txnq_ok s2" "quiet s2"
        "mset (inside s) = mset (inside s2) + mset (reported (report_of s x # ev2)) + mset (dropped s (func_of s x))"
      by blast
    then show ?thesis using bus_done(4,5) True by (simp add: txnq_balanced_def post_def)
  next
    case False
    from txnQ_TxnDoneCb_spec [OF e bus_done(2,3) False] obtain ev2 s2 where
        "txnQ_TxnDoneCb True bus cb s x = Some (ev2, s2)" "txnq_ok s2" "quiet s2"
        "mset (inside s) = mset (inside s2) + mset (reported ev2)"
      by blast
    then show ?thesis using bus_done(4,5) False by (simp add: txnq_balanced_def post_def)
  qed
next
  case (run bus cb s f ev s' l)
  then have "txnq_ok s" "quiet s" by (simp_all add: txnq_balanced_def)
  from txnQ_Run_spec [OF run(1) this run(2)] obtain ev2 s2 where
      "txnQ_Run True bus cb s f = Some (ev2, s2)" "txnq_ok s2" "quiet s2"
      "mset (inside s) = mset (inside s2) + mset (reported ev2)" by blast
  then show ?case using run(3,4) by (simp add: txnq_balanced_def post_def)
next
  case (stop s f s' l)
  then have ok: "txnq_ok s" by (simp add: txnq_balanced_def)
  have "s' = set_func s (unat f) (\<lambda>i. i\<lparr>eState := FUNC_STATE_STOPPED\<rparr>)"
    using stop(2) by (simp add: txnQ_Stop_def split: if_splits)
  then show ?case
    using stop(3) set_state_ok [OF ok stop(1), of FUNC_STATE_STOPPED] by (simp add: txnq_balanced_def quiet_def)
next
  case (restart s f st s' l)
  then have ok: "txnq_ok s" by (simp add: txnq_balanced_def)
  from txnQ_Restart_spec [OF ok restart(1)] obtain st2 s2 where
      r: "txnQ_Restart True s f = Some (st2, s2)" "txnq_ok s2" "quiet s2 = quiet s" and
      d: "if st2 = TXN_STATUS_PENDING
          then pCurrTxn s \<noteq> NULL \<and> func_of s (pCurrTxn s) = unat f \<and> inside s2 = inside s \<and>
            eState (info s2 (unat f)) = FUNC_STATE_RESTART
          else st2 = TXN_STATUS_COMPLETE \<and> mset (inside s) = mset (inside s2) + mset (dropped s (unat f)) \<and>
            eState (info s2 (unat f)) = FUNC_STATE_RUNNING" by blast
  show ?case
    using restart(2,3) r d by (cases "st2 = TXN_STATUS_PENDING") (simp_all add: txnq_balanced_def post_def)
next
  case (open_func f s n pQue c h os rep st s' l)
  then have ok: "txnq_ok s" by (simp add: txnq_balanced_def)
  from txnQ_Open_spec [OF ok open_func(1-5), of h os rep] obtain s2 where
      "txnQ_Open pQue s f n c h os rep = (TI_OK, s2)" "txnq_ok s2" "quiet s2 = quiet s" "inside s2 = inside s" by blast
  then show ?case using open_func(6,7) by (simp add: txnq_balanced_def)
next
  case (close_func s f s' l)
  then have ok: "txnq_ok s" by (simp add: txnq_balanced_def)
  from txnQ_Close_spec [OF ok close_func(1)] obtain s2 where
      "txnQ_Close s f = Some s2" "txnq_ok s2" "quiet s2 = quiet s" "inside s2 = inside s" by blast
  then show ?case using close_func(2,3) by (simp add: txnq_balanced_def)
next
  case (client s x s' l)
  then have ok: "txnq_ok s" by (simp add: txnq_balanced_def)
  note c = client_step_ok [OF ok client(2,1)]
  have "inside s' = inside s" using client(2) c(2) by (simp add: inside_def waiting_def curr_def client_step_def)
  moreover have "quiet s' = quiet s" using client(2) by (intro core_quiet) (simp add: client_step_def)
  ultimately show ?case using client(3) c(1) by (simp add: txnq_balanced_def)
qed

interpretation txnq: safety txnq_start txnq_step txnq_balanced
  by unfold_locales (auto intro: txnq_start_balanced txnq_step_balanced)

section \<open>Properties\<close>


text \<open>
  A module for the witnesses: one function with two priorities and one without queues, no clients,
  a bus driver that keeps or completes what it is given, and callbacks that do nothing.
\<close>

definition txn_ex0 :: TTxnQObj where
  "txn_ex0 = txnQ_Init 4096 (the (txnQ_Create 64 68 \<lparr>pNext = \<lambda>_. 0, pPrev = \<lambda>_. 0\<rparr> Map.empty
     (\<lambda>x. if x = 512 then 0x84 else 8))) 16 32"

definition txn_ex1 :: TTxnQObj where
  "txn_ex1 = snd (txnQ_Open (\<lambda>i. if i = 0 then 8192 else 12288) txn_ex0 2 2 100 101 16 32)"

definition keep_bus :: bus_drv where
  "keep_bus x s = (TXN_STATUS_PENDING, s)"

definition sync_bus :: bus_drv where
  "sync_bus x s = (TXN_STATUS_COMPLETE, s)"

definition idle_done :: done_cb where
  "idle_done f h x s = s"

lemma env_ex: "env_ok keep_bus idle_done" "env_ok sync_bus idle_done"
proof -
  have "\<exists>w. s = s\<lparr>uTxnParams := (uTxnParams s)(x := w)\<rparr> \<and>
      TXN_PARAM_GET_FUNC_ID w = TXN_PARAM_GET_FUNC_ID (uTxnParams s x)" for s :: TTxnQObj and x
    by (rule exI [of _ "uTxnParams s x"]) simp
  then have "bus_quiet keep_bus" "bus_quiet sync_bus" by (simp_all add: bus_quiet_def keep_bus_def sync_bus_def)
  moreover have "cb_quiet idle_done"
    by (auto simp: cb_quiet_def idle_done_def client_step_def txnq_struct_def)
  ultimately show "env_ok keep_bus idle_done" "env_ok sync_bus idle_done" by (simp_all add: env_ok_def)
qed

abbreviation no_ledger :: ledger where
  "no_ledger \<equiv> \<lparr>accepted = {#}, returned = {#}, discarded = {#}\<rparr>"

lemma txn_ex_start: "txnq_start (txn_ex0, no_ledger)"
proof -
  let ?h = "\<lparr>pNext = \<lambda>_. 0, pPrev = \<lambda>_. 0\<rparr> :: qheap" and ?w = "\<lambda>x :: ptr. if x = 512 then 0x84 else 8 :: u32"
  obtain s0 where s0: "txnQ_Create 64 68 ?h Map.empty ?w = Some s0" "queues s0 = (\<lambda>k. None)"
    by (simp add: txnQ_Create_def fun_eq_iff split: qid.split)
  have "fam_ok 0 ?h (queues s0)" by (simp add: fam_ok_def s0(2))
  moreover have "pNext ?h 4096 = 0" by simp
  ultimately show ?thesis
    unfolding txnq_start_def txn_ex0_def s0(1) option.sel
    using s0(1)
    by (intro exI [of _ 64] exI [of _ 68] exI [of _ ?h] exI [of _ Map.empty] exI [of _ ?w] exI [of _ s0] exI [of _ 4096]
      exI [of _ 16] exI [of _ 32]) simp
qed

lemma txn_ex0_fields:
  "aFuncInfo txn_ex0 = replicate 4 func_init" "uTxnParams txn_ex0 = (\<lambda>x. if x = 512 then 0x84 else 8)"
  "pNext (links txn_ex0) = (\<lambda>_. 0)(4096 := 4096)" "quiet txn_ex0" "uMinFuncId txn_ex0 = 4" "uMaxFuncId txn_ex0 = 0"
  by (simp_all add: txn_ex0_def txnQ_Create_def txnQ_Init_def create_queue_def que_Create_def quiet_def)

lemma txn_ex0_ok: "txnq_ok txn_ex0" "inside txn_ex0 = []"
  using txnq_start_balanced [OF txn_ex_start] by (simp_all add: txnq_balanced_def)

lemma txn_ex_open_guard: "fresh_queues txn_ex0 (\<lambda>i. if i = 0 then 8192 else 12288) (unat (2 :: u32))"
  by (auto simp: fresh_queues_def inj_on_def txn_ex0_fields owned_inside txn_ex0_ok)

lemma txn_ex_open:
  "txnQ_Open (\<lambda>i. if i = 0 then 8192 else 12288) txn_ex0 2 2 100 101 16 32 = (TI_OK, txn_ex1)"
  "txnq_ok txn_ex1" "quiet txn_ex1" "inside txn_ex1 = []" "registered txn_ex1 2"
proof -
  have "\<exists>s'. txnQ_Open (\<lambda>i. if i = 0 then 8192 else 12288) txn_ex0 2 2 100 101 16 32 = (TI_OK, s') \<and> txnq_ok s' \<and>
      quiet s' = quiet txn_ex0 \<and> inside s' = inside txn_ex0 \<and> registered s' = (registered txn_ex0)(unat (2 :: u32) := True)"
    using txnQ_Open_spec [OF txn_ex0_ok(1), of 2 2 "\<lambda>i. if i = 0 then 8192 else 12288" 100 101 16 32]
      txn_ex_open_guard by (simp add: txn_ex0_fields func_init_def) blast
  then show "txnQ_Open (\<lambda>i. if i = 0 then 8192 else 12288) txn_ex0 2 2 100 101 16 32 = (TI_OK, txn_ex1)"
    "txnq_ok txn_ex1" "quiet txn_ex1" "inside txn_ex1 = []" "registered txn_ex1 2"
    using txn_ex0_fields(4) txn_ex0_ok(2) by (auto simp: txn_ex1_def)
qed

lemmas txn_ex1_eval = txn_ex1_def txn_ex0_def txnQ_Create_def txnQ_Init_def create_queue_def que_Create_def
  txnQ_Open_def set_func_def upt_rec func_init_def

lemma four_funcs: "replicate 4 i = [i, i, i, i]" "[a, b, c, d][2 := v] = [a, b, v, d]"
  by (simp_all add: numeral_eq_Suc)

lemma txn_ex1_fields:
  "uTxnParams txn_ex1 = (\<lambda>x. if x = 512 then 0x84 else 8)" "uNumPrios (info txn_ex1 2) = 2"
  "pAggregQueue txn_ex1 = None" "uMinFuncId txn_ex1 = 2" "uMaxFuncId txn_ex1 = 2" "pSingleStep (info txn_ex1 2) = 0" "pCurrTxn txn_ex1 = 0"
  "aFuncInfo txn_ex1 = [func_init, func_init, \<lparr>eState = FUNC_STATE_STOPPED, uNumPrios = 2, fTxnQueueDoneCb = 100,
     hCbHandle = 101, pSingleStep = 0\<rparr>, func_init]"
  by (simp_all add: txn_ex1_eval four_funcs)

lemma txn_ex1_queues: "fam_heads (queues txn_ex1) \<subseteq> {4096, 8192, 12288}" "items txn_ex1 k = []"
proof -
  have "queues txn_ex1 k = Some q \<Longrightarrow> tHead q \<in> {4096, 8192, 12288} \<and> uCount q = 0" for k q
    by (cases k) (auto simp: txn_ex1_eval split: if_splits)
  then have q: "tHead q \<in> {4096, 8192, 12288}" "uCount q = 0" if "queues txn_ex1 k = Some q" for k q
    using that by blast+
  show "fam_heads (queues txn_ex1) \<subseteq> {4096, 8192, 12288}" using q(1) unfolding fam_heads_def by blast
  show "items txn_ex1 k = []"
    using q(2) by (cases "queues txn_ex1 k") (simp_all add: items_def fam_items_def que_items_def que_nodes_def)
qed

lemma txn_ex_take: "can_take txn_ex1 20480"
proof -
  have "func_of txn_ex1 20480 = 2" by (simp add: func_of_def txn_ex1_fields TXN_PARAM_GET_FUNC_ID_def)
  moreover have "20480 \<notin> fam_heads (queues txn_ex1)" using txn_ex1_queues(1) by auto
  ultimately show ?thesis
    using txn_ex_open(4,5)
    by (simp add: can_take_def loose_def fam_valid_def txn_ex1_queues(2) owned_inside txn_ex1_fields
        TXN_PARAM_GET_SINGLE_STEP_def TXN_PARAM_GET_PRIORITY_def)
qed

definition txn_ex2 :: TTxnQObj where
  "txn_ex2 = snd (snd (the (txnQ_Transact True keep_bus idle_done txn_ex1 20480)))"

text \<open>
  C3: No transaction is lost or duplicated.  In every run of the module from its creation - functions
  registered, unregistered, started, stopped and restarted, transactions accepted, completed at once
  or later by the bus, and handled by their clients in between - the transactions accepted so far are
  those the module still holds, those given back to their function, and those a restart dropped, each
  counted as often as it was accepted; and a transaction the module holds is in one place only.
\<close>

theorem txnq_ledger:
  assumes "txnq_start r" and "txnq_step\<^sup>*\<^sup>* r (s, l)"
  shows "accepted l = mset (inside s) + returned l + discarded l \<and> distinct (inside s) \<and> txnq_ok s"
  using txnq.reach_inv [OF assms] distinct_inside by (auto simp: txnq_balanced_def)

lemma txn_ex_transact:
  obtains st ev where "txnQ_Transact True keep_bus idle_done txn_ex1 20480 = Some (st, ev, txn_ex2)"
proof -
  have e: "bus_quiet keep_bus" "cb_quiet idle_done" using env_ex by (simp_all add: env_ok_def)
  obtain st ev s' where "txnQ_Transact True keep_bus idle_done txn_ex1 20480 = Some (st, ev, s')"
    using txnQ_Transact_spec [OF e txn_ex_open(2,3) txn_ex_take] by blast
  then show ?thesis using that by (simp add: txn_ex2_def)
qed

theorem txnq_ledger_witness:
  "\<exists>l. txnq_step\<^sup>*\<^sup>* (txn_ex0, no_ledger) (txn_ex2, l) \<and> accepted l = {#20480#} \<and>
     accepted l = mset (inside txn_ex2) + returned l + discarded l \<and> distinct (inside txn_ex2)"
proof -
  obtain st ev where t: "txnQ_Transact True keep_bus idle_done txn_ex1 20480 = Some (st, ev, txn_ex2)"
    by (rule txn_ex_transact)
  let ?l = "post {#20480#} (mset (reported ev) + (if st = TXN_STATUS_PENDING then {#} else {#20480#})) {#} no_ledger"
  have "txnq_step (txn_ex0, no_ledger) (txn_ex1, no_ledger)"
    by (rule txnq_step.open_func [OF _ _ _ txn_ex_open_guard _ txn_ex_open(1)])
      (simp_all add: txn_ex0_fields func_init_def)
  from this txnq_step.transact [OF env_ex(1) txn_ex_take t, of no_ledger]
  have run: "txnq_step\<^sup>*\<^sup>* (txn_ex0, no_ledger) (txn_ex2, ?l)"
    by (rule converse_rtranclp_into_rtranclp [OF _ r_into_rtranclp])
  show ?thesis
    using run txnq_ledger [OF txn_ex_start run] by (intro exI [of _ ?l]) (simp add: post_def)
qed

text \<open>
  C9: The module always answers.  In every state a run reaches, accepting a transaction from a caller
  that keeps to the rules, the completion of the transaction on the bus, and starting a function
  return: the loops of the scheduler end, no null pointer is followed and no function is called
  through a null pointer.
\<close>

theorem txnq_always_returns:
  assumes "txnq_start r" and "txnq_step\<^sup>*\<^sup>* r (s, l)" and "env_ok bus cb"
  shows "(can_take s x \<longrightarrow> txnQ_Transact True bus cb s x \<noteq> None) \<and>
    (pCurrTxn s \<noteq> NULL \<longrightarrow> txnQ_TxnDoneCb True bus cb s (pCurrTxn s) \<noteq> None) \<and>
    (registered s (unat f) \<longrightarrow> txnQ_Run True bus cb s f \<noteq> None \<and> txnQ_Restart True s f \<noteq> None)"
proof -
  have ok: "txnq_ok s" "quiet s" using txnq.reach_inv [OF assms(1,2)] by (simp_all add: txnq_balanced_def)
  have e: "bus_quiet bus" "cb_quiet cb" using assms(3) by (simp_all add: env_ok_def)
  have "txnQ_Transact True bus cb s x \<noteq> None" if "can_take s x"
    by (rule txnQ_Transact_spec [OF e ok that]) simp
  moreover have "txnQ_TxnDoneCb True bus cb s (pCurrTxn s) \<noteq> None" if c: "pCurrTxn s \<noteq> NULL"
  proof (cases "eState (info s (func_of s (pCurrTxn s))) = FUNC_STATE_RESTART")
    case True
    show ?thesis by (rule txnQ_TxnDoneCb_restart [OF e ok refl c True]) simp
  next
    case False
    show ?thesis by (rule txnQ_TxnDoneCb_spec [OF e ok refl c False]) simp
  qed
  moreover have "txnQ_Run True bus cb s f \<noteq> None" if "registered s (unat f)"
    by (rule txnQ_Run_spec [OF assms(3) ok that]) simp
  moreover have "txnQ_Restart True s f \<noteq> None" if "registered s (unat f)"
    by (rule txnQ_Restart_spec [OF ok(1) that]) simp
  ultimately show ?thesis by blast
qed

lemma txn_ex_run: "txnq_step\<^sup>*\<^sup>* (txn_ex0, no_ledger) (txn_ex1, no_ledger)"
proof -
  have "txnq_step (txn_ex0, no_ledger) (txn_ex1, no_ledger)"
    by (rule txnq_step.open_func [OF _ _ _ txn_ex_open_guard _ txn_ex_open(1)])
      (simp_all add: txn_ex0_fields func_init_def)
  then show ?thesis ..
qed

theorem txnq_always_returns_witness:
  "can_take txn_ex1 20480 \<and> txnQ_Transact True sync_bus idle_done txn_ex1 20480 \<noteq> None \<and>
   registered txn_ex1 (unat (2 :: u32)) \<and> txnQ_Run True sync_bus idle_done txn_ex1 2 \<noteq> None"
  using txnq_always_returns [OF txn_ex_start txn_ex_run env_ex(2), of 20480 2] txn_ex_take txn_ex_open(5) by simp





text \<open>
  C31: A restart during an aggregation blocks the bus (debug build).  Clearing the queues of a function
  does not clear the pointer to the queue that aggregates: while that queue stays empty the scheduler
  finds nothing to send, whatever waits in the single-step slots and queues of the other functions.
\<close>

theorem txnq_restart_blocks_bus:
  assumes "txnq_ok s" and "registered s (unat uFuncId)" and "pAggregQueue s = Some (FuncQ (unat uFuncId) p)"
  shows "\<exists>s'. txnQ_ClearQueues True s uFuncId = Some s' \<and> txnQ_SelectTxn True s' = Some (NULL, s') \<and>
    (\<forall>g q. g \<noteq> unat uFuncId \<longrightarrow>
       content s' (Single g) = content s (Single g) \<and> content s' (Queued g q) = content s (Queued g q))"
proof -
  obtain s' where c: "txnQ_ClearQueues True s uFuncId = Some s'" "txnq_ok s'"
      "content s' = (\<lambda>pl. if place_of (unat uFuncId) pl then [] else content s pl)" "pAggregQueue s' = pAggregQueue s"
    by (rule txnQ_ClearQueues_spec [OF assms(1,2)]) blast
  have "items s' (FuncQ (unat uFuncId) p) = []"
    using arg_cong [OF c(3), of "\<lambda>c. c (Queued (unat uFuncId) p)"] by (simp add: place_of_def)
  then have "txnQ_SelectTxn True s' = Some (NULL, s')"
    using select_aggr [of s' "unat uFuncId" p] c(2,4) assms(3) by (simp add: txnq_ok_def)
  then show ?thesis using c(1,3) by (auto simp: place_of_def simp del: content.simps)
qed

text \<open>A module in which the queue of function 2 aggregates and function 1 has a single step waiting.\<close>

definition txn_ex4 :: TTxnQObj where
  "txn_ex4 = set_func (snd (txnQ_Open (\<lambda>_. NULL) (txn_ex1\<lparr>pAggregQueue := Some (FuncQ 2 0)\<rparr>) 1 0 100 101 16 32)) 1
     (\<lambda>i. i\<lparr>pSingleStep := 512\<rparr>)"

lemma txn_ex4_ok: "txnq_ok txn_ex4" "registered txn_ex4 2" "pAggregQueue txn_ex4 = Some (FuncQ 2 0)"
    "content txn_ex4 (Single 1) = [512]"
proof -
  let ?a = "txn_ex1\<lparr>pAggregQueue := Some (FuncQ 2 0)\<rparr>"
  have st: "txnq_struct txn_ex1" "txnq_txns txn_ex1" using txn_ex_open(2) by (simp_all add: txnq_ok_def)
  have "queues txn_ex1 (FuncQ 2 0) \<noteq> None" using txnq_structD(4) [OF st(1), of 2 0] by (simp add: txn_ex1_fields)
  then have "txnq_struct ?a" by (intro struct_aggr [OF st(1)]) blast
  moreover have "txnq_txns ?a" using st(2) by (simp add: txnq_txns_def registered_def func_of_def loose_def)
  ultimately have a: "txnq_ok ?a" by (simp add: txnq_ok_def)
  have "fresh_queues ?a (\<lambda>_. NULL) (unat (0 :: u32))" by (simp add: fresh_queues_def)
  then obtain s1 where o: "txnQ_Open (\<lambda>_. NULL) ?a 1 0 100 101 16 32 = (TI_OK, s1)" "txnq_ok s1" "inside s1 = inside ?a"
      "registered s1 = (registered ?a)(unat (1 :: u32) := True)"
    using txnQ_Open_spec [OF a, of 1 0 "\<lambda>_. NULL" 100 101 16 32] by (simp add: txn_ex1_fields func_init_def) blast
  have s1: "aFuncInfo s1 = (aFuncInfo txn_ex1)[1 := func_init\<lparr>uNumPrios := 0, fTxnQueueDoneCb := 100, hCbHandle := 101,
      eState := FUNC_STATE_STOPPED\<rparr>]" "uTxnParams s1 = uTxnParams txn_ex1" "queues s1 = queues txn_ex1"
      "links s1 = links txn_ex1" "pAggregQueue s1 = Some (FuncQ 2 0)" "pCurrTxn s1 = NULL"
    using o(1) by (auto simp: txnQ_Open_def set_func_def txn_ex1_fields)
  have f: "func_of s1 512 = 1" by (simp add: func_of_def s1 txn_ex1_fields TXN_PARAM_GET_FUNC_ID_def)
  have in0: "inside s1 = []" using o(3) txn_ex_open(4) by (simp add: inside_def waiting_def curr_def txn_ex1_fields)
  have "512 \<notin> fam_heads (queues txn_ex1)" using txn_ex1_queues(1) by auto
  then have l: "loose s1 512"
    using txn_ex1_queues(2) by (simp add: loose_def fam_valid_def s1 items_def)
  have reg: "registered s1 1" using o(4) by simp
  have free: "pSingleStep (info s1 (func_of s1 512)) = NULL" by (simp add: f s1 txn_ex1_fields func_init_def)
  have e4: "txn_ex4 = set_func s1 (func_of s1 512) (\<lambda>i. i\<lparr>pSingleStep := 512\<rparr>)" by (simp add: txn_ex4_def o(1) f)
  show "txnq_ok txn_ex4"
    unfolding e4 by (rule take_single(1) [OF o(2) l _ _ free]) (use reg in \<open>simp_all add: owned_inside in0 f\<close>)
  show "pAggregQueue txn_ex4 = Some (FuncQ 2 0)" by (simp add: e4 s1)
  show "registered txn_ex4 2" "content txn_ex4 (Single 1) = [512]"
    by (simp_all add: e4 f s1 registered_def set_func_def txn_ex1_fields func_init_def)
qed

theorem txnq_restart_blocks_bus_witness:
  "\<exists>s'. txnQ_ClearQueues True txn_ex4 2 = Some s' \<and> txnQ_SelectTxn True s' = Some (NULL, s') \<and>
     content s' (Single 1) = [512]"
  using txnq_restart_blocks_bus [of txn_ex4 2 0] txn_ex4_ok by (auto simp del: content.simps)

end
