(* ===== verification/TxPacket.thy ===== *)
theory TxPacket
  imports Prelude
begin

text \<open>
  The transmit control block (\<^verbatim>\<open>TTxCtrlBlk\<close>, TWD/TWDriver/TWDriver.h) as the modules of the transmit
  path see it: the packet type and the flags, the link and the TID of the descriptor, and the data
  buffers of the transaction.  A buffer is the list of its bytes, \<open>None\<close> a null pointer; a read beyond
  the end of a buffer is \<open>None\<close>.
\<close>

section \<open>The control block\<close>

record TTxCtrlBlk =
  uPktType :: u8
  uFlags :: u16
  hlid :: u8
  tid :: u8
  aBuf :: "u8 list option list"
  aLen :: "u16 list"

abbreviation (input) MAX_XFER_BUFS :: "nat" where "MAX_XFER_BUFS \<equiv> 4"
abbreviation (input) TX_PKT_TYPE_MGMT :: "u8" where "TX_PKT_TYPE_MGMT \<equiv> 1"
abbreviation (input) TX_PKT_TYPE_EAPOL :: "u8" where "TX_PKT_TYPE_EAPOL \<equiv> 2"
abbreviation (input) TX_PKT_TYPE_ETHER :: "u8" where "TX_PKT_TYPE_ETHER \<equiv> 3"
abbreviation (input) TX_CTRL_FLAG_SENT_TO_FW :: "u16" where "TX_CTRL_FLAG_SENT_TO_FW \<equiv> 0x0008"
abbreviation (input) TX_CTRL_FLAG_MULTICAST :: "u16" where "TX_CTRL_FLAG_MULTICAST \<equiv> 0x0020"
abbreviation (input) TX_CTRL_FLAG_BROADCAST :: "u16" where "TX_CTRL_FLAG_BROADCAST \<equiv> 0x0040"
abbreviation (input) TX_CTRL_FLAG_ENCRYPT :: "u16" where "TX_CTRL_FLAG_ENCRYPT \<equiv> 0x0080"
abbreviation (input) TX_CTRL_FLAG_RSRC_ALLOCATED :: "u16" where "TX_CTRL_FLAG_RSRC_ALLOCATED \<equiv> 0x0200"
abbreviation (input) TX_CTRL_FLAG_RSRC_AC_MASK :: "u16" where "TX_CTRL_FLAG_RSRC_AC_MASK \<equiv> 0x0C00"
abbreviation (input) TX_CTRL_FLAG_RSRC_AC_SHIFT :: "nat" where "TX_CTRL_FLAG_RSRC_AC_SHIFT \<equiv> 10"
abbreviation (input) ETHERTYPE_IP :: "u16" where "ETHERTYPE_IP \<equiv> 0x0800"
abbreviation (input) ETHERTYPE_ARP :: "u16" where "ETHERTYPE_ARP \<equiv> 0x0806"
abbreviation (input) ETHERTYPE_EAPOL :: "u16" where "ETHERTYPE_EAPOL \<equiv> 0x888e"
abbreviation (input) MAX_NUM_OF_802_1d_TAGS :: "nat" where "MAX_NUM_OF_802_1d_TAGS \<equiv> 8"
abbreviation (input) MAC_ADDR_LEN :: "nat" where "MAC_ADDR_LEN \<equiv> 6"

definition SET_PKT_TYPE_ENCRYPT :: "TTxCtrlBlk \<Rightarrow> TTxCtrlBlk" where
  "SET_PKT_TYPE_ENCRYPT p = p\<lparr>uFlags := uFlags p OR TX_CTRL_FLAG_ENCRYPT\<rparr>"

definition IS_TX_CTRL_FLAG_RSRC_ALLOCATED :: "TTxCtrlBlk \<Rightarrow> bool" where
  "IS_TX_CTRL_FLAG_RSRC_ALLOCATED p \<longleftrightarrow> uFlags p AND TX_CTRL_FLAG_RSRC_ALLOCATED = TX_CTRL_FLAG_RSRC_ALLOCATED"

definition SET_TX_CTRL_FLAG_RSRC_ALLOCATED :: "TTxCtrlBlk \<Rightarrow> TTxCtrlBlk" where
  "SET_TX_CTRL_FLAG_RSRC_ALLOCATED p = p\<lparr>uFlags := uFlags p OR TX_CTRL_FLAG_RSRC_ALLOCATED\<rparr>"

definition SET_TX_CTRL_FLAG_RSRC_AC :: "TTxCtrlBlk \<Rightarrow> u32 \<Rightarrow> TTxCtrlBlk" where
  "SET_TX_CTRL_FLAG_RSRC_AC p ac =
     p\<lparr>uFlags := uFlags p OR (push_bit TX_CTRL_FLAG_RSRC_AC_SHIFT (ucast ac) AND TX_CTRL_FLAG_RSRC_AC_MASK)\<rparr>"

definition GET_TX_CTRL_FLAG_RSRC_AC :: "TTxCtrlBlk \<Rightarrow> u32" where
  "GET_TX_CTRL_FLAG_RSRC_AC p = ucast (drop_bit TX_CTRL_FLAG_RSRC_AC_SHIFT (uFlags p) AND 0x3)"

section \<open>Packet bytes\<close>

text \<open>Loads from a buffer; the processor is little-endian.\<close>

definition load8 :: "u8 list \<Rightarrow> nat \<Rightarrow> u8 option" where
  "load8 b i = (if i < length b then Some (b ! i) else None)"

definition load16 :: "u8 list \<Rightarrow> nat \<Rightarrow> u16 option" where
  "load16 b i = (if i + 1 < length b then Some (ucast (b ! i) OR push_bit 8 (ucast (b ! (i + 1)))) else None)"

definition load32 :: "u8 list \<Rightarrow> nat \<Rightarrow> u32 option" where
  "load32 b i =
     (if i + 3 < length b
      then Some (ucast (b ! i) OR push_bit 8 (ucast (b ! (i + 1))) OR push_bit 16 (ucast (b ! (i + 2)))
                 OR push_bit 24 (ucast (b ! (i + 3))))
      else None)"

definition HTOWLANS :: "u16 \<Rightarrow> u16" where
  "HTOWLANS x = (drop_bit 8 x AND 0xff) OR push_bit 8 (x AND 0xff)"

text \<open>\<open>buf p n\<close> is the buffer that \<^verbatim>\<open>aBuf[n]\<close> points to.\<close>

definition buf :: "TTxCtrlBlk \<Rightarrow> nat \<Rightarrow> u8 list option" where
  "buf p n = (if n < length (aBuf p) then aBuf p ! n else None)"

definition load_mac :: "u8 list \<Rightarrow> nat \<Rightarrow> u8 list option" where
  "load_mac b i = (if i + MAC_ADDR_LEN \<le> length b then Some (take MAC_ADDR_LEN (drop i b)) else None)"

text \<open>The fields of \<^verbatim>\<open>TEthernetHeader\<close> and \<^verbatim>\<open>dot11_header_t\<close> that the transmit path reads.\<close>

definition eth_type :: "TTxCtrlBlk \<Rightarrow> u16 option" where
  "eth_type p = Option.bind (buf p 0) (\<lambda>b. map_option HTOWLANS (load16 b 12))"

definition eth_dst :: "TTxCtrlBlk \<Rightarrow> u8 list option" where
  "eth_dst p = Option.bind (buf p 0) (\<lambda>b. load_mac b 0)"

definition dot11_address1 :: "TTxCtrlBlk \<Rightarrow> u8 list option" where
  "dot11_address1 p = Option.bind (buf p 0) (\<lambda>b. load_mac b 4)"

definition MAC_MULTICAST :: "u8 list \<Rightarrow> bool" where
  "MAC_MULTICAST mac \<longleftrightarrow> mac ! 0 AND 0x01 \<noteq> 0"

definition MAC_BROADCAST :: "u8 list \<Rightarrow> bool" where
  "MAC_BROADCAST mac \<longleftrightarrow> mac = replicate MAC_ADDR_LEN 0xff"

section \<open>Flags\<close>

lemma rsrc_flags [simp]:
  "IS_TX_CTRL_FLAG_RSRC_ALLOCATED (SET_TX_CTRL_FLAG_RSRC_ALLOCATED p)"
  "IS_TX_CTRL_FLAG_RSRC_ALLOCATED (SET_TX_CTRL_FLAG_RSRC_AC p ac) = IS_TX_CTRL_FLAG_RSRC_ALLOCATED p"
  "IS_TX_CTRL_FLAG_RSRC_ALLOCATED (SET_PKT_TYPE_ENCRYPT p) = IS_TX_CTRL_FLAG_RSRC_ALLOCATED p"
  by (simp_all add: IS_TX_CTRL_FLAG_RSRC_ALLOCATED_def SET_TX_CTRL_FLAG_RSRC_ALLOCATED_def
      SET_TX_CTRL_FLAG_RSRC_AC_def SET_PKT_TYPE_ENCRYPT_def bit.conj_disj_distrib2 and.assoc)

end
