(* ===== verification/TxDataClsfr.thy ===== *)
theory TxDataClsfr
  imports TxPacket
begin

text \<open>
  The transmit classifier (stad/src/Data_link/TxDataClsfr.c) sets the TID of a data packet: from the
  tag of the network stack, or from a table keyed by the DSCP code point, the destination port, or the
  destination address and port.

  The key of a table entry is a C union of six bytes.  It is modelled as the memory it occupies, so
  that a key read as one member after it was written as another is what the code reads.  The three
  branches of every \<^verbatim>\<open>switch\<close> over the classifier type differ only in the members they compare and copy
  (\<open>same_key\<close>, \<open>copy_entry\<close>), so that each operation is written once over them.
\<close>

section \<open>Types\<close>

abbreviation (input) D_TAG_CLSFR :: "u32" where "D_TAG_CLSFR \<equiv> 0"
abbreviation (input) DSCP_CLSFR :: "u32" where "DSCP_CLSFR \<equiv> 1"
abbreviation (input) PORT_CLSFR :: "u32" where "PORT_CLSFR \<equiv> 2"
abbreviation (input) IPPORT_CLSFR :: "u32" where "IPPORT_CLSFR \<equiv> 3"
abbreviation (input) CLSFR_TYPE_MAX :: "u32" where "CLSFR_TYPE_MAX \<equiv> 3"
abbreviation (input) NUM_OF_CLSFR_TABLE_ENTRIES :: "nat" where "NUM_OF_CLSFR_TABLE_ENTRIES \<equiv> 16"
abbreviation (input) CLASSIFIER_DTAG_MAX :: "u8" where "CLASSIFIER_DTAG_MAX \<equiv> 7"
abbreviation (input) CLASSIFIER_CODE_POINT_MAX :: "u8" where "CLASSIFIER_CODE_POINT_MAX \<equiv> 63"
abbreviation (input) CLASSIFIER_PORT_MAX :: "u16" where "CLASSIFIER_PORT_MAX \<equiv> 65535"
abbreviation (input) CLASSIFIER_PORT_MIN :: "u16" where "CLASSIFIER_PORT_MIN \<equiv> 1"
abbreviation (input) CLASSIFIER_IPADDRESS_MAX :: "u32" where "CLASSIFIER_IPADDRESS_MAX \<equiv> 0xFFFFFFFF"
abbreviation (input) CLASSIFIER_IPADDRESS_MIN :: "u32" where "CLASSIFIER_IPADDRESS_MIN \<equiv> 0"

text \<open>Bytes 0 to 3 and bytes 4 to 5 of the union, and the tag.\<close>

record TClsfrTableEntry =
  Dscp_0 :: u32
  Dscp_4 :: u16
  DTag :: u8

record TClsfrParams =
  eClsfrType :: u32
  uNumActiveEntries :: u32
  ClsfrTable :: "TClsfrTableEntry list"

definition CodePoint :: "TClsfrTableEntry \<Rightarrow> u8" where
  "CodePoint e = ucast (Dscp_0 e)"

definition DstPortNum :: "TClsfrTableEntry \<Rightarrow> u16" where
  "DstPortNum e = ucast (Dscp_0 e)"

definition set_CodePoint :: "u8 \<Rightarrow> TClsfrTableEntry \<Rightarrow> TClsfrTableEntry" where
  "set_CodePoint v e = e\<lparr>Dscp_0 := (Dscp_0 e AND NOT 0xFF) OR ucast v\<rparr>"

definition set_DstPortNum :: "u16 \<Rightarrow> TClsfrTableEntry \<Rightarrow> TClsfrTableEntry" where
  "set_DstPortNum v e = e\<lparr>Dscp_0 := (Dscp_0 e AND NOT 0xFFFF) OR ucast v\<rparr>"

definition same_key :: "u32 \<Rightarrow> TClsfrTableEntry \<Rightarrow> TClsfrTableEntry \<Rightarrow> bool" where
  "same_key t a b \<longleftrightarrow>
     (if t = DSCP_CLSFR then CodePoint a = CodePoint b
      else if t = PORT_CLSFR then DstPortNum a = DstPortNum b
      else Dscp_0 a = Dscp_0 b \<and> Dscp_4 a = Dscp_4 b)"

definition copy_entry :: "u32 \<Rightarrow> TClsfrTableEntry \<Rightarrow> TClsfrTableEntry \<Rightarrow> TClsfrTableEntry" where
  "copy_entry t dst src =
     (if t = DSCP_CLSFR then set_CodePoint (CodePoint src) dst
      else if t = PORT_CLSFR then set_DstPortNum (DstPortNum src) dst
      else dst\<lparr>Dscp_0 := Dscp_0 src, Dscp_4 := Dscp_4 src\<rparr>)\<lparr>DTag := DTag src\<rparr>"

section \<open>Operations\<close>

text \<open>One iteration of the loop that fills the table; \<open>cnt\<close> is \<^verbatim>\<open>uActualEntryCount\<close>.\<close>

definition config_step ::
  "u32 \<Rightarrow> TClsfrTableEntry list \<Rightarrow> nat \<Rightarrow> TClsfrTableEntry list \<times> nat \<Rightarrow> TClsfrTableEntry list \<times> nat" where
  "config_step t init i acc =
     (case acc of (tbl, cnt) \<Rightarrow>
        if list_ex (\<lambda>j. same_key t (tbl ! j) (init ! i)) [0..<i] then (tbl, cnt)
        else (tbl[cnt := copy_entry t (tbl ! cnt) (init ! i)], cnt + 1))"

definition txDataClsfr_Config :: "TClsfrParams \<Rightarrow> TClsfrParams \<Rightarrow> TI_STATUS \<times> TClsfrParams" where
  "txDataClsfr_Config pParams pInit =
     (let t = eClsfrType pInit;
          n = (if unat (uNumActiveEntries pInit) \<le> NUM_OF_CLSFR_TABLE_ENTRIES then unat (uNumActiveEntries pInit)
               else NUM_OF_CLSFR_TABLE_ENTRIES)
      in if t = DSCP_CLSFR \<or> t = PORT_CLSFR \<or> t = IPPORT_CLSFR
         then (case fold (config_step t (ClsfrTable pInit)) [0..<n] (ClsfrTable pParams, 0) of
                 (tbl, cnt) \<Rightarrow> (TI_OK, \<lparr>eClsfrType = t, uNumActiveEntries = of_nat cnt, ClsfrTable = tbl\<rparr>))
         else (TI_OK, pParams\<lparr>eClsfrType := D_TAG_CLSFR, uNumActiveEntries := 0\<rparr>))"

text \<open>
  The start of the IP header and of the TCP/UDP header.  \<open>None\<close> is a read through a null pointer or
  beyond a buffer.
\<close>

definition getIpAndUdpHeader :: "TTxCtrlBlk \<Rightarrow> (TI_STATUS \<times> u8 list option \<times> u8 list option) option" where
  "getIpAndUdpHeader p =
     Option.bind (eth_type p) (\<lambda>ty.
       if ty \<noteq> ETHERTYPE_IP \<and> ty \<noteq> ETHERTYPE_ARP then Some (TI_NOK, None, None)
       else Option.bind (buf p 1) (\<lambda>ip.
         Option.bind (load8 ip 0) (\<lambda>b0.
           let ipHeaderLen = (b0 AND 0x0f) * 4
           in if ucast ipHeaderLen = aLen p ! 1 then Some (TI_OK, Some ip, buf p 2)
              else Some (TI_OK, Some ip, Some (drop (unat ipHeaderLen) ip)))))"

definition active :: "TClsfrParams \<Rightarrow> TClsfrTableEntry list" where
  "active c = take (unat (uNumActiveEntries c)) (ClsfrTable c)"

definition set_tid :: "TTxCtrlBlk \<Rightarrow> TClsfrTableEntry option \<Rightarrow> TTxCtrlBlk" where
  "set_tid p r = (case r of None \<Rightarrow> p | Some e \<Rightarrow> p\<lparr>tid := DTag e\<rparr>)"

definition txDataClsfr_ClassifyTxPacket ::
  "TClsfrParams \<Rightarrow> TTxCtrlBlk \<Rightarrow> u8 \<Rightarrow> (TI_STATUS \<times> TTxCtrlBlk) option" where
  "txDataClsfr_ClassifyTxPacket c pkt uPacketDtag =
     (let p = pkt\<lparr>tid := 0\<rparr>; t = eClsfrType c
      in if t = D_TAG_CLSFR
         then Some (if unat uPacketDtag > MAX_NUM_OF_802_1d_TAGS then (PARAM_VALUE_NOT_VALID, p)
                    else (TI_OK, p\<lparr>tid := uPacketDtag\<rparr>))
         else if t = DSCP_CLSFR
         then Option.bind (getIpAndUdpHeader p) (\<lambda>(st, pIpHeader, pUdpHeader).
           case pIpHeader of
             None \<Rightarrow> Some (PARAM_VALUE_NOT_VALID, p)
           | Some ip \<Rightarrow>
               if st \<noteq> TI_OK then Some (PARAM_VALUE_NOT_VALID, p)
               else Option.bind (load8 ip 1) (\<lambda>d.
                 let uDscp = drop_bit 2 d
                 in Some (TI_OK, set_tid p (find (\<lambda>e. CodePoint e = uDscp) (active c)))))
         else if t = PORT_CLSFR
         then Option.bind (getIpAndUdpHeader p) (\<lambda>(st, pIpHeader, pUdpHeader).
           case pUdpHeader of
             None \<Rightarrow> Some (PARAM_VALUE_NOT_VALID, p)
           | Some udp \<Rightarrow>
               if st \<noteq> TI_OK then Some (PARAM_VALUE_NOT_VALID, p)
               else Option.bind (load16 udp 2) (\<lambda>d.
                 let uDstUdpPort = HTOWLANS d
                 in Some (TI_OK, set_tid p (find (\<lambda>e. DstPortNum e = uDstUdpPort) (active c)))))
         else if t = IPPORT_CLSFR
         then Option.bind (getIpAndUdpHeader p) (\<lambda>(st, pIpHeader, pUdpHeader).
           case (pIpHeader, pUdpHeader) of
             (Some ip, Some udp) \<Rightarrow>
               if st \<noteq> TI_OK then Some (PARAM_VALUE_NOT_VALID, p)
               else Option.bind (load16 udp 2) (\<lambda>d. Option.bind (load32 ip 16) (\<lambda>uDstIpAdd.
                 let uDstUdpPort = HTOWLANS d
                 in Some (TI_OK, set_tid p (find (\<lambda>e. Dscp_0 e = uDstIpAdd \<and> Dscp_4 e = uDstUdpPort) (active c)))))
           | _ \<Rightarrow> Some (PARAM_VALUE_NOT_VALID, p))
         else Some (TI_OK, p))"

text \<open>The range checks on a new entry.\<close>

definition entry_in_range :: "u32 \<Rightarrow> TClsfrTableEntry \<Rightarrow> bool" where
  "entry_in_range t e \<longleftrightarrow>
     DTag e \<le> CLASSIFIER_DTAG_MAX \<and>
     (if t = DSCP_CLSFR then CodePoint e \<le> CLASSIFIER_CODE_POINT_MAX
      else if t = PORT_CLSFR then DstPortNum e \<le> CLASSIFIER_PORT_MAX - 1 \<and> DstPortNum e \<ge> CLASSIFIER_PORT_MIN
      else Dscp_4 e \<le> CLASSIFIER_PORT_MAX - 1 \<and> Dscp_4 e \<ge> CLASSIFIER_PORT_MIN \<and>
           Dscp_0 e \<le> CLASSIFIER_IPADDRESS_MAX - 1 \<and> Dscp_0 e \<ge> CLASSIFIER_IPADDRESS_MIN + 1)"

definition txDataClsfr_InsertClsfrEntry ::
  "TClsfrParams \<Rightarrow> TClsfrTableEntry option \<Rightarrow> TI_STATUS \<times> TClsfrParams" where
  "txDataClsfr_InsertClsfrEntry c pNewEntry =
     (case pNewEntry of
        None \<Rightarrow> (PARAM_VALUE_NOT_VALID, c)
      | Some e \<Rightarrow>
         (let t = eClsfrType c; n = unat (uNumActiveEntries c)
          in if n = NUM_OF_CLSFR_TABLE_ENTRIES \<or> t = D_TAG_CLSFR then (PARAM_VALUE_NOT_VALID, c)
             else if t = DSCP_CLSFR \<or> t = PORT_CLSFR \<or> t = IPPORT_CLSFR
             then (if \<not> entry_in_range t e then (PARAM_VALUE_NOT_VALID, c)
                   else if list_ex (\<lambda>i. same_key t (ClsfrTable c ! i) e) [0..<n] then (PARAM_VALUE_NOT_VALID, c)
                   else (TI_OK, c\<lparr>ClsfrTable := (ClsfrTable c)[n := copy_entry t (ClsfrTable c ! n) e],
                                  uNumActiveEntries := uNumActiveEntries c + 1\<rparr>))
             else (TI_OK, c\<lparr>uNumActiveEntries := uNumActiveEntries c + 1\<rparr>)))"

text \<open>The search for an entry, and the loop that moves the entries above it down.\<close>

definition find_entry :: "TClsfrParams \<Rightarrow> TClsfrTableEntry \<Rightarrow> nat option" where
  "find_entry c e =
     find (\<lambda>i. same_key (eClsfrType c) (ClsfrTable c ! i) e \<and> DTag (ClsfrTable c ! i) = DTag e)
       [0..<unat (uNumActiveEntries c)]"

definition shift_down :: "u32 \<Rightarrow> nat \<Rightarrow> nat \<Rightarrow> TClsfrTableEntry list \<Rightarrow> TClsfrTableEntry list" where
  "shift_down t i m tbl = fold (\<lambda>j tbl. tbl[j := copy_entry t (tbl ! j) (tbl ! (j + 1))]) [i..<m] tbl"

definition txDataClsfr_RemoveClsfrEntry ::
  "TClsfrParams \<Rightarrow> TClsfrTableEntry option \<Rightarrow> TI_STATUS \<times> TClsfrParams" where
  "txDataClsfr_RemoveClsfrEntry c pRemEntry =
     (case pRemEntry of
        None \<Rightarrow> (PARAM_VALUE_NOT_VALID, c)
      | Some e \<Rightarrow>
         (let t = eClsfrType c; n = unat (uNumActiveEntries c)
          in if n = 0 \<or> t = D_TAG_CLSFR then (PARAM_VALUE_NOT_VALID, c)
             else if t = DSCP_CLSFR \<or> t = PORT_CLSFR \<or> t = IPPORT_CLSFR
             then (case find_entry c e of
                     None \<Rightarrow> (PARAM_VALUE_NOT_VALID, c)
                   | Some i \<Rightarrow> (TI_OK, c\<lparr>ClsfrTable := shift_down t i (n - 1) (ClsfrTable c),
                                          uNumActiveEntries := uNumActiveEntries c - 1\<rparr>))
             else (TI_OK, c\<lparr>uNumActiveEntries := uNumActiveEntries c - 1\<rparr>)))"

definition txDataClsfr_SetClsfrType :: "TClsfrParams \<Rightarrow> u32 \<Rightarrow> TI_STATUS \<times> TClsfrParams" where
  "txDataClsfr_SetClsfrType c eNewClsfrType =
     (if eNewClsfrType > CLSFR_TYPE_MAX then (PARAM_VALUE_NOT_VALID, c)
      else (TI_OK, c\<lparr>eClsfrType := eNewClsfrType, uNumActiveEntries := 0\<rparr>))"

definition txDataClsfr_GetClsfrType :: "TClsfrParams \<Rightarrow> TI_STATUS \<times> u32" where
  "txDataClsfr_GetClsfrType c = (TI_OK, eClsfrType c)"

section \<open>The table as a map\<close>

text \<open>The key of an entry as the classifier type reads it, and what the active part of the table maps.\<close>

definition key :: "u32 \<Rightarrow> TClsfrTableEntry \<Rightarrow> u32 \<times> u16" where
  "key t e = (if t = DSCP_CLSFR then (ucast (CodePoint e), 0)
              else if t = PORT_CLSFR then (ucast (DstPortNum e), 0) else (Dscp_0 e, Dscp_4 e))"

definition view :: "u32 \<Rightarrow> TClsfrTableEntry \<Rightarrow> (u32 \<times> u16) \<times> u8" where
  "view t e = (key t e, DTag e)"

definition clsfr_map :: "TClsfrParams \<Rightarrow> u32 \<times> u16 \<rightharpoonup> u8" where
  "clsfr_map c = map_of (map (view (eClsfrType c)) (active c))"

definition clsfr_ok :: "TClsfrParams \<Rightarrow> bool" where
  "clsfr_ok c \<longleftrightarrow> length (ClsfrTable c) = NUM_OF_CLSFR_TABLE_ENTRIES \<and>
     unat (uNumActiveEntries c) \<le> NUM_OF_CLSFR_TABLE_ENTRIES \<and>
     eClsfrType c \<le> CLSFR_TYPE_MAX \<and> (eClsfrType c = D_TAG_CLSFR \<longrightarrow> uNumActiveEntries c = 0) \<and>
     distinct (map (key (eClsfrType c)) (active c)) \<and> (\<forall>e \<in> set (active c). DTag e \<le> CLASSIFIER_DTAG_MAX)"

text \<open>The key that a packet is classified by.\<close>

definition packet_key :: "u32 \<Rightarrow> TTxCtrlBlk \<Rightarrow> (u32 \<times> u16) option" where
  "packet_key t p =
     Option.bind (getIpAndUdpHeader p) (\<lambda>(st, pIpHeader, pUdpHeader).
       Option.bind pIpHeader (\<lambda>ip.
         if t = DSCP_CLSFR then map_option (\<lambda>d. (ucast (drop_bit 2 d), 0)) (load8 ip 1)
         else Option.bind pUdpHeader (\<lambda>udp. Option.bind (load16 udp 2) (\<lambda>d.
           if t = PORT_CLSFR then Some (ucast (HTOWLANS d), 0)
           else map_option (\<lambda>a. (a, HTOWLANS d)) (load32 ip 16)))))"

lemma ucast_eq_small:
  "(ucast (a :: u8) :: u32) = ucast b \<longleftrightarrow> a = b" "(ucast (c :: u16) :: u32) = ucast d \<longleftrightarrow> c = d"
  by (simp_all add: word_unat_eq_iff)

lemma same_key_iff: "same_key t a b \<longleftrightarrow> key t a = key t b"
  by (auto simp: same_key_def key_def ucast_eq_small)

lemma set_low_byte: "ucast ((x AND - 256) OR ucast (v :: u8) :: u32) = v"
proof -
  have m: "(- 256 :: u32) = NOT (mask 8)" by (simp add: mask_eq_exp_minus_1)
  show ?thesis unfolding m by (rule bit_word_eqI) (auto simp: bit_simps)
qed

lemma set_low_half: "ucast ((x AND - 65536) OR ucast (v :: u16) :: u32) = v"
proof -
  have m: "(- 65536 :: u32) = NOT (mask 16)" by (simp add: mask_eq_exp_minus_1)
  show ?thesis unfolding m by (rule bit_word_eqI) (auto simp: bit_simps)
qed

lemma view_copy_entry [simp]: "view t (copy_entry t d e) = view t e"
  by (simp add: view_def key_def copy_entry_def CodePoint_def DstPortNum_def set_CodePoint_def
      set_DstPortNum_def set_low_byte set_low_half)

lemma key_copy_entry [simp]: "key t (copy_entry t d e) = key t e" "DTag (copy_entry t d e) = DTag e"
  using view_copy_entry [of t d e] by (simp_all add: view_def)

lemma clsfr_type_cases:
  assumes "t \<le> CLSFR_TYPE_MAX"
  obtains "t = D_TAG_CLSFR" | "t = DSCP_CLSFR" | "t = PORT_CLSFR" | "t = IPPORT_CLSFR"
proof -
  have "unat t \<le> 3" using assms by (simp add: word_le_nat_alt)
  then have "unat t = 0 \<or> unat t = 1 \<or> unat t = 2 \<or> unat t = 3" by linarith
  then have "t = 0 \<or> t = 1 \<or> t = 2 \<or> t = 3"
    by (simp add: word_unat_eq_iff)
  then show ?thesis using that by blast
qed

lemma map_of_view_None:
  "map_of (map (view t) xs) k = None \<longleftrightarrow> k \<notin> set (map (key t) xs)"
  by (induction xs) (auto simp: view_def)

lemma map_of_view_Some:
  "distinct (map (key t) xs) \<Longrightarrow>
     map_of (map (view t) xs) k = Some d \<longleftrightarrow> (\<exists>e \<in> set xs. key t e = k \<and> DTag e = d)"
  by (induction xs) (auto simp: view_def image_iff)

lemma find_view: "map_option DTag (find (\<lambda>e. key t e = k) xs) = map_of (map (view t) xs) k"
  by (induction xs) (auto simp: view_def)

lemma list_ex_nth_take: "n \<le> length xs \<Longrightarrow> list_ex (\<lambda>i. P (xs ! i)) [0..<n] \<longleftrightarrow> (\<exists>x \<in> set (take n xs). P x)"
  by (force simp: list_ex_iff in_set_conv_nth Bex_def)

text \<open>Appending at the end of the active part, and closing the gap of a removed entry.\<close>

lemma take_append_entry:
  "n < length xs \<Longrightarrow> take (n + 1) (xs[n := y]) = take n xs @ [y]"
  by (simp add: take_Suc_conv_app_nth)

lemma shift_down_Suc:
  "i \<le> m \<Longrightarrow> shift_down t i (Suc m) tbl =
     (let s = shift_down t i m tbl in s[m := copy_entry t (s ! m) (s ! (m + 1))])"
  by (simp add: shift_down_def Let_def)

lemma shift_down_view:
  "i \<le> m \<Longrightarrow> length (shift_down t i m tbl) = length tbl \<and>
     (\<forall>j < length tbl. m < length tbl \<longrightarrow> view t (shift_down t i m tbl ! j) =
        view t (tbl ! (if i \<le> j \<and> j < m then j + 1 else j)))"
proof (induction m rule: dec_induct)
  case base
  show ?case by (auto simp: shift_down_def)
next
  case (step m)
  then show ?case
    by (auto simp: shift_down_Suc Let_def nth_list_update less_Suc_eq)
qed

lemma take_shift_down:
  assumes "i < n" and "n \<le> length tbl"
  shows "map (view t) (take (n - 1) (shift_down t i (n - 1) tbl)) =
    map (view t) (take i tbl @ drop (Suc i) (take n tbl))"
proof (rule nth_equalityI)
  have len: "length (shift_down t i (n - 1) tbl) = length tbl"
    using shift_down_view [of i "n - 1" t tbl] assms by simp
  then show "length (map (view t) (take (n - 1) (shift_down t i (n - 1) tbl))) =
      length (map (view t) (take i tbl @ drop (Suc i) (take n tbl)))" using assms by simp
  fix j assume "j < length (map (view t) (take (n - 1) (shift_down t i (n - 1) tbl)))"
  then have j: "j < n - 1" using assms len by simp
  then have "view t (shift_down t i (n - 1) tbl ! j) = view t (tbl ! (if i \<le> j then j + 1 else j))"
    using shift_down_view [of i "n - 1" t tbl] assms by simp
  then show "map (view t) (take (n - 1) (shift_down t i (n - 1) tbl)) ! j =
      map (view t) (take i tbl @ drop (Suc i) (take n tbl)) ! j"
    using j assms len by (auto simp: nth_append)
qed

section \<open>The operations on the map\<close>

lemma clsfr_okD:
  assumes "clsfr_ok c"
  shows "length (ClsfrTable c) = 16" "unat (uNumActiveEntries c) \<le> 16" "length (active c) = unat (uNumActiveEntries c)"
    "distinct (map (key (eClsfrType c)) (active c))"
  using assms by (auto simp: clsfr_ok_def active_def)

lemma insert_d_tag: "eClsfrType c = D_TAG_CLSFR \<Longrightarrow> txDataClsfr_InsertClsfrEntry c r = (PARAM_VALUE_NOT_VALID, c)"
  by (simp add: txDataClsfr_InsertClsfrEntry_def split: option.split)

lemma insert_unchanged:
  "txDataClsfr_InsertClsfrEntry c r = (st, c') \<Longrightarrow> st \<noteq> TI_OK \<Longrightarrow> c' = c"
  by (auto simp: txDataClsfr_InsertClsfrEntry_def Let_def split: option.splits if_splits)

lemma remove_d_tag: "eClsfrType c = D_TAG_CLSFR \<Longrightarrow> txDataClsfr_RemoveClsfrEntry c r = (PARAM_VALUE_NOT_VALID, c)"
  by (simp add: txDataClsfr_RemoveClsfrEntry_def split: option.split)

lemma remove_unchanged:
  "txDataClsfr_RemoveClsfrEntry c r = (st, c') \<Longrightarrow> st \<noteq> TI_OK \<Longrightarrow> c' = c"
  by (auto simp: txDataClsfr_RemoveClsfrEntry_def Let_def split: option.splits if_splits)

lemma inc_entries: "unat n < 16 \<Longrightarrow> unat (n + 1 :: u32) = unat n + 1"
  using word_less_inc_unat [of n 16] by (simp add: word_less_nat_alt)

lemma dec_entries: "n \<noteq> 0 \<Longrightarrow> unat (n - 1 :: u32) = unat n - 1"
  by (simp add: unat_minus_one)

lemma insert_spec:
  assumes ok: "clsfr_ok c" and t: "eClsfrType c \<in> {DSCP_CLSFR, PORT_CLSFR, IPPORT_CLSFR}"
    and r: "txDataClsfr_InsertClsfrEntry c (Some e) = (st, c')"
  shows "st = TI_OK \<longleftrightarrow> unat (uNumActiveEntries c) < 16 \<and> entry_in_range (eClsfrType c) e \<and>
      clsfr_map c (key (eClsfrType c) e) = None"
    and "st = TI_OK \<Longrightarrow> eClsfrType c' = eClsfrType c \<and> length (ClsfrTable c') = 16 \<and>
      uNumActiveEntries c' = uNumActiveEntries c + 1 \<and>
      active c' = active c @ [copy_entry (eClsfrType c) (ClsfrTable c ! unat (uNumActiveEntries c)) e]"
proof -
  let ?n = "unat (uNumActiveEntries c)"
  have ex: "list_ex (\<lambda>i. same_key (eClsfrType c) (ClsfrTable c ! i) e) [0..<?n] \<longleftrightarrow>
      clsfr_map c (key (eClsfrType c) e) \<noteq> None"
    using clsfr_okD(1,2) [OF ok]
      list_ex_nth_take [of ?n "ClsfrTable c" "\<lambda>x. key (eClsfrType c) x = key (eClsfrType c) e"]
    by (simp add: same_key_iff clsfr_map_def map_of_view_None active_def image_iff) metis
  show "st = TI_OK \<longleftrightarrow> ?n < 16 \<and> entry_in_range (eClsfrType c) e \<and> clsfr_map c (key (eClsfrType c) e) = None"
    using r t ex clsfr_okD(2) [OF ok]
    by (auto simp: txDataClsfr_InsertClsfrEntry_def Let_def split: if_splits)
  show "st = TI_OK \<Longrightarrow> eClsfrType c' = eClsfrType c \<and> length (ClsfrTable c') = 16 \<and>
      uNumActiveEntries c' = uNumActiveEntries c + 1 \<and>
      active c' = active c @ [copy_entry (eClsfrType c) (ClsfrTable c ! ?n) e]"
    using r t clsfr_okD(1,2) [OF ok] take_append_entry [of ?n "ClsfrTable c"]
    by (auto simp: txDataClsfr_InsertClsfrEntry_def Let_def active_def inc_entries split: if_splits)
qed

lemma find_entry_Some:
  assumes "clsfr_ok c" and "find_entry c e = Some i"
  shows "i < unat (uNumActiveEntries c)" "view (eClsfrType c) (active c ! i) = view (eClsfrType c) e"
  using assms(2) clsfr_okD(1,2) [OF assms(1)]
  by (auto simp: find_entry_def find_Some_iff same_key_iff active_def view_def)

lemma find_entry_iff:
  assumes "clsfr_ok c"
  shows "find_entry c e \<noteq> None \<longleftrightarrow> clsfr_map c (key (eClsfrType c) e) = Some (DTag e)"
proof -
  have "find_entry c e \<noteq> None \<longleftrightarrow> (\<exists>x \<in> set (active c). key (eClsfrType c) x = key (eClsfrType c) e \<and> DTag x = DTag e)"
    using clsfr_okD(1,2) [OF assms]
    by (force simp: find_entry_def find_None_iff same_key_iff active_def in_set_conv_nth)
  then show ?thesis using clsfr_okD(4) [OF assms] by (simp add: clsfr_map_def map_of_view_Some)
qed

lemma remove_spec:
  assumes ok: "clsfr_ok c" and t: "eClsfrType c \<in> {DSCP_CLSFR, PORT_CLSFR, IPPORT_CLSFR}"
    and r: "txDataClsfr_RemoveClsfrEntry c (Some e) = (st, c')"
  shows "st = TI_OK \<longleftrightarrow> clsfr_map c (key (eClsfrType c) e) = Some (DTag e)"
    and "st = TI_OK \<Longrightarrow> \<exists>i < length (active c). view (eClsfrType c) (active c ! i) = view (eClsfrType c) e \<and>
      eClsfrType c' = eClsfrType c \<and> length (ClsfrTable c') = 16 \<and>
      unat (uNumActiveEntries c') = unat (uNumActiveEntries c) - 1 \<and>
      map (view (eClsfrType c)) (active c') = map (view (eClsfrType c)) (take i (active c) @ drop (Suc i) (active c))"
proof -
  let ?n = "unat (uNumActiveEntries c)" and ?t = "eClsfrType c"
  have none: "clsfr_map c k = None" if "?n = 0" for k using that by (simp add: clsfr_map_def active_def)
  show "st = TI_OK \<longleftrightarrow> clsfr_map c (key ?t e) = Some (DTag e)"
    using r t none [of "key ?t e"] find_entry_iff [OF ok, of e]
    by (auto simp: txDataClsfr_RemoveClsfrEntry_def Let_def split: if_splits option.splits)
  assume st: "st = TI_OK"
  obtain i where f: "find_entry c e = Some i"
    and c': "c' = c\<lparr>ClsfrTable := shift_down ?t i (?n - 1) (ClsfrTable c), uNumActiveEntries := uNumActiveEntries c - 1\<rparr>"
    and n: "?n \<noteq> 0"
    using r t st by (auto simp: txDataClsfr_RemoveClsfrEntry_def Let_def split: if_splits option.splits)
  have i: "i < ?n" and v: "view ?t (active c ! i) = view ?t e" using find_entry_Some [OF ok f] .
  have d: "unat (uNumActiveEntries c - 1) = ?n - 1" using n by (intro dec_entries) auto
  have "map (view ?t) (active c') = map (view ?t) (take i (active c) @ drop (Suc i) (active c))"
    using take_shift_down [OF i, of "ClsfrTable c" ?t] clsfr_okD(1,2) [OF ok] i
    by (simp add: c' active_def d min_def)
  moreover have "length (ClsfrTable c') = 16"
    using shift_down_view [of i "?n - 1" ?t "ClsfrTable c"] i clsfr_okD(1) [OF ok] by (simp add: c')
  ultimately show "\<exists>i < length (active c). view ?t (active c ! i) = view ?t e \<and> eClsfrType c' = ?t \<and>
      length (ClsfrTable c') = 16 \<and> unat (uNumActiveEntries c') = ?n - 1 \<and>
      map (view ?t) (active c') = map (view ?t) (take i (active c) @ drop (Suc i) (active c))"
    using i v d clsfr_okD(3) [OF ok] by (intro exI [of _ i]) (simp add: c')
qed

section \<open>Configurations\<close>

lemma config_fold:
  assumes "n \<le> length tbl" and "n \<le> length init" and "fold (config_step t init) [0..<n] (tbl, 0) = (tbl', cnt)"
  shows "length tbl' = length tbl \<and> cnt \<le> n \<and> distinct (map (key t) (take cnt tbl')) \<and>
    DTag ` set (take cnt tbl') \<subseteq> DTag ` set init"
  using assms
proof (induction n arbitrary: tbl' cnt)
  case 0
  then show ?case by simp
next
  case (Suc n)
  obtain tbl1 cnt1 where f: "fold (config_step t init) [0..<n] (tbl, 0) = (tbl1, cnt1)" by fastforce
  then have IH: "length tbl1 = length tbl" "cnt1 \<le> n" "distinct (map (key t) (take cnt1 tbl1))"
      "DTag ` set (take cnt1 tbl1) \<subseteq> DTag ` set init" using Suc by auto
  have step: "config_step t init n (tbl1, cnt1) = (tbl', cnt)" using Suc.prems(3) f by simp
  show ?case
  proof (cases "list_ex (\<lambda>j. same_key t (tbl1 ! j) (init ! n)) [0..<n]")
    case True
    then show ?thesis using step IH by (auto simp: config_step_def)
  next
    case False
    have c: "cnt1 < length tbl1" using IH(1,2) Suc.prems(1) by simp
    have e: "tbl' = tbl1[cnt1 := copy_entry t (tbl1 ! cnt1) (init ! n)]" "cnt = cnt1 + 1"
      using step False by (auto simp: config_step_def)
    have "key t (init ! n) \<notin> key t ` set (take cnt1 tbl1)"
    proof
      assume "key t (init ! n) \<in> key t ` set (take cnt1 tbl1)"
      then obtain j where "j < cnt1" "key t (tbl1 ! j) = key t (init ! n)"
        using c by (auto simp: in_set_conv_nth)
      then show False using False IH(2) by (auto simp: list_ex_iff same_key_iff)
    qed
    then have "distinct (map (key t) (take cnt tbl'))"
      using IH(3) take_append_entry [OF c] by (simp add: e(1) e(2) del: take_update_cancel)
    moreover have "DTag ` set (take cnt tbl') \<subseteq> DTag ` set init"
      using IH(4) take_append_entry [OF c] Suc.prems(2) by (auto simp: e(1) e(2))
    moreover have "length tbl' = length tbl \<and> cnt \<le> Suc n" using IH(1,2) e by simp
    ultimately show ?thesis by blast
  qed
qed

text \<open>
  The changes to a configuration.  The initial parameters come from the registry; what they have to
  satisfy is what \<^verbatim>\<open>txDataClsfr_Config\<close> does not check: sixteen entries, each with a valid tag.
\<close>

definition init_params_ok :: "TClsfrParams \<Rightarrow> bool" where
  "init_params_ok i \<longleftrightarrow> length (ClsfrTable i) = NUM_OF_CLSFR_TABLE_ENTRIES \<and>
     (\<forall>e \<in> set (ClsfrTable i). DTag e \<le> CLASSIFIER_DTAG_MAX)"

definition clsfr_zero :: TClsfrParams where
  "clsfr_zero = \<lparr>eClsfrType = 0, uNumActiveEntries = 0,
     ClsfrTable = replicate NUM_OF_CLSFR_TABLE_ENTRIES \<lparr>Dscp_0 = 0, Dscp_4 = 0, DTag = 0\<rparr>\<rparr>"

inductive clsfr_step :: "TClsfrParams \<Rightarrow> TClsfrParams \<Rightarrow> bool" where
  config: "init_params_ok i \<Longrightarrow> clsfr_step c (snd (txDataClsfr_Config c i))"
| insert: "clsfr_step c (snd (txDataClsfr_InsertClsfrEntry c r))"
| remove: "clsfr_step c (snd (txDataClsfr_RemoveClsfrEntry c r))"
| settype: "clsfr_step c (snd (txDataClsfr_SetClsfrType c t))"

lemma config_ok:
  assumes "clsfr_ok c" and "init_params_ok i"
  shows "clsfr_ok (snd (txDataClsfr_Config c i))"
proof -
  let ?t = "eClsfrType i"
  let ?n = "if unat (uNumActiveEntries i) \<le> 16 then unat (uNumActiveEntries i) else 16"
  obtain tbl cnt where f: "fold (config_step ?t (ClsfrTable i)) [0..<?n] (ClsfrTable c, 0) = (tbl, cnt)" by fastforce
  have n: "?n \<le> 16" by simp
  have l: "length (ClsfrTable c) = 16" "length (ClsfrTable i) = 16"
    using assms by (simp_all add: clsfr_ok_def init_params_ok_def)
  have F: "length tbl = 16" "cnt \<le> 16" "distinct (map (key ?t) (take cnt tbl))"
    "DTag ` set (take cnt tbl) \<subseteq> DTag ` set (ClsfrTable i)"
    using config_fold [OF _ _ f] n l by (auto intro: order_trans)
  have d: "\<forall>e \<in> set (take cnt tbl). DTag e \<le> 7"
    using F(4) assms(2) by (fastforce simp: init_params_ok_def)
  have u: "unat (of_nat cnt :: u32) = cnt" using F(2) by (simp add: unat_of_nat take_bit_nat_eq_self)
  show ?thesis
    using assms(1) f F d
    by (auto simp: txDataClsfr_Config_def Let_def clsfr_ok_def active_def u split: if_splits)
qed

lemma insert_ok:
  assumes "clsfr_ok c"
  shows "clsfr_ok (snd (txDataClsfr_InsertClsfrEntry c r))"
proof -
  obtain st c' where R: "txDataClsfr_InsertClsfrEntry c r = (st, c')" by fastforce
  have "clsfr_ok c'"
  proof (cases "st = TI_OK \<and> eClsfrType c \<noteq> D_TAG_CLSFR")
    case False
    then have "c' = c" using R insert_unchanged [OF R] insert_d_tag [of c r] by auto
    then show ?thesis using assms by simp
  next
    case True
    then have t: "eClsfrType c \<in> {DSCP_CLSFR, PORT_CLSFR, IPPORT_CLSFR}"
      using assms by (auto simp: clsfr_ok_def elim: clsfr_type_cases)
    obtain e where e: "r = Some e" using R True by (cases r) (auto simp: txDataClsfr_InsertClsfrEntry_def)
    note S = insert_spec [OF assms t R [unfolded e]]
    have "unat (uNumActiveEntries c) < 16" "entry_in_range (eClsfrType c) e" "key (eClsfrType c) e \<notin> key (eClsfrType c) ` set (active c)"
      using S(1) True by (simp_all add: clsfr_map_def map_of_view_None)
    then show ?thesis using assms S(2) True
      by (auto simp: clsfr_ok_def entry_in_range_def inc_entries)
  qed
  then show ?thesis by (simp add: R)
qed

lemma remove_ok:
  assumes "clsfr_ok c"
  shows "clsfr_ok (snd (txDataClsfr_RemoveClsfrEntry c r))"
proof -
  obtain st c' where R: "txDataClsfr_RemoveClsfrEntry c r = (st, c')" by fastforce
  have "clsfr_ok c'"
  proof (cases "st = TI_OK \<and> eClsfrType c \<noteq> D_TAG_CLSFR")
    case False
    then have "c' = c" using R remove_unchanged [OF R] remove_d_tag [of c r] by auto
    then show ?thesis using assms by simp
  next
    case True
    let ?t = "eClsfrType c"
    have t: "?t \<in> {DSCP_CLSFR, PORT_CLSFR, IPPORT_CLSFR}"
      using assms True by (auto simp: clsfr_ok_def elim: clsfr_type_cases)
    obtain e where e: "r = Some e" using R True by (cases r) (auto simp: txDataClsfr_RemoveClsfrEntry_def)
    obtain i where i: "i < length (active c)" "eClsfrType c' = ?t" "length (ClsfrTable c') = 16"
        "unat (uNumActiveEntries c') = unat (uNumActiveEntries c) - 1"
      and m: "map (view ?t) (active c') = map (view ?t) (take i (active c) @ drop (Suc i) (active c))"
      using remove_spec(2) [OF assms t R [unfolded e]] True by blast
    let ?l = "take i (active c) @ drop (Suc i) (active c)"
    have k: "map (key ?t) (active c') = map (key ?t) ?l" and d: "map DTag (active c') = map DTag ?l"
      using arg_cong [OF m, of "map fst"] arg_cong [OF m, of "map snd"] by (simp_all add: view_def comp_def)
    have s: "active c = take i (active c) @ [active c ! i] @ drop (Suc i) (active c)"
      using i(1) by (simp add: id_take_nth_drop)
    have "distinct (map (key ?t) ?l)"
    proof -
      have "distinct (map (key ?t) (take i (active c) @ [active c ! i] @ drop (Suc i) (active c)))"
        using clsfr_okD(4) [OF assms] s by simp
      then show ?thesis by auto
    qed
    moreover have "\<forall>e \<in> set (active c'). DTag e \<le> 7"
    proof -
      have "DTag ` set (active c') \<subseteq> DTag ` set (active c)"
        using arg_cong [OF d, of set] set_take_subset [of i "active c"] set_drop_subset [of "Suc i" "active c"]
        by (simp add: image_Un) blast
      then show ?thesis using assms by (fastforce simp: clsfr_ok_def)
    qed
    ultimately show ?thesis using assms i k t by (auto simp add: clsfr_ok_def)
  qed
  then show ?thesis by (simp add: R)
qed

lemma clsfr_step_ok:
  assumes "clsfr_step c c'" and "clsfr_ok c"
  shows "clsfr_ok c'"
  using assms
proof cases
  case (settype t)
  then show ?thesis using assms(2)
    by (auto simp: txDataClsfr_SetClsfrType_def clsfr_ok_def active_def)
qed (simp_all add: config_ok insert_ok remove_ok)

interpretation clsfr: safety "\<lambda>c. c = clsfr_zero" clsfr_step clsfr_ok
proof unfold_locales
  show "clsfr_ok c" if "c = clsfr_zero" for c
    using that by (simp add: clsfr_zero_def clsfr_ok_def active_def)
qed (rule clsfr_step_ok)

section \<open>Classification\<close>

lemma set_tid_lookup:
  assumes "\<And>e. P e \<longleftrightarrow> key t e = k" and "tid p = 0"
  shows "set_tid p (find P xs) = p\<lparr>tid := (case map_of (map (view t) xs) k of None \<Rightarrow> 0 | Some d \<Rightarrow> d)\<rparr>"
proof -
  have P: "P = (\<lambda>e. key t e = k)" using assms(1) by auto
  show ?thesis
    unfolding P find_view [symmetric] using assms(2) by (cases "find (\<lambda>e. key t e = k) xs") (simp_all add: set_tid_def)
qed

lemma classify_spec:
  assumes t: "eClsfrType c \<in> {DSCP_CLSFR, PORT_CLSFR, IPPORT_CLSFR}"
    and r: "txDataClsfr_ClassifyTxPacket c p d = Some (TI_OK, p')"
  obtains k where "packet_key (eClsfrType c) (p\<lparr>tid := 0\<rparr>) = Some k"
    "p' = p\<lparr>tid := (case clsfr_map c k of None \<Rightarrow> 0 | Some d \<Rightarrow> d)\<rparr>"
proof -
  let ?p = "p\<lparr>tid := 0\<rparr>"
  obtain st ip udp where h: "getIpAndUdpHeader ?p = Some (st, ip, udp)"
    using r t by (auto simp: txDataClsfr_ClassifyTxPacket_def Let_def bind_eq_Some_conv split: if_splits)
  from t consider "eClsfrType c = DSCP_CLSFR" | "eClsfrType c = PORT_CLSFR" | "eClsfrType c = IPPORT_CLSFR" by blast
  then show ?thesis
  proof cases
    case 1
    obtain i b where i: "ip = Some i" and b: "load8 i 1 = Some b"
      and e: "p' = set_tid ?p (find (\<lambda>e. CodePoint e = drop_bit 2 b) (active c))"
      using r h 1 by (auto simp: txDataClsfr_ClassifyTxPacket_def Let_def bind_eq_Some_conv split: option.splits if_splits)
    show ?thesis
    proof (rule that)
      show "packet_key (eClsfrType c) ?p = Some (ucast (drop_bit 2 b), 0)" using h i b 1 by (simp add: packet_key_def)
      show "p' = p\<lparr>tid := (case clsfr_map c (ucast (drop_bit 2 b), 0) of None \<Rightarrow> 0 | Some d \<Rightarrow> d)\<rparr>"
        unfolding e clsfr_map_def
        by (subst set_tid_lookup [where t = "eClsfrType c" and k = "(ucast (drop_bit 2 b), 0)"])
          (simp_all add: 1 key_def ucast_eq_small)
    qed
  next
    case 2
    obtain u b where u: "udp = Some u" and b: "load16 u 2 = Some b"
      and e: "p' = set_tid ?p (find (\<lambda>e. DstPortNum e = HTOWLANS b) (active c))" and st: "st = TI_OK"
      using r h 2 by (auto simp: txDataClsfr_ClassifyTxPacket_def Let_def bind_eq_Some_conv split: option.splits if_splits)
    obtain i where i: "ip = Some i" using h st by (auto simp: getIpAndUdpHeader_def bind_eq_Some_conv Let_def split: if_splits)
    show ?thesis
    proof (rule that)
      show "packet_key (eClsfrType c) ?p = Some (ucast (HTOWLANS b), 0)" using h i u b 2 by (simp add: packet_key_def)
      show "p' = p\<lparr>tid := (case clsfr_map c (ucast (HTOWLANS b), 0) of None \<Rightarrow> 0 | Some d \<Rightarrow> d)\<rparr>"
        unfolding e clsfr_map_def
        by (subst set_tid_lookup [where t = "eClsfrType c" and k = "(ucast (HTOWLANS b), 0)"])
          (simp_all add: 2 key_def ucast_eq_small)
    qed
  next
    case 3
    obtain i u b a where u: "udp = Some u" "ip = Some i" and b: "load16 u 2 = Some b" "load32 i 16 = Some a"
      and e: "p' = set_tid ?p (find (\<lambda>e. Dscp_0 e = a \<and> Dscp_4 e = HTOWLANS b) (active c))"
      using r h 3 by (auto simp: txDataClsfr_ClassifyTxPacket_def Let_def bind_eq_Some_conv split: option.splits if_splits)
    show ?thesis
    proof (rule that)
      show "packet_key (eClsfrType c) ?p = Some (a, HTOWLANS b)" using h u b 3 by (simp add: packet_key_def)
      show "p' = p\<lparr>tid := (case clsfr_map c (a, HTOWLANS b) of None \<Rightarrow> 0 | Some d \<Rightarrow> d)\<rparr>"
        unfolding e clsfr_map_def
        by (subst set_tid_lookup [where t = "eClsfrType c" and k = "(a, HTOWLANS b)"])
          (simp_all add: 3 key_def)
    qed
  qed
qed

lemma classify_failed:
  "txDataClsfr_ClassifyTxPacket c p d = Some (st, p') \<Longrightarrow> st \<noteq> TI_OK \<Longrightarrow> p' = p\<lparr>tid := 0\<rparr>"
  by (auto simp: txDataClsfr_ClassifyTxPacket_def Let_def bind_eq_Some_conv split: if_splits option.splits)

lemma classify_frame:
  assumes r: "txDataClsfr_ClassifyTxPacket c p d = Some (st, p')"
  shows "\<exists>x. p' = p\<lparr>tid := x\<rparr>"
proof (cases "st = TI_OK \<and> eClsfrType c \<in> {DSCP_CLSFR, PORT_CLSFR, IPPORT_CLSFR}")
  case True
  then have "\<exists>k. p' = p\<lparr>tid := (case clsfr_map c k of None \<Rightarrow> 0 | Some d \<Rightarrow> d)\<rparr>"
    using classify_spec [of c p d p'] r by blast
  then show ?thesis by blast
next
  case False
  show ?thesis
  proof (cases "st = TI_OK")
    case ok: True
    then show ?thesis using r False
      by (auto simp: txDataClsfr_ClassifyTxPacket_def Let_def split: if_splits)
  qed (use classify_failed [OF r] in blast)
qed

lemma clsfr_map_valid: "clsfr_ok c \<Longrightarrow> clsfr_map c k = Some d \<Longrightarrow> d \<le> CLASSIFIER_DTAG_MAX"
  using clsfr_okD(4) [of c] by (auto simp: clsfr_map_def map_of_view_Some clsfr_ok_def)

lemma classify_valid:
  assumes ok: "clsfr_ok c" and r: "txDataClsfr_ClassifyTxPacket c p d = Some (st, p')"
    and d: "unat d \<noteq> MAX_NUM_OF_802_1d_TAGS"
  shows "tid p' \<le> CLASSIFIER_DTAG_MAX"
proof (cases "st = TI_OK")
  case False
  then show ?thesis using classify_failed [OF r] by simp
next
  case True
  show ?thesis
  proof (cases "eClsfrType c = D_TAG_CLSFR")
    case tag: True
    then show ?thesis using r d True
      by (auto simp: txDataClsfr_ClassifyTxPacket_def Let_def word_le_nat_alt split: if_splits)
  next
    case False
    then have "eClsfrType c \<in> {DSCP_CLSFR, PORT_CLSFR, IPPORT_CLSFR}"
      using ok by (auto simp: clsfr_ok_def elim: clsfr_type_cases)
    then obtain k where "p' = p\<lparr>tid := (case clsfr_map c k of None \<Rightarrow> 0 | Some d \<Rightarrow> d)\<rparr>"
      using classify_spec r True by blast
    then show ?thesis using clsfr_map_valid [OF ok, of k] by (simp split: option.split)
  qed
qed

section \<open>Properties\<close>

lemma map_of_remove:
  "distinct (map fst (xs @ kv # ys)) \<Longrightarrow> map_of (xs @ ys) = (map_of (xs @ kv # ys))(fst kv := None)"
proof (induction xs)
  case Nil
  then have "map_of ys (fst kv) = None" by (simp add: map_of_eq_None_iff)
  then show ?case by (auto simp: fun_eq_iff)
next
  case (Cons x xs)
  then show ?case by (cases x) (auto simp: fun_eq_iff)
qed

lemma clsfr_map_insert:
  assumes "clsfr_map c k = None" and "eClsfrType c' = eClsfrType c"
    and "active c' = active c @ [e]" and "key (eClsfrType c) e = k"
  shows "clsfr_map c' = (clsfr_map c)(k \<mapsto> DTag e)"
  using assms by (auto simp: clsfr_map_def fun_eq_iff map_add_def view_def split: option.split)

lemma clsfr_map_remove:
  assumes ok: "clsfr_ok c" and i: "i < length (active c)" and t: "eClsfrType c' = eClsfrType c"
    and m: "map (view (eClsfrType c)) (active c') = map (view (eClsfrType c)) (take i (active c) @ drop (Suc i) (active c))"
  shows "clsfr_map c' = (clsfr_map c)(key (eClsfrType c) (active c ! i) := None)"
proof -
  let ?v = "view (eClsfrType c)"
  let ?xs = "map ?v (take i (active c))" and ?ys = "map ?v (drop (Suc i) (active c))"
  have s: "map ?v (active c) = ?xs @ ?v (active c ! i) # ?ys"
    using id_take_nth_drop [OF i] by (metis list.simps(9) map_append)
  have "distinct (map fst (map ?v (active c)))"
    using clsfr_okD(4) [OF ok] by (simp add: view_def comp_def)
  then have "map_of (?xs @ ?ys) = (map_of (map ?v (active c)))(fst (?v (active c ! i)) := None)"
    unfolding s by (rule map_of_remove)
  then show ?thesis using t m by (simp add: clsfr_map_def view_def)
qed

lemma clsfr_status:
  "fst (txDataClsfr_InsertClsfrEntry c r) = TI_OK \<or> fst (txDataClsfr_InsertClsfrEntry c r) = PARAM_VALUE_NOT_VALID"
  "fst (txDataClsfr_RemoveClsfrEntry c r) = TI_OK \<or> fst (txDataClsfr_RemoveClsfrEntry c r) = PARAM_VALUE_NOT_VALID"
  by (simp_all add: txDataClsfr_InsertClsfrEntry_def txDataClsfr_RemoveClsfrEntry_def Let_def split: option.split)

definition clsfr_ex :: TClsfrParams where
  "clsfr_ex = snd (txDataClsfr_InsertClsfrEntry (snd (txDataClsfr_SetClsfrType clsfr_zero DSCP_CLSFR))
     (Some \<lparr>Dscp_0 = 46, Dscp_4 = 0, DTag = 6\<rparr>))"

definition clsfr_ex_pkt :: TTxCtrlBlk where
  "clsfr_ex_pkt = \<lparr>uPktType = TX_PKT_TYPE_ETHER, uFlags = 0, hlid = 0, tid = 3,
     aBuf = [Some (replicate 12 0 @ [8, 0]), Some [0x45, 0xB8, 0, 0], None, None], aLen = [14, 4, 0, 0]\<rparr>"

definition clsfr_ex_init :: TClsfrParams where
  "clsfr_ex_init = \<lparr>eClsfrType = DSCP_CLSFR, uNumActiveEntries = 3,
     ClsfrTable = [\<lparr>Dscp_0 = 46, Dscp_4 = 0, DTag = 6\<rparr>, \<lparr>Dscp_0 = 46, Dscp_4 = 0, DTag = 6\<rparr>,
       \<lparr>Dscp_0 = 0, Dscp_4 = 0, DTag = 5\<rparr>]\<rparr>"

lemma clsfr_ex_eval:
  "clsfr_ex = \<lparr>eClsfrType = 1, uNumActiveEntries = 1,
     ClsfrTable = \<lparr>Dscp_0 = 46, Dscp_4 = 0, DTag = 6\<rparr> # replicate 15 \<lparr>Dscp_0 = 0, Dscp_4 = 0, DTag = 0\<rparr>\<rparr>"
  "txDataClsfr_ClassifyTxPacket clsfr_ex clsfr_ex_pkt 0 = Some (TI_OK, clsfr_ex_pkt\<lparr>tid := 6\<rparr>)"
  by code_simp+

lemma clsfr_ex_reach: "clsfr_step\<^sup>*\<^sup>* clsfr_zero clsfr_ex"
  unfolding clsfr_ex_def
  by (rule rtranclp_trans [OF r_into_rtranclp r_into_rtranclp]) (rule clsfr_step.settype, rule clsfr_step.insert)

text \<open>
  C32: the classifier table implements a finite map.  Inserting an entry extends the map by its key and
  tag, and is refused exactly when the entry is out of range, its key is mapped already, or the sixteen
  places are taken; removing an entry takes its key out of the map, and is refused exactly when the map
  does not send the key to the tag; a refused operation changes nothing.  A packet is given the tag that
  the map has for the key read from its headers, and TID 0 if it has none.
\<close>

theorem clsfr_refines_map:
  assumes ok: "clsfr_ok c" and t: "eClsfrType c \<in> {DSCP_CLSFR, PORT_CLSFR, IPPORT_CLSFR}"
  shows "(case txDataClsfr_InsertClsfrEntry c (Some e) of (st, c') \<Rightarrow>
           if unat (uNumActiveEntries c) < NUM_OF_CLSFR_TABLE_ENTRIES \<and> entry_in_range (eClsfrType c) e \<and>
              clsfr_map c (key (eClsfrType c) e) = None
           then st = TI_OK \<and> clsfr_map c' = (clsfr_map c)(key (eClsfrType c) e \<mapsto> DTag e)
           else st = PARAM_VALUE_NOT_VALID \<and> c' = c) \<and>
         (case txDataClsfr_RemoveClsfrEntry c (Some e) of (st, c') \<Rightarrow>
           if clsfr_map c (key (eClsfrType c) e) = Some (DTag e)
           then st = TI_OK \<and> clsfr_map c' = (clsfr_map c)(key (eClsfrType c) e := None)
           else st = PARAM_VALUE_NOT_VALID \<and> c' = c) \<and>
         (\<forall>p d p'. txDataClsfr_ClassifyTxPacket c p d = Some (TI_OK, p') \<longrightarrow>
           (\<exists>k. packet_key (eClsfrType c) (p\<lparr>tid := 0\<rparr>) = Some k \<and>
              p' = p\<lparr>tid := (case clsfr_map c k of None \<Rightarrow> 0 | Some tag \<Rightarrow> tag)\<rparr>))"
proof (intro conjI allI impI)
  obtain st c' where I: "txDataClsfr_InsertClsfrEntry c (Some e) = (st, c')" by fastforce
  note S = insert_spec [OF ok t I]
  have "clsfr_map c' = (clsfr_map c)(key (eClsfrType c) e \<mapsto> DTag e)" if "st = TI_OK"
    using S(1) S(2) [OF that] that
      clsfr_map_insert [of c "key (eClsfrType c) e" c' "copy_entry (eClsfrType c) (ClsfrTable c ! unat (uNumActiveEntries c)) e"]
    by simp
  then show "case txDataClsfr_InsertClsfrEntry c (Some e) of (st, c') \<Rightarrow>
      if unat (uNumActiveEntries c) < 16 \<and> entry_in_range (eClsfrType c) e \<and> clsfr_map c (key (eClsfrType c) e) = None
      then st = TI_OK \<and> clsfr_map c' = (clsfr_map c)(key (eClsfrType c) e \<mapsto> DTag e)
      else st = PARAM_VALUE_NOT_VALID \<and> c' = c"
    using I S(1) clsfr_status(1) [of c "Some e"] insert_unchanged [OF I] by auto
next
  obtain st c' where R: "txDataClsfr_RemoveClsfrEntry c (Some e) = (st, c')" by fastforce
  note S = remove_spec [OF ok t R]
  have "clsfr_map c' = (clsfr_map c)(key (eClsfrType c) e := None)" if "st = TI_OK"
    using S(2) [OF that] clsfr_map_remove [OF ok] by (auto simp: view_def)
  then show "case txDataClsfr_RemoveClsfrEntry c (Some e) of (st, c') \<Rightarrow>
      if clsfr_map c (key (eClsfrType c) e) = Some (DTag e)
      then st = TI_OK \<and> clsfr_map c' = (clsfr_map c)(key (eClsfrType c) e := None)
      else st = PARAM_VALUE_NOT_VALID \<and> c' = c"
    using R S(1) clsfr_status(2) [of c "Some e"] remove_unchanged [OF R] by auto
next
  fix p d p' assume "txDataClsfr_ClassifyTxPacket c p d = Some (TI_OK, p')"
  from classify_spec [OF t this]
  show "\<exists>k. packet_key (eClsfrType c) (p\<lparr>tid := 0\<rparr>) = Some k \<and>
      p' = p\<lparr>tid := (case clsfr_map c k of None \<Rightarrow> 0 | Some tag \<Rightarrow> tag)\<rparr>" by blast
qed

theorem clsfr_refines_map_witness:
  "\<exists>k. packet_key DSCP_CLSFR (clsfr_ex_pkt\<lparr>tid := 0\<rparr>) = Some k \<and>
     clsfr_ex_pkt\<lparr>tid := 6\<rparr> = clsfr_ex_pkt\<lparr>tid := (case clsfr_map clsfr_ex k of None \<Rightarrow> 0 | Some tag \<Rightarrow> tag)\<rparr>"
proof -
  have ok: "clsfr_ok clsfr_ex" using clsfr_ex_reach by (rule clsfr.reach_inv [OF refl])
  have t: "eClsfrType clsfr_ex = DSCP_CLSFR" by (simp add: clsfr_ex_eval)
  then have "eClsfrType clsfr_ex \<in> {DSCP_CLSFR, PORT_CLSFR, IPPORT_CLSFR}" by simp
  from clsfr_refines_map [OF ok this] show ?thesis using clsfr_ex_eval(2) t by fastforce
qed

text \<open>
  C33: the classifier only ever sets valid TIDs.  From the zeroed module on, through any sequence of
  configurations with valid tags, insertions, removals and changes of the type, at most sixteen entries
  are active, the type is a known one, no two active entries have the same key, and every packet gets a
  TID of at most 7, whatever its headers are and whatever tag the network stack gives it other than 8.
\<close>

theorem clsfr_well_typed:
  assumes "clsfr_step\<^sup>*\<^sup>* clsfr_zero c"
  shows "clsfr_ok c \<and>
    (\<forall>p d st p'. txDataClsfr_ClassifyTxPacket c p d = Some (st, p') \<longrightarrow> unat d \<noteq> MAX_NUM_OF_802_1d_TAGS \<longrightarrow>
       tid p' \<le> CLASSIFIER_DTAG_MAX)"
  using clsfr.reach_inv [OF refl assms] classify_valid by blast

theorem clsfr_well_typed_witness: "clsfr_ok clsfr_ex \<and> tid (clsfr_ex_pkt\<lparr>tid := 6\<rparr>) \<le> CLASSIFIER_DTAG_MAX"
  using clsfr_well_typed [OF clsfr_ex_reach] by simp

text \<open>
  C34: configuring the table loses an entry.  The check for duplicates compares a new entry with the
  first \<open>i\<close> entries of the table, of which only the first \<^verbatim>\<open>uActualEntryCount\<close> have been written.  After
  one duplicate, an entry for the code point 0 is taken for a conflict with the zeroes of the unwritten
  entry and is dropped, although it is the only entry for that code point.
\<close>

theorem clsfr_config_drops_entry:
  assumes "eClsfrType i = DSCP_CLSFR" and "uNumActiveEntries i = 3"
    and "ClsfrTable i = a # a # z # rest" and "CodePoint a \<noteq> 0" and "CodePoint z = 0"
  shows "clsfr_map (snd (txDataClsfr_Config clsfr_zero i)) = [key DSCP_CLSFR a \<mapsto> DTag a]"
proof -
  let ?t0 = "ClsfrTable clsfr_zero"
  have l: "length ?t0 = 16" "?t0 ! 0 = \<lparr>Dscp_0 = 0, Dscp_4 = 0, DTag = 0\<rparr>" "?t0 ! 1 = \<lparr>Dscp_0 = 0, Dscp_4 = 0, DTag = 0\<rparr>"
    by (simp_all add: clsfr_zero_def)
  let ?a = "copy_entry 1 (?t0 ! 0) a"
  have cp: "CodePoint (copy_entry 1 d a) = CodePoint a" "CodePoint \<lparr>Dscp_0 = 0, Dscp_4 = 0, DTag = 0\<rparr> = 0" for d
    using key_copy_entry(1) [of 1 d a] by (simp_all add: key_def ucast_eq_small CodePoint_def)
  have f: "fold (config_step 1 (a # a # z # rest)) [0..<3] (?t0, 0) = (?t0[0 := ?a], 1)"
    using l assms(4,5) cp
    by (simp add: upt_rec numeral_eq_Suc config_step_def same_key_def nth_list_update)
  have u: "(if unat (uNumActiveEntries i) \<le> 16 then unat (uNumActiveEntries i) else 16) = 3" by (simp add: assms)
  have "snd (txDataClsfr_Config clsfr_zero i) =
      \<lparr>eClsfrType = 1, uNumActiveEntries = 1, ClsfrTable = ?t0[0 := ?a]\<rparr>"
    unfolding txDataClsfr_Config_def Let_def u using assms(1,3) f by simp
  then show ?thesis using l(1) by (simp add: clsfr_map_def active_def take_Suc_conv_app_nth view_def)
qed

theorem clsfr_config_drops_entry_witness:
  "clsfr_map (snd (txDataClsfr_Config clsfr_zero clsfr_ex_init)) (0, 0) = None"
  using clsfr_config_drops_entry [of clsfr_ex_init "\<lparr>Dscp_0 = 46, Dscp_4 = 0, DTag = 6\<rparr>"
      "\<lparr>Dscp_0 = 0, Dscp_4 = 0, DTag = 5\<rparr>" "[]"]
  by (simp add: clsfr_ex_init_def CodePoint_def key_def)

end
