(* ===== verification/TxRsrc.thy ===== *)
theory TxRsrc
  imports TxPacket "HOL-Library.Multiset"
begin

text \<open>
  The admission of packets to the transmit queues (stad/src/Data_link/txDataQueue.c,
  \<^verbatim>\<open>txDataQ_AllocCheckResources\<close>, \<^verbatim>\<open>txDataQ_FreeResources\<close>, \<^verbatim>\<open>txDataQ_InitResources\<close>).  Every access category and
  every link has a guaranteed minimum of packets; the rest of the control blocks is shared.  The
  effective total of a table is the sum of what is in use or guaranteed, kept up to date one packet at a
  time.  An access beyond a table is \<open>None\<close>.
\<close>

section \<open>Operations\<close>

record TDataResources =
  uPktInUse_PerAc :: "u32 list"
  uMinGuarantee_PerAc :: "u32 list"
  uEffectiveTotal_Ac :: u32
  uEffectiveTotal_Ac_Min :: u32
  uPktInUse_PerLink :: "u32 list"
  uMinGuarantee_PerLink :: u32
  uEffectiveTotal_Link :: u32
  uEffectiveTotal_Link_Min :: u32
  uMaxTotal :: u32

abbreviation (input) CTRL_BLK_ENTRIES_NUM :: "u32" where "CTRL_BLK_ENTRIES_NUM \<equiv> 160"

definition txDataQ_AllocCheckResources ::
  "TDataResources \<Rightarrow> TTxCtrlBlk \<Rightarrow> (TI_STATUS \<times> TDataResources \<times> TTxCtrlBlk) option" where
  "txDataQ_AllocCheckResources r pkt =
     (if length WMEQosTagToACTable \<le> unat (tid pkt) \<or> WLANLINKS_MAX_LINKS \<le> unat (hlid pkt) then None
      else
       (let uHlid = unat (hlid pkt);
            uAc = WMEQosTagToACTable ! unat (tid pkt);
            useAc = uPktInUse_PerAc r ! uAc + 1;
            useLink = uPktInUse_PerLink r ! uHlid + 1;
            bPktInUse_AboveAcMin = useAc > uMinGuarantee_PerAc r ! uAc;
            bPktInUse_AboveLinkMin = useLink > uMinGuarantee_PerLink r;
            totAc = (if bPktInUse_AboveAcMin then uEffectiveTotal_Ac r + 1 else uEffectiveTotal_Ac r);
            totLink = (if bPktInUse_AboveLinkMin then uEffectiveTotal_Link r + 1 else uEffectiveTotal_Link r);
            bEnqueuePacket =
              (if totAc < uMaxTotal r \<and> totLink < uMaxTotal r then True
               else if totAc \<ge> uMaxTotal r \<and> bPktInUse_AboveAcMin then False
               else if totLink \<ge> uMaxTotal r \<and> bPktInUse_AboveLinkMin then False
               else True)
        in Some (if bEnqueuePacket then TI_OK else TI_NOK,
                 r\<lparr>uPktInUse_PerAc := (uPktInUse_PerAc r)[uAc := useAc], uEffectiveTotal_Ac := totAc,
                   uPktInUse_PerLink := (uPktInUse_PerLink r)[uHlid := useLink], uEffectiveTotal_Link := totLink\<rparr>,
                 SET_TX_CTRL_FLAG_RSRC_AC (SET_TX_CTRL_FLAG_RSRC_ALLOCATED pkt) (of_nat uAc))))"

definition txDataQ_FreeResources :: "TDataResources \<Rightarrow> TTxCtrlBlk \<Rightarrow> TDataResources option" where
  "txDataQ_FreeResources r pkt =
     (if \<not> IS_TX_CTRL_FLAG_RSRC_ALLOCATED pkt then Some r
      else if WLANLINKS_MAX_LINKS \<le> unat (hlid pkt) then None
      else
       (let uHlid = unat (hlid pkt);
            uAc = unat (GET_TX_CTRL_FLAG_RSRC_AC pkt);
            useAc = uPktInUse_PerAc r ! uAc - 1;
            useLink = uPktInUse_PerLink r ! uHlid - 1
        in Some (r\<lparr>uPktInUse_PerAc := (uPktInUse_PerAc r)[uAc := useAc],
                   uEffectiveTotal_Ac := (if useAc \<ge> uMinGuarantee_PerAc r ! uAc then uEffectiveTotal_Ac r - 1
                                          else uEffectiveTotal_Ac r),
                   uPktInUse_PerLink := (uPktInUse_PerLink r)[uHlid := useLink],
                   uEffectiveTotal_Link := (if useLink \<ge> uMinGuarantee_PerLink r then uEffectiveTotal_Link r - 1
                                            else uEffectiveTotal_Link r)\<rparr>)))"

text \<open>\<open>minAc\<close> and \<open>minLink\<close> are the fields of \<^verbatim>\<open>TTxDataResourcesParams_t\<close>.\<close>

definition txDataQ_InitResources :: "bool \<Rightarrow> TDataResources \<Rightarrow> u32 list \<Rightarrow> u32 \<Rightarrow> TDataResources" where
  "txDataQ_InitResources TI_DBG r minAc minLink =
     (let totAc = fold (\<lambda>uAc t. t + minAc ! uAc) [0..<MAX_NUM_OF_AC] 0;
          totLink = fold (\<lambda>uHlid t. t + minLink) [0..<WLANLINKS_MAX_LINKS] 0
      in r\<lparr>uPktInUse_PerAc := replicate MAX_NUM_OF_AC 0, uMinGuarantee_PerAc := map (\<lambda>uAc. minAc ! uAc) [0..<MAX_NUM_OF_AC],
           uEffectiveTotal_Ac := totAc, uPktInUse_PerLink := replicate WLANLINKS_MAX_LINKS 0,
           uMinGuarantee_PerLink := minLink, uEffectiveTotal_Link := totLink,
           uEffectiveTotal_Ac_Min := (if TI_DBG then uEffectiveTotal_Ac_Min r + totAc else uEffectiveTotal_Ac_Min r),
           uEffectiveTotal_Link_Min := (if TI_DBG then uEffectiveTotal_Link_Min r + totLink else uEffectiveTotal_Link_Min r),
           uMaxTotal := CTRL_BLK_ENTRIES_NUM\<rparr>)"

section \<open>One table of counters\<close>

text \<open>
  \<open>held\<close> are the packets that hold resources, each by its category and link.  A table of counters is
  right if it counts them by one of the two (\<open>f\<close>), and if its effective total is the sum of what is in
  use or guaranteed.
\<close>

definition cnt :: "('a \<Rightarrow> nat) \<Rightarrow> 'a multiset \<Rightarrow> nat \<Rightarrow> nat" where
  "cnt f held i = size (filter_mset (\<lambda>x. f x = i) held)"

definition eff :: "('a \<Rightarrow> nat) \<Rightarrow> nat \<Rightarrow> (nat \<Rightarrow> nat) \<Rightarrow> 'a multiset \<Rightarrow> nat" where
  "eff f n mins held = (\<Sum>i<n. max (cnt f held i) (mins i))"

definition pool_ok :: "('a \<Rightarrow> nat) \<Rightarrow> nat \<Rightarrow> u32 list \<Rightarrow> (nat \<Rightarrow> u32) \<Rightarrow> u32 \<Rightarrow> 'a multiset \<Rightarrow> bool" where
  "pool_ok f n uses mins tot held \<longleftrightarrow> length uses = n \<and> (\<forall>i < n. unat (uses ! i) = cnt f held i) \<and>
     unat tot = eff f n (\<lambda>i. unat (mins i)) held"

lemma cnt_add [simp]: "cnt f (add_mset x held) i = (if f x = i then Suc (cnt f held i) else cnt f held i)"
  by (simp add: cnt_def)

lemma eff_add:
  assumes "f x < n"
  shows "eff f n mins (add_mset x held) = (if mins (f x) \<le> cnt f held (f x) then eff f n mins held + 1 else eff f n mins held)"
proof -
  have r: "eff f n mins h = max (cnt f h (f x)) (mins (f x)) + (\<Sum>i \<in> {..<n} - {f x}. max (cnt f h i) (mins i))" for h
    unfolding eff_def using assms by (intro sum.remove) auto
  have "(\<Sum>i \<in> {..<n} - {f x}. max (cnt f (add_mset x held) i) (mins i)) =
      (\<Sum>i \<in> {..<n} - {f x}. max (cnt f held i) (mins i))"
    by (rule sum.cong) auto
  then show ?thesis using r [of held] r [of "add_mset x held"] by (simp add: max_def)
qed

lemma cnt_le_eff: "i < n \<Longrightarrow> cnt f held i \<le> eff f n mins held"
  using member_le_sum [of i "{..<n}" "\<lambda>i. max (cnt f held i) (mins i)"] by (simp add: eff_def)

lemma size_sum_cnt: "(\<And>x. x \<in># held \<Longrightarrow> f x < n) \<Longrightarrow> size held = (\<Sum>i<n. cnt f held i)"
proof (induction held)
  case (add x held)
  have "(\<Sum>i<n. cnt f (add_mset x held) i) = (\<Sum>i<n. cnt f held i + (if i = f x then 1 else 0))"
    by (rule sum.cong) auto
  then show ?case using add by (simp add: sum.distrib)
qed (simp add: cnt_def)

lemma size_le_eff: "(\<And>x. x \<in># held \<Longrightarrow> f x < n) \<Longrightarrow> size held \<le> eff f n mins held"
  unfolding eff_def by (subst size_sum_cnt, assumption) (auto intro: sum_mono)

lemma pool_init: "unat tot = (\<Sum>i<n. unat (mins i)) \<Longrightarrow> pool_ok f n (replicate n 0) mins tot {#}"
  by (simp add: pool_ok_def cnt_def eff_def)

lemma pool_alloc:
  assumes ok: "pool_ok f n uses mins tot held" and x: "f x < n" and b: "unat tot < 2 ^ 32 - 1"
  shows "pool_ok f n (uses[f x := uses ! f x + 1]) mins
      (if uses ! f x + 1 > mins (f x) then tot + 1 else tot) (add_mset x held)"
    and "uses ! f x + 1 > mins (f x) \<longleftrightarrow> unat (mins (f x)) \<le> cnt f held (f x)"
    and "unat (if uses ! f x + 1 > mins (f x) then tot + 1 else tot) = eff f n (\<lambda>i. unat (mins i)) (add_mset x held)"
proof -
  have u: "unat (uses ! f x) = cnt f held (f x)" and t: "unat tot = eff f n (\<lambda>i. unat (mins i)) held"
    using ok x by (simp_all add: pool_ok_def)
  have "unat (uses ! f x) < 2 ^ 32 - 1" using u t b cnt_le_eff [OF x, of f held "\<lambda>i. unat (mins i)"] by simp
  then have inc: "unat (uses ! f x + 1) = Suc (unat (uses ! f x))" "unat (tot + 1) = Suc (unat tot)"
    using b word_less_inc_unat [of "uses ! f x" "0xFFFFFFFF"] word_less_inc_unat [of tot "0xFFFFFFFF"]
    by (simp_all add: word_less_nat_alt)
  show a: "uses ! f x + 1 > mins (f x) \<longleftrightarrow> unat (mins (f x)) \<le> cnt f held (f x)"
    using u inc(1) by (simp add: word_less_nat_alt less_Suc_eq_le)
  show e: "unat (if uses ! f x + 1 > mins (f x) then tot + 1 else tot) = eff f n (\<lambda>i. unat (mins i)) (add_mset x held)"
    using eff_add [where f = f, OF x] inc(2) t by (simp add: a)
  show "pool_ok f n (uses[f x := uses ! f x + 1]) mins
      (if uses ! f x + 1 > mins (f x) then tot + 1 else tot) (add_mset x held)"
    using ok x e inc(1) u by (auto simp: pool_ok_def nth_list_update)
qed

lemma pool_free:
  assumes ok: "pool_ok f n uses mins tot (add_mset x held)" and x: "f x < n"
  shows "pool_ok f n (uses[f x := uses ! f x - 1]) mins (if uses ! f x - 1 \<ge> mins (f x) then tot - 1 else tot) held"
proof -
  have u: "unat (uses ! f x) = Suc (cnt f held (f x))"
    and t: "unat tot = eff f n (\<lambda>i. unat (mins i)) (add_mset x held)"
    using ok x by (simp_all add: pool_ok_def)
  have dec: "unat (uses ! f x - 1) = cnt f held (f x)"
    using u by (metis diff_Suc_1 nat.distinct(1) unat_eq_zero unat_minus_one)
  have a: "uses ! f x - 1 \<ge> mins (f x) \<longleftrightarrow> unat (mins (f x)) \<le> cnt f held (f x)"
    by (simp add: word_le_nat_alt dec)
  have "unat (if uses ! f x - 1 \<ge> mins (f x) then tot - 1 else tot) = eff f n (\<lambda>i. unat (mins i)) held"
  proof (cases "unat (mins (f x)) \<le> cnt f held (f x)")
    case True
    then have "unat tot = Suc (eff f n (\<lambda>i. unat (mins i)) held)" using t eff_add [where f = f, OF x] by simp
    then have "unat (tot - 1) = eff f n (\<lambda>i. unat (mins i)) held"
      by (metis diff_Suc_1 nat.distinct(1) unat_eq_zero unat_minus_one)
    then show ?thesis using True by (simp add: a)
  qed (use t eff_add [where f = f, OF x] a in simp)
  then show ?thesis using ok x dec by (auto simp: pool_ok_def nth_list_update)
qed

section \<open>The two tables\<close>

text \<open>The category and the link that a packet holds resources of.\<close>

definition rsrc_class :: "TTxCtrlBlk \<Rightarrow> nat \<times> nat" where
  "rsrc_class pkt = (unat (GET_TX_CTRL_FLAG_RSRC_AC pkt), unat (hlid pkt))"

definition rsrc_fresh :: "TTxCtrlBlk \<Rightarrow> bool" where
  "rsrc_fresh pkt \<longleftrightarrow> uFlags pkt AND 0x0E00 = 0"

definition rsrc_ok :: "TDataResources \<Rightarrow> (nat \<times> nat) multiset \<Rightarrow> bool" where
  "rsrc_ok r held \<longleftrightarrow> (\<forall>x \<in># held. fst x < MAX_NUM_OF_AC \<and> snd x < WLANLINKS_MAX_LINKS) \<and>
     pool_ok fst MAX_NUM_OF_AC (uPktInUse_PerAc r) (\<lambda>i. uMinGuarantee_PerAc r ! i) (uEffectiveTotal_Ac r) held \<and>
     pool_ok snd WLANLINKS_MAX_LINKS (uPktInUse_PerLink r) (\<lambda>_. uMinGuarantee_PerLink r) (uEffectiveTotal_Link r) held"

definition rsrc_inv :: "TDataResources \<Rightarrow> (nat \<times> nat) multiset \<Rightarrow> bool" where
  "rsrc_inv r held \<longleftrightarrow> rsrc_ok r held \<and> uMaxTotal r = CTRL_BLK_ENTRIES_NUM \<and>
     uEffectiveTotal_Ac r < uMaxTotal r \<and> uEffectiveTotal_Link r < uMaxTotal r"

text \<open>The configuration has to leave something to share: otherwise no packet is above its guarantee.\<close>

definition rsrc_cfg_ok :: "u32 list \<Rightarrow> u32 \<Rightarrow> bool" where
  "rsrc_cfg_ok minAc minLink \<longleftrightarrow> (\<Sum>i<MAX_NUM_OF_AC. unat (minAc ! i)) < 160 \<and> 7 * unat minLink < 160"

lemma rsrc_ac_range [simp]: "unat (GET_TX_CTRL_FLAG_RSRC_AC pkt) < 4"
proof -
  have "GET_TX_CTRL_FLAG_RSRC_AC pkt = ucast (take_bit 2 (drop_bit 10 (uFlags pkt)))"
    by (simp add: GET_TX_CTRL_FLAG_RSRC_AC_def take_bit_eq_mask mask_eq_exp_minus_1)
  moreover have "unat (take_bit 2 (drop_bit 10 (uFlags pkt))) < 4"
    using take_bit_nat_less_exp [of 2] by (simp add: unsigned_take_bit_eq)
  ultimately show ?thesis by (simp add: unat_ucast_u16)
qed

lemma rsrc_ac_flags:
  assumes "rsrc_fresh pkt" and "ac < 4"
  shows "unat (GET_TX_CTRL_FLAG_RSRC_AC (SET_TX_CTRL_FLAG_RSRC_AC (SET_TX_CTRL_FLAG_RSRC_ALLOCATED pkt) (of_nat ac))) = ac"
proof -
  have "uFlags pkt AND 0x0C00 = (uFlags pkt AND 0x0E00) AND 0x0C00" by (simp add: and.assoc)
  then have "uFlags pkt AND 0x0C00 = 0" using assms(1) by (simp add: rsrc_fresh_def)
  then have "drop_bit 10 (uFlags pkt AND 0x0C00) = 0" by simp
  then have z: "drop_bit 10 (uFlags pkt) AND 3 = 0" by (simp add: drop_bit_and)
  from assms(2) have "ac = 0 \<or> ac = 1 \<or> ac = 2 \<or> ac = 3" by linarith
  then show ?thesis
    by (elim disjE) (simp_all add: GET_TX_CTRL_FLAG_RSRC_AC_def SET_TX_CTRL_FLAG_RSRC_AC_def
        SET_TX_CTRL_FLAG_RSRC_ALLOCATED_def drop_bit_or bit.conj_disj_distrib2 z)
qed

lemma tag_ac [simp]: "length WMEQosTagToACTable = 8" "i < 8 \<Longrightarrow> WMEQosTagToACTable ! i < 4"
  by (auto simp: WMEQosTagToACTable_def less_Suc_eq numeral_eq_Suc)

text \<open>What no operation but the initialisation changes.\<close>

definition rsrc_cfg :: "TDataResources \<Rightarrow> u32 list \<times> u32 \<times> u32" where
  "rsrc_cfg r = (uMinGuarantee_PerAc r, uMinGuarantee_PerLink r, uMaxTotal r)"

lemma rsrc_totals:
  "rsrc_ok r held \<Longrightarrow> unat (uEffectiveTotal_Ac r) = eff fst 4 (\<lambda>i. unat (uMinGuarantee_PerAc r ! i)) held"
  "rsrc_ok r held \<Longrightarrow> unat (uEffectiveTotal_Link r) = eff snd 7 (\<lambda>_. unat (uMinGuarantee_PerLink r)) held"
  by (simp_all add: rsrc_ok_def pool_ok_def)

lemma rsrc_inv_cong:
  assumes "rsrc_inv r held" and "rsrc_ok r' held'" and "rsrc_cfg r' = rsrc_cfg r"
    and "held' = held \<or> held = add_mset x held'"
  shows "rsrc_inv r' held'"
proof -
  have "rsrc_ok r held" using assms(1) by (simp add: rsrc_inv_def)
  then have "x \<in># held \<Longrightarrow> fst x < 4 \<and> snd x < 7" by (simp add: rsrc_ok_def)
  then have m: "eff fst 4 f held' \<le> eff fst 4 f held" "eff snd 7 f held' \<le> eff snd 7 f held" for f
    using assms(4) eff_add [of fst x 4 f held'] eff_add [of snd x 7 f held'] by (auto split: if_splits)
  show ?thesis
    using assms(1-3) m(1) [of "\<lambda>i. unat (uMinGuarantee_PerAc r ! i)"] m(2) [of "\<lambda>_. unat (uMinGuarantee_PerLink r)"]
      rsrc_totals [of r held] rsrc_totals [of r' held']
    by (auto simp: rsrc_inv_def rsrc_cfg_def word_less_nat_alt)
qed

lemma rsrc_range:
  assumes "txDataQ_AllocCheckResources r pkt = Some (st, r', pkt')"
  shows "unat (tid pkt) < 8" "unat (hlid pkt) < 7"
    "pkt' = SET_TX_CTRL_FLAG_RSRC_AC (SET_TX_CTRL_FLAG_RSRC_ALLOCATED pkt) (of_nat (WMEQosTagToACTable ! unat (tid pkt)))"
  using assms by (auto simp: txDataQ_AllocCheckResources_def Let_def split: if_splits)

lemma rsrc_alloc_fields:
  assumes "txDataQ_AllocCheckResources r pkt = Some (st, r', pkt')"
  defines "ac \<equiv> WMEQosTagToACTable ! unat (tid pkt)" and "l \<equiv> unat (hlid pkt)"
  shows "uPktInUse_PerAc r' = (uPktInUse_PerAc r)[ac := uPktInUse_PerAc r ! ac + 1]"
    "uPktInUse_PerLink r' = (uPktInUse_PerLink r)[l := uPktInUse_PerLink r ! l + 1]"
    "uEffectiveTotal_Ac r' = (if uPktInUse_PerAc r ! ac + 1 > uMinGuarantee_PerAc r ! ac then uEffectiveTotal_Ac r + 1
       else uEffectiveTotal_Ac r)"
    "uEffectiveTotal_Link r' = (if uPktInUse_PerLink r ! l + 1 > uMinGuarantee_PerLink r then uEffectiveTotal_Link r + 1
       else uEffectiveTotal_Link r)"
    "uMinGuarantee_PerAc r' = uMinGuarantee_PerAc r" "uMinGuarantee_PerLink r' = uMinGuarantee_PerLink r"
    "uMaxTotal r' = uMaxTotal r"
proof -
  have "r' = r\<lparr>uPktInUse_PerAc := (uPktInUse_PerAc r)[ac := uPktInUse_PerAc r ! ac + 1],
      uEffectiveTotal_Ac := (if uPktInUse_PerAc r ! ac + 1 > uMinGuarantee_PerAc r ! ac then uEffectiveTotal_Ac r + 1
         else uEffectiveTotal_Ac r),
      uPktInUse_PerLink := (uPktInUse_PerLink r)[l := uPktInUse_PerLink r ! l + 1],
      uEffectiveTotal_Link := (if uPktInUse_PerLink r ! l + 1 > uMinGuarantee_PerLink r then uEffectiveTotal_Link r + 1
         else uEffectiveTotal_Link r)\<rparr>"
    using assms(1) rsrc_range(1,2) [OF assms(1)] by (simp add: txDataQ_AllocCheckResources_def Let_def ac_def l_def)
  then show "uPktInUse_PerAc r' = (uPktInUse_PerAc r)[ac := uPktInUse_PerAc r ! ac + 1]"
    "uPktInUse_PerLink r' = (uPktInUse_PerLink r)[l := uPktInUse_PerLink r ! l + 1]"
    "uEffectiveTotal_Ac r' = (if uPktInUse_PerAc r ! ac + 1 > uMinGuarantee_PerAc r ! ac then uEffectiveTotal_Ac r + 1
       else uEffectiveTotal_Ac r)"
    "uEffectiveTotal_Link r' = (if uPktInUse_PerLink r ! l + 1 > uMinGuarantee_PerLink r then uEffectiveTotal_Link r + 1
       else uEffectiveTotal_Link r)"
    "uMinGuarantee_PerAc r' = uMinGuarantee_PerAc r" "uMinGuarantee_PerLink r' = uMinGuarantee_PerLink r"
    "uMaxTotal r' = uMaxTotal r" by simp_all
qed

lemma rsrc_class_alloc:
  assumes "txDataQ_AllocCheckResources r pkt = Some (st, r', pkt')" and "rsrc_fresh pkt"
  shows "rsrc_class pkt' = (WMEQosTagToACTable ! unat (tid pkt), unat (hlid pkt))"
    "IS_TX_CTRL_FLAG_RSRC_ALLOCATED pkt'"
  using rsrc_range [OF assms(1)] rsrc_ac_flags [OF assms(2)]
  by (simp_all add: rsrc_class_def) (simp add: SET_TX_CTRL_FLAG_RSRC_AC_def SET_TX_CTRL_FLAG_RSRC_ALLOCATED_def)

lemma rsrc_alloc:
  assumes inv: "rsrc_inv r held" and a: "txDataQ_AllocCheckResources r pkt = Some (st, r', pkt')"
    and f: "rsrc_fresh pkt"
  shows "rsrc_ok r' (add_mset (rsrc_class pkt') held)"
    and "st = TI_OK \<longleftrightarrow> rsrc_inv r' (add_mset (rsrc_class pkt') held)"
    and "st = TI_OK \<or> st = TI_NOK" and "rsrc_cfg r' = rsrc_cfg r"
proof -
  let ?x = "(WMEQosTagToACTable ! unat (tid pkt), unat (hlid pkt))"
  have x: "fst ?x < 4" "snd ?x < 7" using rsrc_range [OF a] by simp_all
  have c: "rsrc_class pkt' = ?x" using rsrc_class_alloc(1) [OF a f] .
  have ok: "rsrc_ok r held" and m: "uMaxTotal r = 160" "uEffectiveTotal_Ac r < 160" "uEffectiveTotal_Link r < 160"
    using inv by (auto simp: rsrc_inv_def)
  have b: "unat (uEffectiveTotal_Ac r) < 2 ^ 32 - 1" "unat (uEffectiveTotal_Link r) < 2 ^ 32 - 1"
    using m by (simp_all add: word_less_nat_alt)
  have p: "pool_ok fst 4 (uPktInUse_PerAc r) (\<lambda>i. uMinGuarantee_PerAc r ! i) (uEffectiveTotal_Ac r) held"
    "pool_ok snd 7 (uPktInUse_PerLink r) (\<lambda>_. uMinGuarantee_PerLink r) (uEffectiveTotal_Link r) held"
    using ok by (simp_all add: rsrc_ok_def)
  show ok': "rsrc_ok r' (add_mset (rsrc_class pkt') held)"
    unfolding rsrc_ok_def c rsrc_alloc_fields [OF a]
    using pool_alloc(1) [where f = fst, OF p(1) x(1) b(1)] pool_alloc(1) [where f = snd, OF p(2) x(2) b(2)] x ok
    by (simp add: rsrc_ok_def)
  show "rsrc_cfg r' = rsrc_cfg r" using rsrc_alloc_fields [OF a] by (simp add: rsrc_cfg_def)
  show "st = TI_OK \<or> st = TI_NOK" using a by (auto simp: txDataQ_AllocCheckResources_def Let_def split: if_splits)
  have "st = TI_OK \<longleftrightarrow> uEffectiveTotal_Ac r' < 160 \<and> uEffectiveTotal_Link r' < 160"
    unfolding rsrc_alloc_fields [OF a] using a m rsrc_range(1,2) [OF a]
    by (auto simp: txDataQ_AllocCheckResources_def Let_def not_less split: if_splits)
  then show "st = TI_OK \<longleftrightarrow> rsrc_inv r' (add_mset (rsrc_class pkt') held)"
    using ok' m(1) rsrc_alloc_fields(7) [OF a] by (auto simp: rsrc_inv_def)
qed

lemma rsrc_free:
  assumes ok: "rsrc_ok r (add_mset (rsrc_class pkt) held)" and a: "IS_TX_CTRL_FLAG_RSRC_ALLOCATED pkt"
  obtains r' where "txDataQ_FreeResources r pkt = Some r'" "rsrc_ok r' held" "rsrc_cfg r' = rsrc_cfg r"
proof -
  have x: "fst (rsrc_class pkt) < 4" "snd (rsrc_class pkt) < 7" using ok by (auto simp: rsrc_ok_def)
  then have h: "unat (hlid pkt) < 7" by (simp add: rsrc_class_def)
  obtain r' where r': "txDataQ_FreeResources r pkt = Some r'"
    using a h by (simp add: txDataQ_FreeResources_def Let_def)
  have p: "pool_ok fst 4 (uPktInUse_PerAc r) (\<lambda>i. uMinGuarantee_PerAc r ! i) (uEffectiveTotal_Ac r) (add_mset (rsrc_class pkt) held)"
    "pool_ok snd 7 (uPktInUse_PerLink r) (\<lambda>_. uMinGuarantee_PerLink r) (uEffectiveTotal_Link r) (add_mset (rsrc_class pkt) held)"
    using ok by (simp_all add: rsrc_ok_def)
  have "rsrc_ok r' held"
    using pool_free [where f = fst, OF p(1) x(1)] pool_free [where f = snd, OF p(2) x(2)] ok r' a h
    by (simp add: rsrc_ok_def txDataQ_FreeResources_def Let_def rsrc_class_def) (auto split: if_splits)
  moreover have "rsrc_cfg r' = rsrc_cfg r"
    using r' a h by (auto simp: rsrc_cfg_def txDataQ_FreeResources_def Let_def)
  ultimately show ?thesis using that r' by blast
qed

lemma rsrc_release:
  assumes "rsrc_inv r (add_mset (rsrc_class pkt) held)" and "IS_TX_CTRL_FLAG_RSRC_ALLOCATED pkt"
  obtains r' where "txDataQ_FreeResources r pkt = Some r'" "rsrc_inv r' held" "rsrc_cfg r' = rsrc_cfg r"
proof -
  have "rsrc_ok r (add_mset (rsrc_class pkt) held)" using assms(1) by (simp add: rsrc_inv_def)
  then obtain r' where "txDataQ_FreeResources r pkt = Some r'" "rsrc_ok r' held" "rsrc_cfg r' = rsrc_cfg r"
    using rsrc_free assms(2) by blast
  then show ?thesis using that rsrc_inv_cong [OF assms(1)] by blast
qed

lemma rsrc_refused:
  assumes inv: "rsrc_inv r held" and a: "txDataQ_AllocCheckResources r pkt = Some (st, r', pkt')" and f: "rsrc_fresh pkt"
  obtains r'' where "txDataQ_FreeResources r' pkt' = Some r''" "rsrc_inv r'' held" "rsrc_cfg r'' = rsrc_cfg r"
proof -
  obtain r'' where "txDataQ_FreeResources r' pkt' = Some r''" "rsrc_ok r'' held" "rsrc_cfg r'' = rsrc_cfg r'"
    using rsrc_free [OF rsrc_alloc(1) [OF inv a f] rsrc_class_alloc(2) [OF a f]] by blast
  then show ?thesis using that rsrc_inv_cong [OF inv, of r'' held] rsrc_alloc(4) [OF inv a f] by simp
qed

lemma fold_add_words: "unat (fold (\<lambda>i t. t + w i) xs t :: u32) = unat t + sum_list (map (\<lambda>i. unat (w i)) xs)"
  if "unat t + sum_list (map (\<lambda>i. unat (w i)) xs) < 2 ^ 32"
  using that
proof (induction xs arbitrary: t)
  case (Cons x xs)
  then have "unat (t + w x) = unat t + unat (w x)" by (simp add: unat_word_ariths)
  then show ?case using Cons by simp
qed simp

lemma rsrc_init:
  assumes "rsrc_cfg_ok minAc minLink"
  shows "rsrc_inv (txDataQ_InitResources TI_DBG r minAc minLink) {#}"
proof -
  have s: "sum_list (map (\<lambda>i. unat (minAc ! i)) [0..<4]) = (\<Sum>i<4. unat (minAc ! i))"
    by (simp add: sum_list_sum_nth atLeast0LessThan)
  have a: "unat (fold (\<lambda>i t. t + minAc ! i) [0..<4] 0) = (\<Sum>i<4. unat (minAc ! i))"
    by (subst fold_add_words) (use assms s in \<open>simp_all add: rsrc_cfg_ok_def\<close>)
  have l: "unat (fold (\<lambda>i t. t + minLink) [0..<7] 0) = 7 * unat minLink"
    by (subst fold_add_words) (use assms in \<open>simp_all add: rsrc_cfg_ok_def sum_list_triv\<close>)
  have m: "(\<Sum>i<4. unat (map ((!) minAc) [0..<4] ! i)) = (\<Sum>i<4. unat (minAc ! i))" by (rule sum.cong) simp_all
  let ?r = "txDataQ_InitResources TI_DBG r minAc minLink"
  have "rsrc_ok ?r {#}"
    unfolding rsrc_ok_def txDataQ_InitResources_def Let_def
    using pool_init [of "fold (\<lambda>i t. t + minAc ! i) [0..<4] 0" "\<lambda>i. map ((!) minAc) [0..<4] ! i" 4 fst]
      pool_init [of "fold (\<lambda>i t. t + minLink) [0..<7] 0" "\<lambda>_. minLink" 7 snd] a l m by simp
  moreover have "uMaxTotal ?r = 160" "unat (uEffectiveTotal_Ac ?r) < 160" "unat (uEffectiveTotal_Link ?r) < 160"
    unfolding txDataQ_InitResources_def Let_def using a l assms by (simp_all add: rsrc_cfg_ok_def)
  ultimately show ?thesis by (simp add: rsrc_inv_def word_less_nat_alt)
qed

section \<open>Properties\<close>

lemma rsrc_alloc_above:
  assumes inv: "rsrc_inv r held" and a: "txDataQ_AllocCheckResources r pkt = Some (st, r', pkt')"
  defines "ac \<equiv> WMEQosTagToACTable ! unat (tid pkt)" and "l \<equiv> unat (hlid pkt)"
  shows "uPktInUse_PerAc r ! ac + 1 > uMinGuarantee_PerAc r ! ac \<longleftrightarrow> unat (uMinGuarantee_PerAc r ! ac) \<le> cnt fst held ac"
    "uPktInUse_PerLink r ! l + 1 > uMinGuarantee_PerLink r \<longleftrightarrow> unat (uMinGuarantee_PerLink r) \<le> cnt snd held l"
    "uMinGuarantee_PerAc r ! ac \<le> uPktInUse_PerAc r ! ac \<longleftrightarrow> unat (uMinGuarantee_PerAc r ! ac) \<le> cnt fst held ac"
    "uMinGuarantee_PerLink r \<le> uPktInUse_PerLink r ! l \<longleftrightarrow> unat (uMinGuarantee_PerLink r) \<le> cnt snd held l"
proof -
  have x: "ac < 4" "l < 7" using rsrc_range [OF a] by (simp_all add: ac_def l_def)
  have p: "pool_ok fst 4 (uPktInUse_PerAc r) (\<lambda>i. uMinGuarantee_PerAc r ! i) (uEffectiveTotal_Ac r) held"
    "pool_ok snd 7 (uPktInUse_PerLink r) (\<lambda>_. uMinGuarantee_PerLink r) (uEffectiveTotal_Link r) held"
    and m: "uEffectiveTotal_Ac r < 160" "uEffectiveTotal_Link r < 160"
    using inv by (auto simp: rsrc_inv_def rsrc_ok_def)
  have b: "unat (uEffectiveTotal_Ac r) < 2 ^ 32 - 1" "unat (uEffectiveTotal_Link r) < 2 ^ 32 - 1"
    using m by (simp_all add: word_less_nat_alt)
  show "uPktInUse_PerAc r ! ac + 1 > uMinGuarantee_PerAc r ! ac \<longleftrightarrow> unat (uMinGuarantee_PerAc r ! ac) \<le> cnt fst held ac"
    "uPktInUse_PerLink r ! l + 1 > uMinGuarantee_PerLink r \<longleftrightarrow> unat (uMinGuarantee_PerLink r) \<le> cnt snd held l"
    using pool_alloc(2) [where f = fst and x = "(ac, l)", OF p(1) _ b(1)]
      pool_alloc(2) [where f = snd and x = "(ac, l)", OF p(2) _ b(2)] x by simp_all
  show "uMinGuarantee_PerAc r ! ac \<le> uPktInUse_PerAc r ! ac \<longleftrightarrow> unat (uMinGuarantee_PerAc r ! ac) \<le> cnt fst held ac"
    "uMinGuarantee_PerLink r \<le> uPktInUse_PerLink r ! l \<longleftrightarrow> unat (uMinGuarantee_PerLink r) \<le> cnt snd held l"
    using p x by (simp_all add: pool_ok_def word_le_nat_alt)
qed

lemma rsrc_held_bound:
  assumes "rsrc_inv r held"
  shows "size held < 160"
proof -
  have "size held \<le> eff fst 4 (\<lambda>i. unat (uMinGuarantee_PerAc r ! i)) held"
    using assms by (intro size_le_eff) (auto simp: rsrc_inv_def rsrc_ok_def)
  also have "\<dots> < 160" using assms rsrc_totals(1) [of r held] by (auto simp: rsrc_inv_def word_less_nat_alt)
  finally show ?thesis .
qed

definition rsrc_ex :: TDataResources where
  "rsrc_ex = txDataQ_InitResources True \<lparr>uPktInUse_PerAc = [], uMinGuarantee_PerAc = [], uEffectiveTotal_Ac = 0,
     uEffectiveTotal_Ac_Min = 0, uPktInUse_PerLink = [], uMinGuarantee_PerLink = 0, uEffectiveTotal_Link = 0,
     uEffectiveTotal_Link_Min = 0, uMaxTotal = 0\<rparr> [10, 10, 10, 10] 5"

definition rsrc_ex_pkt :: TTxCtrlBlk where
  "rsrc_ex_pkt = \<lparr>uPktType = TX_PKT_TYPE_ETHER, uFlags = 0, hlid = 1, tid = 6, aBuf = [], aLen = []\<rparr>"

lemma rsrc_ex_ok: "rsrc_inv rsrc_ex {#}"
  unfolding rsrc_ex_def by (rule rsrc_init) code_simp

definition rsrc_ex_alloc :: "TI_STATUS \<times> TDataResources \<times> TTxCtrlBlk" where
  "rsrc_ex_alloc = the (txDataQ_AllocCheckResources rsrc_ex rsrc_ex_pkt)"

lemma rsrc_ex_eval: "txDataQ_AllocCheckResources rsrc_ex rsrc_ex_pkt = Some rsrc_ex_alloc" "fst rsrc_ex_alloc = TI_OK"
  by (simp add: rsrc_ex_alloc_def txDataQ_AllocCheckResources_def Let_def rsrc_ex_pkt_def) code_simp

text \<open>
  C35: the guarantees of the transmit resources hold.  Whenever the counters are right, a packet is
  refused exactly if it exceeds the guarantee of its category while the shared part is used up, or
  exceeds that of its link while the shared part is used up; so a packet within both guarantees is
  always admitted, however many packets other categories and links hold.  The packets that hold
  resources are always fewer than the control blocks.
\<close>

theorem rsrc_guarantee:
  assumes inv: "rsrc_inv r held" and a: "txDataQ_AllocCheckResources r pkt = Some (st, r', pkt')"
  shows "(st = TI_OK \<longleftrightarrow>
      (cnt fst held (WMEQosTagToACTable ! unat (tid pkt)) < unat (uMinGuarantee_PerAc r ! (WMEQosTagToACTable ! unat (tid pkt))) \<or>
         uEffectiveTotal_Ac r + 1 < CTRL_BLK_ENTRIES_NUM) \<and>
      (cnt snd held (unat (hlid pkt)) < unat (uMinGuarantee_PerLink r) \<or> uEffectiveTotal_Link r + 1 < CTRL_BLK_ENTRIES_NUM)) \<and>
    size held < unat CTRL_BLK_ENTRIES_NUM"
proof
  have m: "uMaxTotal r = 160" "uEffectiveTotal_Ac r < 160" "uEffectiveTotal_Link r < 160"
    using inv by (auto simp: rsrc_inv_def)
  show "st = TI_OK \<longleftrightarrow>
      (cnt fst held (WMEQosTagToACTable ! unat (tid pkt)) < unat (uMinGuarantee_PerAc r ! (WMEQosTagToACTable ! unat (tid pkt))) \<or>
         uEffectiveTotal_Ac r + 1 < 160) \<and>
      (cnt snd held (unat (hlid pkt)) < unat (uMinGuarantee_PerLink r) \<or> uEffectiveTotal_Link r + 1 < 160)"
    using a m rsrc_range(1,2) [OF a] rsrc_alloc_above [OF inv a]
    by (auto simp: txDataQ_AllocCheckResources_def Let_def not_less not_le split: if_splits)
  show "size held < unat CTRL_BLK_ENTRIES_NUM" using rsrc_held_bound [OF inv] by simp
qed

theorem rsrc_guarantee_witness:
  "fst rsrc_ex_alloc = TI_OK \<longleftrightarrow>
     (cnt fst ({#} :: (nat \<times> nat) multiset) 3 < unat (uMinGuarantee_PerAc rsrc_ex ! 3) \<or> uEffectiveTotal_Ac rsrc_ex + 1 < CTRL_BLK_ENTRIES_NUM) \<and>
     (cnt snd ({#} :: (nat \<times> nat) multiset) 1 < unat (uMinGuarantee_PerLink rsrc_ex) \<or> uEffectiveTotal_Link rsrc_ex + 1 < CTRL_BLK_ENTRIES_NUM)"
  using rsrc_guarantee [OF rsrc_ex_ok, of rsrc_ex_pkt "fst rsrc_ex_alloc" "fst (snd rsrc_ex_alloc)" "snd (snd rsrc_ex_alloc)"]
    rsrc_ex_eval(1) by (simp add: rsrc_ex_pkt_def WMEQosTagToACTable_def)

text \<open>
  C36: freeing a packet gives back exactly what admitting it took.  Whether the packet was admitted or
  refused, the resource counters after its release are those before its admission, so that a refused
  packet, which the caller frees, leaves no trace.
\<close>

theorem rsrc_alloc_free:
  assumes inv: "rsrc_inv r held" and f: "rsrc_fresh pkt"
    and a: "txDataQ_AllocCheckResources r pkt = Some (st, r', pkt')"
  shows "txDataQ_FreeResources r' pkt' = Some r"
proof -
  let ?ac = "WMEQosTagToACTable ! unat (tid pkt)" and ?l = "unat (hlid pkt)"
  have x: "?ac < 4" "?l < 7" using rsrc_range [OF a] by simp_all
  have l: "length (uPktInUse_PerAc r) = 4" "length (uPktInUse_PerLink r) = 7"
    using inv by (auto simp: rsrc_inv_def rsrc_ok_def pool_ok_def)
  have c: "unat (GET_TX_CTRL_FLAG_RSRC_AC pkt') = ?ac" "unat (hlid pkt') = ?l" "IS_TX_CTRL_FLAG_RSRC_ALLOCATED pkt'"
    using rsrc_class_alloc [OF a f] by (simp_all add: rsrc_class_def)
  obtain r'' where r'': "txDataQ_FreeResources r' pkt' = Some r''"
    using c x by (simp add: txDataQ_FreeResources_def Let_def)
  have "r'' = r"
    using r'' c x l rsrc_alloc_above [OF inv a] a rsrc_range(1,2) [OF a]
    by (cases r) (auto simp: txDataQ_FreeResources_def txDataQ_AllocCheckResources_def Let_def)
  then show ?thesis using r'' by simp
qed

theorem rsrc_alloc_free_witness:
  "txDataQ_FreeResources (fst (snd rsrc_ex_alloc)) (snd (snd rsrc_ex_alloc)) = Some rsrc_ex"
  using rsrc_alloc_free [OF rsrc_ex_ok, of rsrc_ex_pkt "fst rsrc_ex_alloc" "fst (snd rsrc_ex_alloc)" "snd (snd rsrc_ex_alloc)"]
    rsrc_ex_eval(1) by (simp add: rsrc_fresh_def rsrc_ex_pkt_def)

end
