(* ===== verification/TxPath.thy ===== *)
theory TxPath
  imports QueueFamily TxDataClsfr TxRsrc
begin

text \<open>
  The transmit path of the driver: the data queues and the management queues of the links
  (stad/src/Data_link/txDataQueue.c, txMgmtQueue.c) and the transmit control that both hand their
  packets to (txCtrl.c).  This theory has the state, the transmit control, and the data queues; TxMgmt
  has the management queues and the operations that involve both.

  The three modules call one another and queue the same control blocks by the same node header, so that
  they share one state; all queues form one family.  The hardware queues and the firmware transfer are
  parameters that work on a state of their own (\<open>twd\<close>).  Two fields record what happened and are not
  read by any operation: \<open>inFw\<close>, the packets handed to the firmware transfer and not completed yet, and
  \<open>log\<close>, the calls of other modules.  An operation returns \<open>None\<close> where the code indexes beyond an array or
  a buffer or follows a null pointer, or does not return.
\<close>

section \<open>Types\<close>

abbreviation (input) MGMT_QUEUES_DEPTH :: "u32" where "MGMT_QUEUES_DEPTH \<equiv> 4"
abbreviation (input) DATA_QUEUE_DEPTH_BE :: "u32" where "DATA_QUEUE_DEPTH_BE \<equiv> 60"
abbreviation (input) DATA_QUEUE_DEPTH_BK :: "u32" where "DATA_QUEUE_DEPTH_BK \<equiv> 10"
abbreviation (input) DATA_QUEUE_DEPTH_VI :: "u32" where "DATA_QUEUE_DEPTH_VI \<equiv> 32"
abbreviation (input) DATA_QUEUE_DEPTH_VO :: "u32" where "DATA_QUEUE_DEPTH_VO \<equiv> 10"
abbreviation (input) NUM_OF_MGMT_QUEUES :: "nat" where "NUM_OF_MGMT_QUEUES \<equiv> 2"
abbreviation (input) QUEUE_TYPE_MGMT :: "nat" where "QUEUE_TYPE_MGMT \<equiv> 0"
abbreviation (input) QUEUE_TYPE_EAPOL :: "nat" where "QUEUE_TYPE_EAPOL \<equiv> 1"
abbreviation (input) MGMT_QUEUES_TID :: "nat" where "MGMT_QUEUES_TID \<equiv> 7"
abbreviation (input) off_tTxnQNode :: "u32" where "off_tTxnQNode \<equiv> 0"

datatype qid = MgmtQ nat nat | DataQ nat nat

datatype EWlanLinkType = WLANLINK_TYPE_SPECIFIC | WLANLINK_TYPE_BRCST | WLANLINK_TYPE_GLOBAL

datatype ESmEvent =
  SM_EVENT_CLOSE | SM_EVENT_MGMT | SM_EVENT_EAPOL | SM_EVENT_OPEN | SM_EVENT_QUEUES_EMPTY | SM_EVENT_QUEUES_NOT_EMPTY

datatype ESmState = SM_STATE_CLOSE | SM_STATE_MGMT | SM_STATE_EAPOL | SM_STATE_OPEN_MGMT | SM_STATE_OPEN_DATA

datatype ESmAction =
  SM_ACTION_NULL | SM_ACTION_ENABLE_DATA | SM_ACTION_ENABLE_MGMT | SM_ACTION_RUN_SCHEDULER | SM_ACTION_STOP_ALL

datatype ETxConnState = TX_CONN_STATE_CLOSE | TX_CONN_STATE_MGMT | TX_CONN_STATE_EAPOL | TX_CONN_STATE_OPEN

datatype EStatusXmit = STATUS_XMIT_SUCCESS | STATUS_XMIT_BUSY | STATUS_XMIT_ERROR

datatype ETrafficAdmState = AC_NOT_ADMITTED | AC_WAIT_ADMISSION | AC_ADMITTED

datatype EAdmissionState = ADMISSION_NOT_REQUIRED | ADMISSION_REQUIRED

text \<open>The fields that the link objects of both queue modules have, and the two link objects.\<close>

record TLinkQ =
  eType :: EWlanLinkType
  bBusy :: bool
  bEnabled :: bool
  bEncrypt :: bool

record TTxDataQueueDebugCnt =
  uEnqueuePacket :: u32
  uDequeuePacket :: u32
  uRequeuePacket :: u32
  uXmittedPacket :: u32
  uDroppedPacket :: u32

record TDataLinkQ = TLinkQ +
  aQueueCounters :: "TTxDataQueueDebugCnt list"
  aNetStackQueueStopped :: "bool list"
  cEncryptSize :: u8

record TDbgCount =
  aEnqueuePackets :: "u32 list"
  aDequeuePackets :: "u32 list"
  aRequeuePackets :: "u32 list"
  aDroppedPackets :: "u32 list"
  aXmittedPackets :: "u32 list"
  uNoResources :: u32

record TMgmtLinkQ = TLinkQ +
  eState :: ESmState
  eTxConnState :: ETxConnState
  bSendEvent_NotEmpty :: bool
  aQenabled :: "bool list"
  tDbgCounters :: TDbgCount

record TLinkMac =
  uValid :: bool
  tMacAddr :: "u8 list"

record TTxDataQ =
  tClsfrParams :: TClsfrParams
  bDataPortEnable :: bool
  uNumQueues :: u32
  aQueueMaxSize :: "u32 list"
  aTxSendPaceThresh :: "u32 list"
  uNextQueId :: u32
  aQueueBusy :: "bool list"
  bStopNetStackTx :: bool
  aDataLinkQ :: "TDataLinkQ list"
  uBcastHlid :: u32
  uNextHlid :: u32
  aLinkMac :: "TLinkMac list"
  tDataRsrc :: TDataResources
  uClsfrMismatchCount :: u32
  uTxSendPaceTimeoutsCount :: u32
  uLinkNotFoundCount :: u32
  uNoResourcesCount :: u32

record TTxMgmtQ =
  bMgmtPortEnable :: bool
  aMgmtLinkQ :: "TMgmtLinkQ list"
  aMgmtAcBusy :: bool
  uGlobalHlid :: u32
  uLastHlid :: u32

record txCtrl_t =
  highestAdmittedAc :: "nat list"
  admittedAcToTidMap :: "u32 list"
  busyAcBitmap :: u32
  busyLinkBitmap :: u32
  busyTidBitmap :: u32
  admissionState :: "ETrafficAdmState list"
  admissionRequired :: "EAdmissionState list"
  genericEthertype :: u16

text \<open>
  What other modules see.  A data or management packet handed to the firmware transfer is recorded with
  its link and type and with the state of the link at that moment.
\<close>

datatype ctx_client = TX_DATA | TX_MGMT

datatype tx_event =
    SentData ptr nat u8 ESmState
  | SentMgmt ptr nat u8 ESmState
  | Freed ptr TI_STATUS
  | EndOfBurst
  | RequestSchedule ctx_client
  | StopNetStack
  | ResumeNetStack
  | StartPaceTimer
  | StopPaceTimer

record 'w TxState =
  links :: qheap
  queues :: "qid fam"
  pkts :: "ptr \<Rightarrow> TTxCtrlBlk"
  dataQ :: TTxDataQ
  mgmtQ :: TTxMgmtQ
  txCtrl :: txCtrl_t
  twd :: 'w
  inFw :: "ptr list"
  log :: "tx_event list"

text \<open>\<^verbatim>\<open>TWD_txHwQueue_AllocResources\<close> and \<^verbatim>\<open>TWD_txXfer_SendPacket\<close>.\<close>

record 'w twd_ops =
  AllocResources :: "TTxCtrlBlk \<Rightarrow> 'w \<Rightarrow> ETxHwQueStatus \<times> 'w"
  SendPacket :: "TTxCtrlBlk \<Rightarrow> 'w \<Rightarrow> ETxnStatus \<times> 'w"

section \<open>Access to the state\<close>

definition dlink :: "'w TxState \<Rightarrow> nat \<Rightarrow> TDataLinkQ" where
  "dlink s h = aDataLinkQ (dataQ s) ! h"

definition mlink :: "'w TxState \<Rightarrow> nat \<Rightarrow> TMgmtLinkQ" where
  "mlink s h = aMgmtLinkQ (mgmtQ s) ! h"

definition upd_data :: "(TTxDataQ \<Rightarrow> TTxDataQ) \<Rightarrow> 'w TxState \<Rightarrow> 'w TxState" where
  "upd_data f s = s\<lparr>dataQ := f (dataQ s)\<rparr>"

definition upd_mgmt :: "(TTxMgmtQ \<Rightarrow> TTxMgmtQ) \<Rightarrow> 'w TxState \<Rightarrow> 'w TxState" where
  "upd_mgmt f s = s\<lparr>mgmtQ := f (mgmtQ s)\<rparr>"

definition upd_ctrl :: "(txCtrl_t \<Rightarrow> txCtrl_t) \<Rightarrow> 'w TxState \<Rightarrow> 'w TxState" where
  "upd_ctrl f s = s\<lparr>txCtrl := f (txCtrl s)\<rparr>"

definition upd_dlink :: "nat \<Rightarrow> (TDataLinkQ \<Rightarrow> TDataLinkQ) \<Rightarrow> 'w TxState \<Rightarrow> 'w TxState" where
  "upd_dlink h f = upd_data (\<lambda>d. d\<lparr>aDataLinkQ := (aDataLinkQ d)[h := f (aDataLinkQ d ! h)]\<rparr>)"

definition upd_mlink :: "nat \<Rightarrow> (TMgmtLinkQ \<Rightarrow> TMgmtLinkQ) \<Rightarrow> 'w TxState \<Rightarrow> 'w TxState" where
  "upd_mlink h f = upd_mgmt (\<lambda>m. m\<lparr>aMgmtLinkQ := (aMgmtLinkQ m)[h := f (aMgmtLinkQ m ! h)]\<rparr>)"

definition upd_pkt :: "ptr \<Rightarrow> (TTxCtrlBlk \<Rightarrow> TTxCtrlBlk) \<Rightarrow> 'w TxState \<Rightarrow> 'w TxState" where
  "upd_pkt p f s = s\<lparr>pkts := (pkts s)(p := f (pkts s p))\<rparr>"

definition emit :: "tx_event \<Rightarrow> 'w TxState \<Rightarrow> 'w TxState" where
  "emit e s = s\<lparr>log := log s @ [e]\<rparr>"

definition enqueue :: "bool \<Rightarrow> qid \<Rightarrow> ptr \<Rightarrow> 'w TxState \<Rightarrow> (TI_STATUS \<times> 'w TxState) option" where
  "enqueue TI_DBG k x s =
     map_option (\<lambda>(st, h', qs'). (st, s\<lparr>links := h', queues := qs'\<rparr>)) (fam_Enqueue TI_DBG (links s) (queues s) k x)"

definition requeue :: "bool \<Rightarrow> qid \<Rightarrow> ptr \<Rightarrow> 'w TxState \<Rightarrow> (TI_STATUS \<times> 'w TxState) option" where
  "requeue TI_DBG k x s =
     map_option (\<lambda>(st, h', qs'). (st, s\<lparr>links := h', queues := qs'\<rparr>)) (fam_Requeue TI_DBG (links s) (queues s) k x)"

definition dequeue :: "bool \<Rightarrow> qid \<Rightarrow> 'w TxState \<Rightarrow> (ptr \<times> 'w TxState) option" where
  "dequeue TI_DBG k s =
     map_option (\<lambda>(x, h', qs'). (x, s\<lparr>links := h', queues := qs'\<rparr>)) (fam_Dequeue TI_DBG (links s) (queues s) k)"

section \<open>Busy indications\<close>

text \<open>The queue of a TID, and the TID that stands for an access category.\<close>

definition aTidToQueueTable :: "nat list" where
  "aTidToQueueTable = [0, 1, 1, 0, 2, 2, 3, 3]"

definition WMEQosAcToTid :: "u8 list" where
  "WMEQosAcToTid = [0, 2, 4, 6]"

definition txDataQ_StopLink :: "nat \<Rightarrow> 'w TxState \<Rightarrow> 'w TxState" where
  "txDataQ_StopLink uHlid = upd_dlink uHlid (\<lambda>l. l\<lparr>bBusy := True\<rparr>)"

definition txDataQ_UpdateQueuesBusyState :: "u32 \<Rightarrow> 'w TxState \<Rightarrow> 'w TxState" where
  "txDataQ_UpdateQueuesBusyState uTidBitMap =
     upd_data (\<lambda>d. d\<lparr>aQueueBusy :=
       fold (\<lambda>uTidIdx b. b[aTidToQueueTable ! uTidIdx := bit uTidBitMap uTidIdx]) [0..<MAX_NUM_OF_802_1d_TAGS] (aQueueBusy d)\<rparr>)"

definition txDataQ_StopQueue :: "u32 \<Rightarrow> 'w TxState \<Rightarrow> 'w TxState" where
  "txDataQ_StopQueue uTidBitMap = txDataQ_UpdateQueuesBusyState uTidBitMap"

definition txDataQ_UpdateLinksBusyState :: "u32 \<Rightarrow> 'w TxState \<Rightarrow> 'w TxState" where
  "txDataQ_UpdateLinksBusyState uLinkBitMap =
     fold (\<lambda>uHlid. upd_dlink uHlid (\<lambda>l. l\<lparr>bBusy := bit uLinkBitMap uHlid\<rparr>)) [0..<WLANLINKS_MAX_LINKS]"

definition txMgmtQ_StopLink :: "nat \<Rightarrow> 'w TxState \<Rightarrow> 'w TxState" where
  "txMgmtQ_StopLink uHlid = upd_mlink uHlid (\<lambda>l. l\<lparr>bBusy := True\<rparr>)"

definition updateQueuesBusyMap :: "u32 \<Rightarrow> 'w TxState \<Rightarrow> 'w TxState" where
  "updateQueuesBusyMap uTidBitMap = upd_mgmt (\<lambda>m. m\<lparr>aMgmtAcBusy := bit uTidBitMap MGMT_QUEUES_TID\<rparr>)"

definition txMgmtQ_StopQueue :: "u32 \<Rightarrow> 'w TxState \<Rightarrow> 'w TxState" where
  "txMgmtQ_StopQueue uTidBitMap = updateQueuesBusyMap uTidBitMap"

definition updateLinksBusyMap :: "u32 \<Rightarrow> 'w TxState \<Rightarrow> 'w TxState" where
  "updateLinksBusyMap uLinkBitMap =
     fold (\<lambda>uHlid. upd_mlink uHlid (\<lambda>l. l\<lparr>bBusy := bit uLinkBitMap uHlid\<rparr>)) [0..<WLANLINKS_MAX_LINKS]"

section \<open>The transmit control\<close>

text \<open>
  Freeing a packet: its buffer and its control block go back to their owners, its resources to the
  tables.
\<close>

definition txCtrl_FreePacket :: "ptr \<Rightarrow> TI_STATUS \<Rightarrow> 'w TxState \<Rightarrow> 'w TxState option" where
  "txCtrl_FreePacket p eStatus s =
     map_option (\<lambda>r. emit (Freed p eStatus) (upd_data (\<lambda>d. d\<lparr>tDataRsrc := r\<rparr>) s))
       (txDataQ_FreeResources (tDataRsrc (dataQ s)) (pkts s p))"

definition SELECT_AC_FOR_TID :: "txCtrl_t \<Rightarrow> TTxCtrlBlk \<Rightarrow> nat \<times> TTxCtrlBlk" where
  "SELECT_AC_FOR_TID c pkt =
     (let inputAc = WMEQosTagToACTable ! unat (tid pkt); ac = highestAdmittedAc c ! inputAc
      in (ac, if ac \<noteq> inputAc then pkt\<lparr>tid := WMEQosAcToTid ! ac\<rparr> else pkt))"

text \<open>
  What building the header and the descriptor does to the flags (\<^verbatim>\<open>txCtrl_BuildDataPkt\<close>,
  \<^verbatim>\<open>txCtrl_BuildMgmtPkt\<close>).  The header itself is not represented.
\<close>

definition build_data_flags :: "TTxCtrlBlk \<Rightarrow> TTxCtrlBlk option" where
  "build_data_flags pkt =
     map_option (\<lambda>dst.
       let f1 = (if MAC_MULTICAST dst
                 then uFlags pkt OR TX_CTRL_FLAG_MULTICAST OR (if MAC_BROADCAST dst then TX_CTRL_FLAG_BROADCAST else 0)
                 else uFlags pkt)
       in pkt\<lparr>uFlags := f1 OR TX_CTRL_FLAG_SENT_TO_FW\<rparr>) (eth_dst pkt)"

definition build_mgmt_flags :: "TTxCtrlBlk \<Rightarrow> TTxCtrlBlk option" where
  "build_mgmt_flags pkt =
     (if uPktType pkt = TX_PKT_TYPE_EAPOL then build_data_flags pkt
      else Some (pkt\<lparr>uFlags := uFlags pkt OR TX_CTRL_FLAG_SENT_TO_FW\<rparr>))"

text \<open>
  \<^verbatim>\<open>txCtrl_XmitData\<close> and \<^verbatim>\<open>txCtrl_XmitMgmt\<close> differ in the queue module they stop and in the header they
  build.
\<close>

definition txCtrl_Xmit ::
  "(ptr \<Rightarrow> nat \<Rightarrow> u8 \<Rightarrow> ESmState \<Rightarrow> tx_event) \<Rightarrow> (nat \<Rightarrow> 'w TxState \<Rightarrow> 'w TxState) \<Rightarrow> (u32 \<Rightarrow> 'w TxState \<Rightarrow> 'w TxState) \<Rightarrow> (TTxCtrlBlk \<Rightarrow> TTxCtrlBlk option) \<Rightarrow>
   'w twd_ops \<Rightarrow> ptr \<Rightarrow> 'w TxState \<Rightarrow> (EStatusXmit \<times> 'w TxState) option" where
  "txCtrl_Xmit sentEvent stopLink stopQueue build ops p s =
     (if MAX_NUM_OF_802_1d_TAGS \<le> unat (tid (pkts s p)) \<or> WLANLINKS_MAX_LINKS \<le> unat (hlid (pkts s p)) then None
      else
       (let (uAc, pkt) = SELECT_AC_FOR_TID (txCtrl s) (pkts s p);
            uHlid = unat (hlid pkt);
            (eHwQueStatus, w) = AllocResources ops pkt (twd s);
            s1 = (upd_pkt p (\<lambda>_. pkt) s)\<lparr>twd := w\<rparr>;
            s2 = (if eHwQueStatus AND TX_HW_LINK_STATUS_STOP_NEXT \<noteq> 0
                  then stopLink uHlid (upd_ctrl (\<lambda>c. c\<lparr>busyLinkBitmap := busyLinkBitmap c OR push_bit uHlid 1\<rparr>) s1)
                  else s1)
        in if eHwQueStatus AND TX_HW_LINK_STATUS_STOP_NEXT = 0 \<and> eHwQueStatus AND TX_HW_LINK_STATUS_STOP_CURRENT \<noteq> 0
           then Some (STATUS_XMIT_BUSY, stopLink uHlid s1)
           else if eHwQueStatus AND TX_HW_QUE_STATUS_STOP_NEXT = 0 \<and> eHwQueStatus AND TX_HW_QUE_STATUS_STOP_CURRENT \<noteq> 0
           then Some (STATUS_XMIT_BUSY, stopQueue (admittedAcToTidMap (txCtrl s2) ! uAc) s2)
           else
            (let s3 = (if eHwQueStatus AND TX_HW_QUE_STATUS_STOP_NEXT \<noteq> 0
                       then stopQueue (admittedAcToTidMap (txCtrl s2) ! uAc)
                              (upd_ctrl (\<lambda>c. c\<lparr>busyAcBitmap := busyAcBitmap c OR push_bit uAc 1\<rparr>) s2)
                       else s2)
             in case build (pkts s3 p) of
                  None \<Rightarrow> None
                | Some pkt' \<Rightarrow>
                   (let (eStatus, w') = SendPacket ops pkt' (twd s3);
                        s4 = (upd_pkt p (\<lambda>_. pkt') s3)\<lparr>twd := w'\<rparr>
                    in if eStatus = TXN_STATUS_ERROR
                       then map_option (Pair STATUS_XMIT_ERROR) (txCtrl_FreePacket p TI_NOK s4)
                       else Some (STATUS_XMIT_SUCCESS,
                              emit (sentEvent p uHlid (uPktType pkt') (eState (mlink s4 uHlid)))
                                (s4\<lparr>inFw := inFw s4 @ [p]\<rparr>))))))"

definition txCtrl_XmitData :: "'w twd_ops \<Rightarrow> ptr \<Rightarrow> 'w TxState \<Rightarrow> (EStatusXmit \<times> 'w TxState) option" where
  "txCtrl_XmitData = txCtrl_Xmit SentData txDataQ_StopLink txDataQ_StopQueue build_data_flags"

definition txCtrl_XmitMgmt :: "'w twd_ops \<Rightarrow> ptr \<Rightarrow> 'w TxState \<Rightarrow> (EStatusXmit \<times> 'w TxState) option" where
  "txCtrl_XmitMgmt = txCtrl_Xmit SentMgmt txMgmtQ_StopLink txMgmtQ_StopQueue build_mgmt_flags"

subsection \<open>Admission of the access categories\<close>

definition priorityOrderedAc :: "nat list" where
  "priorityOrderedAc = [1, 0, 2, 3]"

text \<open>The search downward from a category that is not admitted, best effort if it fails.\<close>

fun find_output_ac :: "txCtrl_t \<Rightarrow> nat list \<Rightarrow> nat" where
  "find_output_ac c [] = 0"
| "find_output_ac c (outputAc # acs) =
     (if admissionRequired c ! outputAc = ADMISSION_NOT_REQUIRED then outputAc else find_output_ac c acs)"

definition txCtrl_UpdateHighestAdmittedAcTable :: "txCtrl_t \<Rightarrow> txCtrl_t" where
  "txCtrl_UpdateHighestAdmittedAcTable c =
     c\<lparr>highestAdmittedAc :=
       fold (\<lambda>inputIdx t.
         let inputAc = priorityOrderedAc ! inputIdx
         in t[inputAc := (if admissionState c ! inputAc = AC_ADMITTED then inputAc
                          else find_output_ac c (rev (take (inputIdx + 1) priorityOrderedAc)))])
         [0..<MAX_NUM_OF_AC] (highestAdmittedAc c)\<rparr>"

definition txCtrl_UpdateAcToTidMapping :: "txCtrl_t \<Rightarrow> txCtrl_t" where
  "txCtrl_UpdateAcToTidMapping c =
     c\<lparr>admittedAcToTidMap :=
       fold (\<lambda>i m. let admittedAc = highestAdmittedAc c ! (WMEQosTagToACTable ! i)
                   in m[admittedAc := m ! admittedAc OR push_bit i 1])
         [0..<MAX_NUM_OF_802_1d_TAGS] (replicate MAX_NUM_OF_AC 0)\<rparr>"

text \<open>The TIDs of the busy categories.  A bit beyond the last category makes the code read beyond the table.\<close>

definition busy_tids :: "txCtrl_t \<Rightarrow> u32 \<Rightarrow> u32 option" where
  "busy_tids c busyAc =
     (if busyAc \<ge> 16 then None
      else Some (fold (\<lambda>ac t. if bit busyAc ac then t OR admittedAcToTidMap c ! ac else t) [0..<MAX_NUM_OF_AC] 0))"

section \<open>The data queues\<close>

subsection \<open>The scheduler\<close>

text \<open>
  One queue of one link: a busy queue is skipped; a packet is taken from the head and transmitted, and
  put back if the hardware is busy.  The result tells whether a packet was sent.
\<close>

definition count_data :: "bool \<Rightarrow> nat \<Rightarrow> nat \<Rightarrow> (TTxDataQueueDebugCnt \<Rightarrow> TTxDataQueueDebugCnt) \<Rightarrow> 'w TxState \<Rightarrow> 'w TxState" where
  "count_data TI_DBG uHlid uQueId f =
     (if TI_DBG then upd_dlink uHlid (\<lambda>l. l\<lparr>aQueueCounters := (aQueueCounters l)[uQueId := f (aQueueCounters l ! uQueId)]\<rparr>)
      else id)"

definition resume_net_stack :: "nat \<Rightarrow> nat \<Rightarrow> 'w TxState \<Rightarrow> 'w TxState" where
  "resume_net_stack uHlid uQueId s =
     (if bStopNetStackTx (dataQ s) \<and> aNetStackQueueStopped (dlink s uHlid) ! uQueId
      then emit ResumeNetStack
             (upd_dlink uHlid (\<lambda>l. l\<lparr>aNetStackQueueStopped := (aNetStackQueueStopped l)[uQueId := False]\<rparr>) s)
      else s)"

definition requeue_data :: "bool \<Rightarrow> nat \<Rightarrow> nat \<Rightarrow> ptr \<Rightarrow> 'w TxState \<Rightarrow> 'w TxState option" where
  "requeue_data TI_DBG uHlid uQueId p s =
     (case requeue TI_DBG (DataQ uHlid uQueId) p s of
        None \<Rightarrow> None
      | Some (eQueStatus, s1) \<Rightarrow>
         map_option (count_data TI_DBG uHlid uQueId (\<lambda>c. c\<lparr>uRequeuePacket := uRequeuePacket c + 1\<rparr>))
           (if eQueStatus \<noteq> TI_OK
            then map_option (count_data TI_DBG uHlid uQueId (\<lambda>c. c\<lparr>uDroppedPacket := uDroppedPacket c + 1\<rparr>))
                   (txCtrl_FreePacket p TI_NOK s1)
            else Some s1))"

definition serve_data :: "bool \<Rightarrow> 'w twd_ops \<Rightarrow> nat \<Rightarrow> nat \<Rightarrow> 'w TxState \<Rightarrow> (bool \<times> 'w TxState) option" where
  "serve_data TI_DBG ops uHlid uQueId s =
     (if aQueueBusy (dataQ s) ! uQueId then Some (False, s)
      else case dequeue TI_DBG (DataQ uHlid uQueId) s of
             None \<Rightarrow> None
           | Some (p, s1) \<Rightarrow>
              if p = NULL then Some (False, resume_net_stack uHlid uQueId s1)
              else case txCtrl_XmitData ops p
                       (count_data TI_DBG uHlid uQueId (\<lambda>c. c\<lparr>uDequeuePacket := uDequeuePacket c + 1\<rparr>) s1) of
                     None \<Rightarrow> None
                   | Some (eStatus, s2) \<Rightarrow>
                      if eStatus = STATUS_XMIT_BUSY
                      then map_option (Pair False) (requeue_data TI_DBG uHlid uQueId p s2)
                      else Some (eStatus = STATUS_XMIT_SUCCESS,
                             count_data TI_DBG uHlid uQueId (\<lambda>c. c\<lparr>uXmittedPacket := uXmittedPacket c + 1\<rparr>)
                               (if eStatus = STATUS_XMIT_SUCCESS
                                then upd_data (\<lambda>d. d\<lparr>uNextQueId := of_nat (uQueId + 1), uNextHlid := of_nat (uHlid + 1)\<rparr>) s2
                                else s2)))"

text \<open>
  The loop over the queues of a link, with \<open>n\<close> iterations left.  The first component of the result tells
  whether the port was found closed, which ends the scheduler; the last but one whether nothing was sent.
\<close>

fun ac_loop ::
  "bool \<Rightarrow> 'w twd_ops \<Rightarrow> nat \<Rightarrow> nat \<Rightarrow> nat \<Rightarrow> bool \<Rightarrow> 'w TxState \<Rightarrow> (bool \<times> nat \<times> bool \<times> 'w TxState) option" where
  "ac_loop TI_DBG ops uHlid 0 uQueId bStop s = Some (False, uQueId, bStop, s)"
| "ac_loop TI_DBG ops uHlid (Suc n) uQueId bStop s =
     (if \<not> bDataPortEnable (dataQ s) then Some (True, uQueId, bStop, emit EndOfBurst s)
      else
       (let q = (if uQueId = unat (uNumQueues (dataQ s)) then 0 else uQueId)
        in case serve_data TI_DBG ops uHlid q s of
             None \<Rightarrow> None
           | Some (sent, s1) \<Rightarrow> ac_loop TI_DBG ops uHlid n (q + 1) (bStop \<and> \<not> sent) s1))"

fun link_loop ::
  "bool \<Rightarrow> 'w twd_ops \<Rightarrow> nat \<Rightarrow> nat \<Rightarrow> nat \<Rightarrow> bool \<Rightarrow> 'w TxState \<Rightarrow> (bool \<times> nat \<times> nat \<times> bool \<times> 'w TxState) option" where
  "link_loop TI_DBG ops 0 uHlid uQueId bStop s = Some (False, uHlid, uQueId, bStop, s)"
| "link_loop TI_DBG ops (Suc n) uHlid uQueId bStop s =
     (if \<not> bDataPortEnable (dataQ s) then Some (True, uHlid, uQueId, bStop, emit EndOfBurst s)
      else
       (let h = (if uHlid = WLANLINKS_MAX_LINKS then 0 else uHlid)
        in if \<not> bEnabled (dlink s h) \<or> bBusy (dlink s h) then link_loop TI_DBG ops n (h + 1) 0 bStop s
           else case ac_loop TI_DBG ops h (unat (uNumQueues (dataQ s))) uQueId bStop s of
                  None \<Rightarrow> None
                | Some (closed, q, stop, s1) \<Rightarrow>
                   if closed then Some (True, h, q, stop, s1)
                   else link_loop TI_DBG ops n (h + 1) q stop s1))"

partial_function (option) sched_loop ::
  "bool \<Rightarrow> 'w twd_ops \<Rightarrow> nat \<Rightarrow> nat \<Rightarrow> 'w TxState \<Rightarrow> 'w TxState option" where
  "sched_loop TI_DBG ops uHlid uQueId s =
     (case link_loop TI_DBG ops WLANLINKS_MAX_LINKS uHlid uQueId True s of
        None \<Rightarrow> None
      | Some (closed, h, q, bStop, s1) \<Rightarrow>
         if closed then Some s1
         else if bStop then Some (emit EndOfBurst s1)
         else sched_loop TI_DBG ops h q s1)"

definition txDataQ_RunScheduler :: "bool \<Rightarrow> 'w twd_ops \<Rightarrow> 'w TxState \<Rightarrow> 'w TxState option" where
  "txDataQ_RunScheduler TI_DBG ops s = sched_loop TI_DBG ops (unat (uNextHlid (dataQ s))) (unat (uNextQueId (dataQ s))) s"

subsection \<open>Control of the data queues\<close>

definition txDataQ_UpdateBusyMap :: "bool \<Rightarrow> 'w twd_ops \<Rightarrow> u32 \<Rightarrow> u32 \<Rightarrow> 'w TxState \<Rightarrow> 'w TxState option" where
  "txDataQ_UpdateBusyMap TI_DBG ops tidBitMap uLinkBitMap s =
     txDataQ_RunScheduler TI_DBG ops (txDataQ_UpdateQueuesBusyState tidBitMap (txDataQ_UpdateLinksBusyState tidBitMap s))"

definition txDataQ_StopAll :: "'w TxState \<Rightarrow> 'w TxState" where
  "txDataQ_StopAll = upd_data (\<lambda>d. d\<lparr>bDataPortEnable := False\<rparr>)"

definition txDataQ_WakeAll :: "bool \<Rightarrow> 'w twd_ops \<Rightarrow> 'w TxState \<Rightarrow> 'w TxState option" where
  "txDataQ_WakeAll TI_DBG ops s = txDataQ_RunScheduler TI_DBG ops (upd_data (\<lambda>d. d\<lparr>bDataPortEnable := True\<rparr>) s)"

definition txDataQ_DisableLink :: "nat \<Rightarrow> 'w TxState \<Rightarrow> 'w TxState" where
  "txDataQ_DisableLink uHlid = upd_dlink uHlid (\<lambda>l. l\<lparr>bEnabled := False\<rparr>)"

definition txDataQ_EnableLink :: "bool \<Rightarrow> 'w twd_ops \<Rightarrow> nat \<Rightarrow> 'w TxState \<Rightarrow> 'w TxState option" where
  "txDataQ_EnableLink TI_DBG ops uHlid s = txDataQ_RunScheduler TI_DBG ops (upd_dlink uHlid (\<lambda>l. l\<lparr>bEnabled := True\<rparr>) s)"

definition txDataQ_SetLinkType :: "nat \<Rightarrow> EWlanLinkType \<Rightarrow> 'w TxState \<Rightarrow> 'w TxState" where
  "txDataQ_SetLinkType uHlid eLinkType s =
     (let s1 = upd_dlink uHlid (\<lambda>l. l\<lparr>eType := eLinkType\<rparr>) s
      in if eLinkType = WLANLINK_TYPE_BRCST then upd_data (\<lambda>d. d\<lparr>uBcastHlid := of_nat uHlid\<rparr>) s1 else s1)"

definition txDataQ_TxSendPaceTimeout :: "bool \<Rightarrow> 'w twd_ops \<Rightarrow> 'w TxState \<Rightarrow> 'w TxState option" where
  "txDataQ_TxSendPaceTimeout TI_DBG ops s =
     txDataQ_RunScheduler TI_DBG ops (upd_data (\<lambda>d. d\<lparr>uTxSendPaceTimeoutsCount := uTxSendPaceTimeoutsCount d + 1\<rparr>) s)"

definition TxDataQ_SetEncryptFlag :: "nat \<Rightarrow> bool \<Rightarrow> 'w TxState \<Rightarrow> 'w TxState" where
  "TxDataQ_SetEncryptFlag uHlid flag = upd_dlink uHlid (\<lambda>l. l\<lparr>bEncrypt := flag\<rparr>)"

definition TxDataQ_setEncryptionFieldSizes :: "nat \<Rightarrow> u8 \<Rightarrow> 'w TxState \<Rightarrow> 'w TxState" where
  "TxDataQ_setEncryptionFieldSizes uHlid encryptionFieldSize = upd_dlink uHlid (\<lambda>l. l\<lparr>cEncryptSize := encryptionFieldSize\<rparr>)"

definition TxDataQ_getEncryptionFieldSizes :: "'w TxState \<Rightarrow> nat \<Rightarrow> u8" where
  "TxDataQ_getEncryptionFieldSizes s uHlid = cEncryptSize (dlink s uHlid)"

subsection \<open>Links by address\<close>

definition txDataQ_LinkMacAdd :: "u32 \<Rightarrow> u8 list \<Rightarrow> 'w TxState \<Rightarrow> TI_STATUS \<times> 'w TxState" where
  "txDataQ_LinkMacAdd uHlid mac s =
     (if WLANLINKS_MAX_LINKS \<le> unat uHlid then (TI_NOK, s)
      else (TI_OK, upd_data (\<lambda>d. d\<lparr>aLinkMac := (aLinkMac d)[unat uHlid := \<lparr>uValid = True, tMacAddr = mac\<rparr>]\<rparr>) s))"

definition txDataQ_LinkMacRemove :: "u32 \<Rightarrow> 'w TxState \<Rightarrow> 'w TxState" where
  "txDataQ_LinkMacRemove uHlid s =
     (if WLANLINKS_MAX_LINKS \<le> unat uHlid then s
      else upd_data (\<lambda>d. d\<lparr>aLinkMac := (aLinkMac d)[unat uHlid := (aLinkMac d ! unat uHlid)\<lparr>uValid := False\<rparr>]\<rparr>) s)"

definition txDataQ_LinkMacFind :: "TTxDataQ \<Rightarrow> u8 list \<Rightarrow> nat option" where
  "txDataQ_LinkMacFind d mac =
     find (\<lambda>i. uValid (aLinkMac d ! i) \<and> tMacAddr (aLinkMac d ! i) = mac) [0..<WLANLINKS_MAX_LINKS]"

definition txDataQ_GetBcastLink :: "'w TxState \<Rightarrow> u32" where
  "txDataQ_GetBcastLink s = uBcastHlid (dataQ s)"

subsection \<open>Emptying the queues\<close>

text \<open>The loop that empties one queue, of either kind.\<close>

partial_function (option) flush_queue :: "bool \<Rightarrow> qid \<Rightarrow> 'w TxState \<Rightarrow> 'w TxState option" where
  "flush_queue TI_DBG k s =
     (case dequeue TI_DBG k s of
        None \<Rightarrow> None
      | Some (p, s1) \<Rightarrow>
         if p = NULL then Some s1
         else Option.bind (txCtrl_FreePacket p TI_NOK s1) (flush_queue TI_DBG k))"

primrec flush_queues :: "bool \<Rightarrow> qid list \<Rightarrow> 'w TxState \<Rightarrow> 'w TxState option" where
  "flush_queues TI_DBG [] s = Some s"
| "flush_queues TI_DBG (k # ks) s = Option.bind (flush_queue TI_DBG k s) (flush_queues TI_DBG ks)"

definition txDataQ_FlushLinkQueues :: "bool \<Rightarrow> nat \<Rightarrow> 'w TxState \<Rightarrow> 'w TxState option" where
  "txDataQ_FlushLinkQueues TI_DBG uHlid s = flush_queues TI_DBG (map (DataQ uHlid) [0..<unat (uNumQueues (dataQ s))]) s"

primrec flush_links :: "(nat \<Rightarrow> 'w TxState \<Rightarrow> 'w TxState option) \<Rightarrow> nat list \<Rightarrow> 'w TxState \<Rightarrow> 'w TxState option" where
  "flush_links flush [] s = Some s"
| "flush_links flush (h # hs) s = Option.bind (flush h s) (flush_links flush hs)"

definition txDataQ_ClearQueues :: "bool \<Rightarrow> 'w TxState \<Rightarrow> 'w TxState option" where
  "txDataQ_ClearQueues TI_DBG = flush_links (txDataQ_FlushLinkQueues TI_DBG) [0..<WLANLINKS_MAX_LINKS]"

end
