(* ===== verification/TxMgmt.thy ===== *)
theory TxMgmt
  imports TxPath
begin

text \<open>
  The management queues (stad/src/Data_link/txMgmtQueue.c): per link a queue for management packets and
  one for EAPOL packets, a state machine that follows the connection state of the link, and a scheduler.
  The state machine gives the link to the data queues when the management queues are empty and the link
  is open, and takes it back when a management packet arrives.  The theory also has the operations that
  involve both queue modules: the entry of data packets, the change of the backpressure, the completion
  of a packet, and the creation and destruction of the modules.
\<close>

section \<open>The scheduler\<close>

definition count_mgmt :: "nat \<Rightarrow> (TDbgCount \<Rightarrow> TDbgCount) \<Rightarrow> 'w TxState \<Rightarrow> 'w TxState" where
  "count_mgmt uHlid f = upd_mlink uHlid (\<lambda>l. l\<lparr>tDbgCounters := f (tDbgCounters l)\<rparr>)"

definition inc :: "u32 list \<Rightarrow> nat \<Rightarrow> u32 list" where
  "inc xs i = xs[i := xs ! i + 1]"

text \<open>
  One attempt to send from a queue; the result tells whether the packet was handled.  A packet for
  which the hardware is busy is put back; that this can fail is not checked.
\<close>

definition serve_mgmt :: "bool \<Rightarrow> 'w twd_ops \<Rightarrow> nat \<Rightarrow> nat \<Rightarrow> 'w TxState \<Rightarrow> (bool \<times> 'w TxState) option" where
  "serve_mgmt TI_DBG ops uHlid uQueId s =
     (case dequeue TI_DBG (MgmtQ uHlid uQueId) s of
        None \<Rightarrow> None
      | Some (p, s1) \<Rightarrow>
         if p = NULL then Some (False, s1)
         else case txCtrl_XmitMgmt ops p (count_mgmt uHlid (\<lambda>c. c\<lparr>aDequeuePackets := inc (aDequeuePackets c) uQueId\<rparr>) s1) of
                None \<Rightarrow> None
              | Some (eStatus, s2) \<Rightarrow>
                 if eStatus = STATUS_XMIT_BUSY
                 then map_option (\<lambda>(_, s3). (False, count_mgmt uHlid (\<lambda>c. c\<lparr>aRequeuePackets := inc (aRequeuePackets c) uQueId\<rparr>) s3))
                        (requeue TI_DBG (MgmtQ uHlid uQueId) p s2)
                 else Some (True, count_mgmt uHlid (\<lambda>c. c\<lparr>aXmittedPackets := inc (aXmittedPackets c) uQueId\<rparr>) s2))"

partial_function (option) mgmt_loop ::
  "bool \<Rightarrow> 'w twd_ops \<Rightarrow> nat \<Rightarrow> nat \<Rightarrow> 'w TxState \<Rightarrow> 'w TxState option" where
  "mgmt_loop TI_DBG ops uHlid uQueId s =
     (if \<not> bMgmtPortEnable (mgmtQ s) \<or> aMgmtAcBusy (mgmtQ s) then Some s
      else
       (let bLinkActive = (\<not> bBusy (mlink s uHlid) \<and> bEnabled (mlink s uHlid))
        in case (if bLinkActive \<and> aQenabled (mlink s uHlid) ! uQueId then serve_mgmt TI_DBG ops uHlid uQueId s
                 else Some (False, s)) of
             None \<Rightarrow> None
           | Some (sent, s1) \<Rightarrow>
              if sent then mgmt_loop TI_DBG ops uHlid 0 s1
              else if bLinkActive \<and> uQueId + 1 < NUM_OF_MGMT_QUEUES then mgmt_loop TI_DBG ops uHlid (uQueId + 1) s1
              else if uHlid + 1 < WLANLINKS_MAX_LINKS then mgmt_loop TI_DBG ops (uHlid + 1) 0 s1
              else Some (emit EndOfBurst s1)))"

definition runScheduler :: "bool \<Rightarrow> 'w twd_ops \<Rightarrow> 'w TxState \<Rightarrow> 'w TxState option" where
  "runScheduler TI_DBG ops = mgmt_loop TI_DBG ops 0 0"

section \<open>The state machine\<close>

definition ARE_LINK_MGMT_QUEUES_EMPTY :: "'w TxState \<Rightarrow> nat \<Rightarrow> bool option" where
  "ARE_LINK_MGMT_QUEUES_EMPTY s uHlid =
     Option.bind (fam_Size (queues s) (MgmtQ uHlid QUEUE_TYPE_MGMT)) (\<lambda>m.
       map_option (\<lambda>e. m = 0 \<and> e = 0) (fam_Size (queues s) (MgmtQ uHlid QUEUE_TYPE_EAPOL)))"

text \<open>
  The first \<^verbatim>\<open>switch\<close> of \<^verbatim>\<open>mgmtQueuesSM\<close>: the new state and queue flags, and the action.  \<open>bEmpty\<close> tells
  whether both queues of the link are empty.
\<close>

definition sm_next :: "ESmEvent \<Rightarrow> bool \<Rightarrow> TMgmtLinkQ \<Rightarrow> TMgmtLinkQ \<times> ESmAction" where
  "sm_next eSmEvent bEmpty l =
     (case eSmEvent of
        SM_EVENT_CLOSE \<Rightarrow> (l\<lparr>eState := SM_STATE_CLOSE, aQenabled := [False, False]\<rparr>, SM_ACTION_STOP_ALL)
      | SM_EVENT_MGMT \<Rightarrow>
         (l\<lparr>eState := SM_STATE_MGMT, aQenabled := [True, False]\<rparr>,
          if eState l = SM_STATE_OPEN_DATA then SM_ACTION_ENABLE_MGMT else SM_ACTION_RUN_SCHEDULER)
      | SM_EVENT_EAPOL \<Rightarrow> (l\<lparr>eState := SM_STATE_EAPOL, aQenabled := [True, True]\<rparr>, SM_ACTION_RUN_SCHEDULER)
      | SM_EVENT_OPEN \<Rightarrow>
         if bEmpty then (l\<lparr>eState := SM_STATE_OPEN_DATA, aQenabled := [False, False]\<rparr>, SM_ACTION_ENABLE_DATA)
         else (l\<lparr>eState := SM_STATE_OPEN_MGMT\<rparr>, SM_ACTION_NULL)
      | SM_EVENT_QUEUES_EMPTY \<Rightarrow>
         if eState l = SM_STATE_OPEN_MGMT
         then (l\<lparr>eState := SM_STATE_OPEN_DATA, aQenabled := [False, False]\<rparr>, SM_ACTION_ENABLE_DATA)
         else (l, SM_ACTION_NULL)
      | SM_EVENT_QUEUES_NOT_EMPTY \<Rightarrow>
         if eState l = SM_STATE_OPEN_DATA \<or> eState l = SM_STATE_OPEN_MGMT
         then (l\<lparr>eState := SM_STATE_OPEN_MGMT, aQenabled := [True, True]\<rparr>, SM_ACTION_ENABLE_MGMT)
         else if eState l = SM_STATE_MGMT \<or> eState l = SM_STATE_EAPOL then (l, SM_ACTION_RUN_SCHEDULER)
         else (l, SM_ACTION_NULL))"

definition TxMgmtQ_FlushLinkQueues :: "bool \<Rightarrow> nat \<Rightarrow> 'w TxState \<Rightarrow> 'w TxState option" where
  "TxMgmtQ_FlushLinkQueues TI_DBG uHlid = flush_queues TI_DBG (map (MgmtQ uHlid) [0..<NUM_OF_MGMT_QUEUES])"

definition txMgmtQ_DisableLink :: "nat \<Rightarrow> 'w TxState \<Rightarrow> 'w TxState" where
  "txMgmtQ_DisableLink uHlid = upd_mlink uHlid (\<lambda>l. l\<lparr>bEnabled := False\<rparr>)"

text \<open>
  \<^verbatim>\<open>mgmtQueuesSM\<close>, \<^verbatim>\<open>txMgmtQ_EnableLink\<close> and \<^verbatim>\<open>runSchedulerNotFromSm\<close> are mutually recursive.  \<open>sm_run\<close> is
  the state machine with the last of them as a parameter.  The event that \<^verbatim>\<open>runSchedulerNotFromSm\<close> sends
  never enables the management link, so that the recursion has depth one.
\<close>

definition enable_link ::
  "('w TxState \<Rightarrow> 'w TxState option) \<Rightarrow> nat \<Rightarrow> 'w TxState \<Rightarrow> 'w TxState option" where
  "enable_link sched uHlid s = sched (upd_mlink uHlid (\<lambda>l. l\<lparr>bEnabled := True\<rparr>) s)"

definition sm_run ::
  "('w TxState \<Rightarrow> 'w TxState option) \<Rightarrow> bool \<Rightarrow> 'w twd_ops \<Rightarrow> nat \<Rightarrow> ESmEvent \<Rightarrow> 'w TxState \<Rightarrow> 'w TxState option" where
  "sm_run sched TI_DBG ops uHlid eSmEvent s =
     (if WLANLINKS_MAX_LINKS \<le> uHlid then None
      else case (if eSmEvent = SM_EVENT_OPEN then ARE_LINK_MGMT_QUEUES_EMPTY s uHlid else Some False) of
             None \<Rightarrow> None
           | Some bEmpty \<Rightarrow>
              (case sm_next eSmEvent bEmpty (mlink s uHlid) of (l, eSmAction) \<Rightarrow>
                let s1 = upd_mlink uHlid (\<lambda>_. l) s
                in case eSmAction of
                     SM_ACTION_NULL \<Rightarrow> Some s1
                   | SM_ACTION_ENABLE_DATA \<Rightarrow> txDataQ_EnableLink TI_DBG ops uHlid (txMgmtQ_DisableLink uHlid s1)
                   | SM_ACTION_ENABLE_MGMT \<Rightarrow> enable_link sched uHlid (txDataQ_DisableLink uHlid s1)
                   | SM_ACTION_RUN_SCHEDULER \<Rightarrow> runScheduler TI_DBG ops s1
                   | SM_ACTION_STOP_ALL \<Rightarrow>
                      Option.bind (txDataQ_FlushLinkQueues TI_DBG uHlid (txDataQ_DisableLink uHlid s1)) (\<lambda>s2.
                        Option.bind (TxMgmtQ_FlushLinkQueues TI_DBG uHlid s2) (enable_link sched uHlid))))"

text \<open>One link in \<^verbatim>\<open>runSchedulerNotFromSm\<close>.\<close>

definition sched_link :: "bool \<Rightarrow> 'w twd_ops \<Rightarrow> nat \<Rightarrow> 'w TxState \<Rightarrow> 'w TxState option" where
  "sched_link TI_DBG ops uHlid s =
     (case ARE_LINK_MGMT_QUEUES_EMPTY s uHlid of
        None \<Rightarrow> None
      | Some True \<Rightarrow> Some s
      | Some False \<Rightarrow>
         Option.bind (runScheduler TI_DBG ops s) (\<lambda>s1.
           case ARE_LINK_MGMT_QUEUES_EMPTY s1 uHlid of
             None \<Rightarrow> None
           | Some True \<Rightarrow> sm_run (\<lambda>_. None) TI_DBG ops uHlid SM_EVENT_QUEUES_EMPTY s1
           | Some False \<Rightarrow> Some s1))"

definition runSchedulerNotFromSm :: "bool \<Rightarrow> 'w twd_ops \<Rightarrow> 'w TxState \<Rightarrow> 'w TxState option" where
  "runSchedulerNotFromSm TI_DBG ops = flush_links (sched_link TI_DBG ops) [0..<WLANLINKS_MAX_LINKS]"

definition mgmtQueuesSM :: "bool \<Rightarrow> 'w twd_ops \<Rightarrow> nat \<Rightarrow> ESmEvent \<Rightarrow> 'w TxState \<Rightarrow> 'w TxState option" where
  "mgmtQueuesSM TI_DBG ops = sm_run (runSchedulerNotFromSm TI_DBG ops) TI_DBG ops"

definition txMgmtQ_EnableLink :: "bool \<Rightarrow> 'w twd_ops \<Rightarrow> nat \<Rightarrow> 'w TxState \<Rightarrow> 'w TxState option" where
  "txMgmtQ_EnableLink TI_DBG ops = enable_link (runSchedulerNotFromSm TI_DBG ops)"

section \<open>Entry of packets\<close>

definition txMgmtQ_Xmit :: "bool \<Rightarrow> 'w twd_ops \<Rightarrow> ptr \<Rightarrow> bool \<Rightarrow> 'w TxState \<Rightarrow> (TI_STATUS \<times> 'w TxState) option" where
  "txMgmtQ_Xmit TI_DBG ops p bExternalContext s =
     (let mgmt = (uPktType (pkts s p) = TX_PKT_TYPE_MGMT)
      in case (if mgmt then dot11_address1 (pkts s p) else eth_dst (pkts s p)) of
           None \<Rightarrow> None
         | Some mac \<Rightarrow>
            (let uHlid = (case txDataQ_LinkMacFind (dataQ s) mac of Some i \<Rightarrow> i | None \<Rightarrow> unat (uGlobalHlid (mgmtQ s)))
             in if WLANLINKS_MAX_LINKS \<le> uHlid then None
                else
                 (let pkt1 = (pkts s p)\<lparr>hlid := of_nat uHlid, tid := of_nat MGMT_QUEUES_TID\<rparr>;
                      pkt2 = (if bEncrypt (mlink s uHlid) \<and> uPktType pkt1 = TX_PKT_TYPE_EAPOL
                              then SET_PKT_TYPE_ENCRYPT pkt1 else pkt1);
                      uQueId = (if mgmt then QUEUE_TYPE_MGMT else QUEUE_TYPE_EAPOL)
                  in case txDataQ_AllocCheckResources (tDataRsrc (dataQ s)) pkt2 of
                       None \<Rightarrow> None
                     | Some (st, r, pkt3) \<Rightarrow>
                        (let s1 = upd_pkt p (\<lambda>_. pkt3) (upd_data (\<lambda>d. d\<lparr>tDataRsrc := r\<rparr>) s)
                         in if st \<noteq> TI_OK
                            then map_option (Pair TI_NOK)
                              (txCtrl_FreePacket p TI_NOK
                                (count_mgmt uHlid (\<lambda>c. c\<lparr>aDroppedPackets := inc (aDroppedPackets c) uQueId,
                                   uNoResources := uNoResources c + 1\<rparr>) s1))
                            else
                             (case enqueue TI_DBG (MgmtQ uHlid uQueId) p s1 of
                                None \<Rightarrow> None
                              | Some (eStatus, s2) \<Rightarrow>
                                 if eStatus = TI_OK
                                 then
                                  (let s3 = count_mgmt uHlid (\<lambda>c. c\<lparr>aEnqueuePackets := inc (aEnqueuePackets c) uQueId\<rparr>) s2
                                   in if fam_Size (queues s2) (MgmtQ uHlid uQueId) = Some 1
                                      then (if bExternalContext
                                            then Some (TI_OK, emit (RequestSchedule TX_MGMT)
                                                   (upd_mlink uHlid (\<lambda>l. l\<lparr>bSendEvent_NotEmpty := True\<rparr>) s3))
                                            else map_option (Pair TI_OK) (mgmtQueuesSM TI_DBG ops uHlid SM_EVENT_QUEUES_NOT_EMPTY s3))
                                      else Some (TI_OK, s3))
                                 else map_option (\<lambda>s4. (eStatus, count_mgmt uHlid (\<lambda>c. c\<lparr>aDroppedPackets := inc (aDroppedPackets c) uQueId\<rparr>) s4))
                                        (txCtrl_FreePacket p TI_NOK s2))))))"

definition not_empty_link :: "bool \<Rightarrow> 'w twd_ops \<Rightarrow> nat \<Rightarrow> 'w TxState \<Rightarrow> 'w TxState option" where
  "not_empty_link TI_DBG ops uHlid s =
     (if bSendEvent_NotEmpty (mlink s uHlid)
      then mgmtQueuesSM TI_DBG ops uHlid SM_EVENT_QUEUES_NOT_EMPTY (upd_mlink uHlid (\<lambda>l. l\<lparr>bSendEvent_NotEmpty := False\<rparr>) s)
      else Some s)"

definition txMgmtQ_QueuesNotEmpty :: "bool \<Rightarrow> 'w twd_ops \<Rightarrow> 'w TxState \<Rightarrow> 'w TxState option" where
  "txMgmtQ_QueuesNotEmpty TI_DBG ops = flush_links (not_empty_link TI_DBG ops) [0..<WLANLINKS_MAX_LINKS]"

text \<open>
  A packet from the network stack.  \<open>bridge\<close> is the link of a packet bridged within the BSS.
\<close>

definition pace_data :: "nat \<Rightarrow> u32 \<Rightarrow> 'w TxState \<Rightarrow> bool \<times> 'w TxState" where
  "pace_data uQueId uQueSize s =
     (if aQueueBusy (dataQ s) ! uQueId then (False, s)
      else if uQueSize = aTxSendPaceThresh (dataQ s) ! uQueId then (True, emit StopPaceTimer s)
      else if uQueSize < aTxSendPaceThresh (dataQ s) ! uQueId then (False, emit StartPaceTimer s)
      else (False, s))"

definition insert_data :: "bool \<Rightarrow> nat \<Rightarrow> nat \<Rightarrow> ptr \<Rightarrow> 'w TxState \<Rightarrow> (TI_STATUS \<times> 'w TxState) option" where
  "insert_data TI_DBG uHlid uQueId p s =
     (case enqueue TI_DBG (DataQ uHlid uQueId) p s of
        None \<Rightarrow> None
      | Some (eStatus, s1) \<Rightarrow>
         (case fam_Size (queues s1) (DataQ uHlid uQueId) of
            None \<Rightarrow> None
          | Some uQueSize \<Rightarrow>
             (let (bRequest, s2) = pace_data uQueId uQueSize s1;
                  bStopNetStack = (bStopNetStackTx (dataQ s2) \<and> uQueSize = aQueueMaxSize (dataQ s2) ! uQueId);
                  s3 = (if bStopNetStack
                        then upd_dlink uHlid (\<lambda>l. l\<lparr>aNetStackQueueStopped := (aNetStackQueueStopped l)[uQueId := True]\<rparr>) s2
                        else s2);
                  s4 = (if bRequest \<or> bStopNetStack then emit (RequestSchedule TX_DATA) s3 else s3);
                  s5 = (if bStopNetStack then emit StopNetStack s4 else s4)
              in if eStatus \<noteq> TI_OK
                 then map_option (\<lambda>s6. (eStatus, count_data TI_DBG uHlid uQueId (\<lambda>c. c\<lparr>uDroppedPacket := uDroppedPacket c + 1\<rparr>) s6))
                        (txCtrl_FreePacket p TI_NOK s5)
                 else Some (eStatus, count_data TI_DBG uHlid uQueId (\<lambda>c. c\<lparr>uEnqueuePacket := uEnqueuePacket c + 1\<rparr>) s5))))"

definition classify_data :: "bool \<Rightarrow> nat \<Rightarrow> u8 \<Rightarrow> ptr \<Rightarrow> 'w TxState \<Rightarrow> (TI_STATUS \<times> 'w TxState) option" where
  "classify_data TI_DBG uHlid uPacketDtag p s =
     (let pkt1 = (pkts s p)\<lparr>hlid := of_nat uHlid, uPktType := TX_PKT_TYPE_ETHER\<rparr>;
          pkt2 = (if bEncrypt (dlink s uHlid) then SET_PKT_TYPE_ENCRYPT pkt1 else pkt1)
      in case txDataClsfr_ClassifyTxPacket (tClsfrParams (dataQ s)) pkt2 uPacketDtag of
           None \<Rightarrow> None
         | Some (cst, pkt3) \<Rightarrow>
            (let s1 = (if cst \<noteq> TI_OK \<and> TI_DBG then upd_data (\<lambda>d. d\<lparr>uClsfrMismatchCount := uClsfrMismatchCount d + 1\<rparr>) s else s)
             in if length aTidToQueueTable \<le> unat (tid pkt3) then None
                else
                 (let uQueId = aTidToQueueTable ! unat (tid pkt3)
                  in case txDataQ_AllocCheckResources (tDataRsrc (dataQ s1)) pkt3 of
                       None \<Rightarrow> None
                     | Some (st, r, pkt4) \<Rightarrow>
                        (let s2 = upd_pkt p (\<lambda>_. pkt4) (upd_data (\<lambda>d. d\<lparr>tDataRsrc := r\<rparr>) s1)
                         in if st \<noteq> TI_OK
                            then map_option (Pair TI_NOK)
                              (txCtrl_FreePacket p TI_NOK
                                (if TI_DBG
                                 then upd_data (\<lambda>d. d\<lparr>uNoResourcesCount := uNoResourcesCount d + 1\<rparr>)
                                        (count_data TI_DBG uHlid uQueId (\<lambda>c. c\<lparr>uDroppedPacket := uDroppedPacket c + 1\<rparr>) s2)
                                 else s2))
                            else insert_data TI_DBG uHlid uQueId p s2))))"

definition txDataQ_InsertPacket ::
  "bool \<Rightarrow> 'w twd_ops \<Rightarrow> ptr \<Rightarrow> u8 \<Rightarrow> u32 option \<Rightarrow> 'w TxState \<Rightarrow> (TI_STATUS \<times> 'w TxState) option" where
  "txDataQ_InsertPacket TI_DBG ops p uPacketDtag bridge s =
     (case (eth_type (pkts s p), eth_dst (pkts s p)) of
        (Some ty, Some dst) \<Rightarrow>
          if ty = ETHERTYPE_EAPOL \<or> ty = genericEthertype (txCtrl s)
          then txMgmtQ_Xmit TI_DBG ops p True (upd_pkt p (\<lambda>k. k\<lparr>uPktType := TX_PKT_TYPE_EAPOL\<rparr>) s)
          else
           (let found = (case bridge of
                           Some uParam \<Rightarrow> Some (unat uParam)
                         | None \<Rightarrow> if MAC_MULTICAST dst then Some (unat (uBcastHlid (dataQ s)))
                                   else txDataQ_LinkMacFind (dataQ s) dst)
            in case found of
                 None \<Rightarrow>
                   map_option (\<lambda>s1. (TI_NOK, upd_data (\<lambda>d. d\<lparr>uLinkNotFoundCount := uLinkNotFoundCount d + 1\<rparr>) s1))
                     (txCtrl_FreePacket p TI_NOK s)
               | Some uHlid \<Rightarrow>
                   if WLANLINKS_MAX_LINKS \<le> uHlid then None else classify_data TI_DBG uHlid uPacketDtag p s)
      | _ \<Rightarrow> None)"

section \<open>Control\<close>

definition txMgmtQ_UpdateBusyMap :: "bool \<Rightarrow> 'w twd_ops \<Rightarrow> u32 \<Rightarrow> u32 \<Rightarrow> 'w TxState \<Rightarrow> 'w TxState option" where
  "txMgmtQ_UpdateBusyMap TI_DBG ops uTidBitMap uLinkBitMap s =
     runSchedulerNotFromSm TI_DBG ops (updateQueuesBusyMap uTidBitMap (updateLinksBusyMap uLinkBitMap s))"

definition txMgmtQ_StopAll :: "'w TxState \<Rightarrow> 'w TxState" where
  "txMgmtQ_StopAll = upd_mgmt (\<lambda>m. m\<lparr>bMgmtPortEnable := False\<rparr>)"

definition txMgmtQ_WakeAll :: "bool \<Rightarrow> 'w twd_ops \<Rightarrow> 'w TxState \<Rightarrow> 'w TxState option" where
  "txMgmtQ_WakeAll TI_DBG ops s = runSchedulerNotFromSm TI_DBG ops (upd_mgmt (\<lambda>m. m\<lparr>bMgmtPortEnable := True\<rparr>) s)"

definition txMgmtQ_SuspendTx :: "'w TxState \<Rightarrow> 'w TxState" where
  "txMgmtQ_SuspendTx s = txDataQ_StopAll (txMgmtQ_StopAll s)"

definition txMgmtQ_ResumeTx :: "bool \<Rightarrow> 'w twd_ops \<Rightarrow> 'w TxState \<Rightarrow> 'w TxState option" where
  "txMgmtQ_ResumeTx TI_DBG ops s = Option.bind (txMgmtQ_WakeAll TI_DBG ops s) (txDataQ_WakeAll TI_DBG ops)"

definition conn_event :: "ETxConnState \<Rightarrow> ESmEvent" where
  "conn_event c = (case c of TX_CONN_STATE_CLOSE \<Rightarrow> SM_EVENT_CLOSE | TX_CONN_STATE_MGMT \<Rightarrow> SM_EVENT_MGMT
     | TX_CONN_STATE_EAPOL \<Rightarrow> SM_EVENT_EAPOL | TX_CONN_STATE_OPEN \<Rightarrow> SM_EVENT_OPEN)"

definition txMgmtQ_SetLinkState ::
  "bool \<Rightarrow> 'w twd_ops \<Rightarrow> nat \<Rightarrow> ETxConnState \<Rightarrow> 'w TxState \<Rightarrow> (TI_STATUS \<times> 'w TxState) option" where
  "txMgmtQ_SetLinkState TI_DBG ops uHlid c s =
     map_option (Pair TI_OK) (mgmtQueuesSM TI_DBG ops uHlid (conn_event c) (upd_mlink uHlid (\<lambda>l. l\<lparr>eTxConnState := c\<rparr>) s))"

definition txMgmtQ_SetConnState :: "bool \<Rightarrow> 'w twd_ops \<Rightarrow> ETxConnState \<Rightarrow> 'w TxState \<Rightarrow> 'w TxState option" where
  "txMgmtQ_SetConnState TI_DBG ops c s =
     mgmtQueuesSM TI_DBG ops 0 (conn_event c) (upd_mlink 0 (\<lambda>l. l\<lparr>eTxConnState := c\<rparr>) s)"

definition txMgmtQ_SetLinkType :: "nat \<Rightarrow> EWlanLinkType \<Rightarrow> 'w TxState \<Rightarrow> 'w TxState" where
  "txMgmtQ_SetLinkType uHlid eLinkType s =
     (let s1 = upd_mlink uHlid (\<lambda>l. l\<lparr>eType := eLinkType\<rparr>) s;
          s2 = (if eLinkType = WLANLINK_TYPE_GLOBAL then upd_mgmt (\<lambda>m. m\<lparr>uGlobalHlid := of_nat uHlid\<rparr>) s1 else s1)
      in txDataQ_SetLinkType uHlid eLinkType s2)"

definition TxMgmtQ_SetEncryptFlag :: "nat \<Rightarrow> bool \<Rightarrow> 'w TxState \<Rightarrow> 'w TxState" where
  "TxMgmtQ_SetEncryptFlag uHlid flag = upd_mlink uHlid (\<lambda>l. l\<lparr>bEncrypt := flag\<rparr>)"

definition txMgmtQ_ClearQueues :: "bool \<Rightarrow> 'w TxState \<Rightarrow> 'w TxState option" where
  "txMgmtQ_ClearQueues TI_DBG = flush_links (TxMgmtQ_FlushLinkQueues TI_DBG) [0..<WLANLINKS_MAX_LINKS]"

text \<open>A change of the backpressure, from the hardware queues or from the admission control.\<close>

definition txCtrl_UpdateBackpressure :: "bool \<Rightarrow> 'w twd_ops \<Rightarrow> u32 \<Rightarrow> u32 \<Rightarrow> 'w TxState \<Rightarrow> 'w TxState option" where
  "txCtrl_UpdateBackpressure TI_DBG ops freedAcBitmap freedLinkBitmap s =
     (let s1 = upd_ctrl (\<lambda>c. c\<lparr>busyLinkBitmap := busyLinkBitmap c AND NOT freedLinkBitmap,
                              busyAcBitmap := busyAcBitmap c AND NOT freedAcBitmap\<rparr>) s
      in case busy_tids (txCtrl s1) (busyAcBitmap (txCtrl s1)) of
           None \<Rightarrow> None
         | Some busyTids \<Rightarrow>
            (let s2 = upd_ctrl (\<lambda>c. c\<lparr>busyTidBitmap := busyTids\<rparr>) s1
             in Option.bind (txMgmtQ_UpdateBusyMap TI_DBG ops busyTids (busyLinkBitmap (txCtrl s2)) s2)
                  (\<lambda>s3. txDataQ_UpdateBusyMap TI_DBG ops busyTids (busyLinkBitmap (txCtrl s3)) s3)))"

definition txCtrl_UpdateQueuesMapping :: "bool \<Rightarrow> 'w twd_ops \<Rightarrow> 'w TxState \<Rightarrow> 'w TxState option" where
  "txCtrl_UpdateQueuesMapping TI_DBG ops s =
     txCtrl_UpdateBackpressure TI_DBG ops 0 0
       (upd_ctrl (\<lambda>c. txCtrl_UpdateAcToTidMapping (txCtrl_UpdateHighestAdmittedAcTable c)) s)"

text \<open>
  The completion of a packet: the firmware has sent it or given it up, and it is freed.
\<close>

definition txCtrl_TxCompleteCb :: "ptr \<Rightarrow> 'w TxState \<Rightarrow> 'w TxState option" where
  "txCtrl_TxCompleteCb p s = txCtrl_FreePacket p TI_OK (s\<lparr>inFw := remove1 p (inFw s)\<rparr>)"


section \<open>Creation and destruction\<close>

text \<open>
  The queues of a module are created one after the other.  If the memory for one is refused the module
  object is freed although its handle stays in use: \<open>None\<close>.
\<close>

definition create_queue :: "ptr \<Rightarrow> ptr \<Rightarrow> ptr \<Rightarrow> qid \<Rightarrow> u32 \<Rightarrow> 'w TxState \<Rightarrow> 'w TxState option" where
  "create_queue pQue os report k limit s =
     map_option (\<lambda>(h', q). s\<lparr>links := h', queues := (queues s)(k \<mapsto> q)\<rparr>)
       (que_Create pQue (links s) os report limit off_tTxnQNode)"

primrec create_queues ::
  "(qid \<Rightarrow> ptr) \<Rightarrow> ptr \<Rightarrow> ptr \<Rightarrow> (qid \<times> u32) list \<Rightarrow> 'w TxState \<Rightarrow> 'w TxState option" where
  "create_queues pQue os report [] s = Some s"
| "create_queues pQue os report (kl # kls) s =
     Option.bind (create_queue (pQue (fst kl)) os report (fst kl) (snd kl) s) (create_queues pQue os report kls)"

text \<open>The module objects as \<^verbatim>\<open>os_memoryZero\<close> leaves them.\<close>

definition zero_dlink :: TDataLinkQ where
  "zero_dlink = \<lparr>eType = WLANLINK_TYPE_SPECIFIC, bBusy = False, bEnabled = False, bEncrypt = False,
     aQueueCounters = replicate MAX_NUM_OF_AC \<lparr>uEnqueuePacket = 0, uDequeuePacket = 0, uRequeuePacket = 0, uXmittedPacket = 0, uDroppedPacket = 0\<rparr>,
     aNetStackQueueStopped = replicate MAX_NUM_OF_AC False, cEncryptSize = 0\<rparr>"

definition zero_dbg :: TDbgCount where
  "zero_dbg = \<lparr>aEnqueuePackets = replicate NUM_OF_MGMT_QUEUES 0, aDequeuePackets = replicate NUM_OF_MGMT_QUEUES 0,
     aRequeuePackets = replicate NUM_OF_MGMT_QUEUES 0, aDroppedPackets = replicate NUM_OF_MGMT_QUEUES 0,
     aXmittedPackets = replicate NUM_OF_MGMT_QUEUES 0, uNoResources = 0\<rparr>"

definition zero_mlink :: TMgmtLinkQ where
  "zero_mlink = \<lparr>eType = WLANLINK_TYPE_SPECIFIC, bBusy = False, bEnabled = False, bEncrypt = False, eState = SM_STATE_CLOSE,
     eTxConnState = TX_CONN_STATE_CLOSE, bSendEvent_NotEmpty = False, aQenabled = replicate NUM_OF_MGMT_QUEUES False,
     tDbgCounters = zero_dbg\<rparr>"

definition zero_rsrc :: TDataResources where
  "zero_rsrc = \<lparr>uPktInUse_PerAc = replicate MAX_NUM_OF_AC 0, uMinGuarantee_PerAc = replicate MAX_NUM_OF_AC 0, uEffectiveTotal_Ac = 0,
     uEffectiveTotal_Ac_Min = 0, uPktInUse_PerLink = replicate WLANLINKS_MAX_LINKS 0, uMinGuarantee_PerLink = 0,
     uEffectiveTotal_Link = 0, uEffectiveTotal_Link_Min = 0, uMaxTotal = 0\<rparr>"

definition txDataQ_Create :: TTxDataQ where
  "txDataQ_Create = \<lparr>tClsfrParams = clsfr_zero, bDataPortEnable = False, uNumQueues = 0, aQueueMaxSize = replicate MAX_NUM_OF_AC 0,
     aTxSendPaceThresh = replicate MAX_NUM_OF_AC 0, uNextQueId = 0, aQueueBusy = replicate MAX_NUM_OF_AC False, bStopNetStackTx = False,
     aDataLinkQ = replicate WLANLINKS_MAX_LINKS zero_dlink, uBcastHlid = 0, uNextHlid = 0,
     aLinkMac = replicate WLANLINKS_MAX_LINKS \<lparr>uValid = False, tMacAddr = replicate MAC_ADDR_LEN 0\<rparr>, tDataRsrc = zero_rsrc,
     uClsfrMismatchCount = 0, uTxSendPaceTimeoutsCount = 0, uLinkNotFoundCount = 0, uNoResourcesCount = 0\<rparr>"

definition txMgmtQ_Create :: TTxMgmtQ where
  "txMgmtQ_Create = \<lparr>bMgmtPortEnable = False, aMgmtLinkQ = replicate WLANLINKS_MAX_LINKS zero_mlink, aMgmtAcBusy = False,
     uGlobalHlid = 0, uLastHlid = 0\<rparr>"

definition txCtrl_Create :: txCtrl_t where
  "txCtrl_Create = \<lparr>highestAdmittedAc = replicate MAX_NUM_OF_AC 0, admittedAcToTidMap = replicate MAX_NUM_OF_AC 0, busyAcBitmap = 0,
     busyLinkBitmap = 0, busyTidBitmap = 0, admissionState = replicate MAX_NUM_OF_AC AC_NOT_ADMITTED,
     admissionRequired = replicate MAX_NUM_OF_AC ADMISSION_NOT_REQUIRED, genericEthertype = 0\<rparr>"

definition data_depths :: "u32 list" where
  "data_depths = [DATA_QUEUE_DEPTH_BE, DATA_QUEUE_DEPTH_BK, DATA_QUEUE_DEPTH_VI, DATA_QUEUE_DEPTH_VO]"

definition txDataQ_Init :: "(qid \<Rightarrow> ptr) \<Rightarrow> ptr \<Rightarrow> ptr \<Rightarrow> 'w TxState \<Rightarrow> 'w TxState option" where
  "txDataQ_Init pQue os report s =
     map_option (upd_data (\<lambda>d. d\<lparr>aQueueBusy := map (\<lambda>_. False) [0..<MAX_NUM_OF_AC]\<rparr>))
       (create_queues pQue os report [(DataQ uHlid uQueId, data_depths ! uQueId). uHlid \<leftarrow> [0..<WLANLINKS_MAX_LINKS], uQueId \<leftarrow> [0..<MAX_NUM_OF_AC]]
         (upd_data (\<lambda>d. d\<lparr>bDataPortEnable := False, uNextQueId := 0, uNextHlid := 0, uNumQueues := of_nat MAX_NUM_OF_AC,
            aQueueMaxSize := data_depths, aTxSendPaceThresh := replicate MAX_NUM_OF_AC 1,
            aDataLinkQ := map (\<lambda>l. l\<lparr>bBusy := False, bEnabled := False, aNetStackQueueStopped := replicate MAX_NUM_OF_AC False\<rparr>) (aDataLinkQ d)\<rparr>) s))"

record txDataInitParams_t =
  pClsfrInit :: TClsfrParams
  pStopNetStackTx :: bool
  pTxSendPaceThresh :: u32
  pMinGuaranteedAc :: "u32 list"
  pMinGuaranteedLink :: u32

definition txDataQ_SetDefaults :: "bool \<Rightarrow> txDataInitParams_t \<Rightarrow> 'w TxState \<Rightarrow> TI_STATUS \<times> 'w TxState" where
  "txDataQ_SetDefaults TI_DBG i s =
     (case txDataClsfr_Config (tClsfrParams (dataQ s)) (pClsfrInit i) of (eStatus, c) \<Rightarrow>
        if eStatus \<noteq> TI_OK then (eStatus, upd_data (\<lambda>d. d\<lparr>tClsfrParams := c\<rparr>) s)
        else (TI_OK, upd_data (\<lambda>d. d\<lparr>tClsfrParams := c, bStopNetStackTx := pStopNetStackTx i,
          aTxSendPaceThresh := [pTxSendPaceThresh i, pTxSendPaceThresh i, pTxSendPaceThresh i, 1],
          tDataRsrc := txDataQ_InitResources TI_DBG (tDataRsrc d) (pMinGuaranteedAc i) (pMinGuaranteedLink i)\<rparr>) s))"

definition txMgmtQ_Init :: "(qid \<Rightarrow> ptr) \<Rightarrow> ptr \<Rightarrow> ptr \<Rightarrow> 'w TxState \<Rightarrow> 'w TxState option" where
  "txMgmtQ_Init pQue os report s =
     map_option (upd_mgmt (\<lambda>m. m\<lparr>uLastHlid := 0\<rparr>))
       (create_queues pQue os report [(MgmtQ uHlid uQueId, MGMT_QUEUES_DEPTH). uHlid \<leftarrow> [0..<WLANLINKS_MAX_LINKS], uQueId \<leftarrow> [0..<NUM_OF_MGMT_QUEUES]]
         (upd_mgmt (\<lambda>m. m\<lparr>bMgmtPortEnable := True, aMgmtAcBusy := False,
            aMgmtLinkQ := map (\<lambda>l. l\<lparr>eTxConnState := TX_CONN_STATE_CLOSE, eState := SM_STATE_CLOSE, bSendEvent_NotEmpty := False,
              bBusy := False, bEnabled := False, aQenabled := replicate NUM_OF_MGMT_QUEUES False\<rparr>) (aMgmtLinkQ m)\<rparr>) s))"

definition txCtrl_Init :: "'w TxState \<Rightarrow> 'w TxState" where
  "txCtrl_Init = upd_ctrl (\<lambda>c. c\<lparr>busyAcBitmap := 0, genericEthertype := ETHERTYPE_EAPOL,
     admissionState := replicate MAX_NUM_OF_AC AC_ADMITTED, admissionRequired := replicate MAX_NUM_OF_AC ADMISSION_NOT_REQUIRED\<rparr>)"

definition txCtrl_SetDefaults :: "bool \<Rightarrow> 'w twd_ops \<Rightarrow> 'w TxState \<Rightarrow> 'w TxState option" where
  "txCtrl_SetDefaults TI_DBG ops = txCtrl_UpdateQueuesMapping TI_DBG ops"

definition txCtrlParams_setAcAdmissionStatus ::
  "bool \<Rightarrow> 'w twd_ops \<Rightarrow> nat \<Rightarrow> EAdmissionState \<Rightarrow> ETrafficAdmState \<Rightarrow> 'w TxState \<Rightarrow> 'w TxState option" where
  "txCtrlParams_setAcAdmissionStatus TI_DBG ops ac required st s =
     txCtrl_UpdateQueuesMapping TI_DBG ops
       (upd_ctrl (\<lambda>c. c\<lparr>admissionRequired := (admissionRequired c)[ac := required], admissionState := (admissionState c)[ac := st]\<rparr>) s)"

text \<open>The queues are emptied, then destroyed; the module object is freed after that.\<close>

definition destroy_queue :: "qid \<Rightarrow> 'w TxState \<Rightarrow> 'w TxState" where
  "destroy_queue k s =
     (case queues s k of None \<Rightarrow> s | Some q \<Rightarrow> s\<lparr>links := que_Destroy (links s) q, queues := (queues s)(k := None)\<rparr>)"

definition txDataQ_Destroy :: "bool \<Rightarrow> 'w TxState \<Rightarrow> 'w TxState option" where
  "txDataQ_Destroy TI_DBG s =
     map_option (\<lambda>s1. fold destroy_queue [DataQ uHlid uQueId. uHlid \<leftarrow> [0..<WLANLINKS_MAX_LINKS], uQueId \<leftarrow> [0..<unat (uNumQueues (dataQ s1))]] s1)
       (txDataQ_ClearQueues TI_DBG s)"

definition txMgmtQ_Destroy :: "bool \<Rightarrow> 'w TxState \<Rightarrow> 'w TxState option" where
  "txMgmtQ_Destroy TI_DBG s =
     map_option (fold destroy_queue [MgmtQ uHlid uQueId. uHlid \<leftarrow> [0..<WLANLINKS_MAX_LINKS], uQueId \<leftarrow> [0..<NUM_OF_MGMT_QUEUES]])
       (txMgmtQ_ClearQueues TI_DBG s)"

definition txDataQ_ResetQueueStatistics :: "'w TxState \<Rightarrow> 'w TxState" where
  "txDataQ_ResetQueueStatistics = upd_data (\<lambda>d. d\<lparr>uTxSendPaceTimeoutsCount := 0,
     aDataLinkQ := map (\<lambda>l. l\<lparr>aQueueCounters := aQueueCounters zero_dlink\<rparr>) (aDataLinkQ d)\<rparr>)"

definition txMgmtQ_ResetQueueStatistics :: "'w TxState \<Rightarrow> 'w TxState" where
  "txMgmtQ_ResetQueueStatistics = upd_mgmt (\<lambda>m. m\<lparr>aMgmtLinkQ := map (\<lambda>l. l\<lparr>tDbgCounters := zero_dbg\<rparr>) (aMgmtLinkQ m)\<rparr>)"

end
