(* ===== verification/TxFlow.thy ===== *)
theory TxFlow
  imports TxMgmt
begin

text \<open>
  The flow of packets through the transmit path: where the packets are, that each is in one place, that
  the resource tables count them, and that the schedulers end and transmit only on links that are open
  to them.
\<close>

section \<open>The invariant\<close>

definition items :: "'w TxState \<Rightarrow> qid \<Rightarrow> ptr list" where
  "items s = fam_items (links s) (queues s)"

definition qids :: "qid list" where
  "qids = [MgmtQ h q. h \<leftarrow> [0..<WLANLINKS_MAX_LINKS], q \<leftarrow> [0..<NUM_OF_MGMT_QUEUES]] @
          [DataQ h q. h \<leftarrow> [0..<WLANLINKS_MAX_LINKS], q \<leftarrow> [0..<MAX_NUM_OF_AC]]"

definition qset :: "'w TxState \<Rightarrow> ptr set" where
  "qset s = (\<Union>k. set (items s k))"

text \<open>
  The packets of the transmit path: queued, at the firmware, or in the hands of the operation that is
  running (\<open>H\<close>).
\<close>

definition own :: "ptr list \<Rightarrow> 'w TxState \<Rightarrow> ptr set" where
  "own H s = set H \<union> set (inFw s) \<union> qset s"

definition pk_ok :: "TTxCtrlBlk \<Rightarrow> bool" where
  "pk_ok pkt \<longleftrightarrow> unat (tid pkt) < 8 \<and> unat (hlid pkt) < 7 \<and> IS_TX_CTRL_FLAG_RSRC_ALLOCATED pkt \<and>
     (\<exists>b. buf pkt 0 = Some b \<and> 14 \<le> length b)"

fun place_ok :: "qid \<Rightarrow> TTxCtrlBlk \<Rightarrow> bool" where
  "place_ok (MgmtQ h q) pkt \<longleftrightarrow> unat (hlid pkt) = h \<and> (q = 0 \<longleftrightarrow> uPktType pkt = TX_PKT_TYPE_MGMT)"
| "place_ok (DataQ h q) pkt \<longleftrightarrow> unat (hlid pkt) = h"

definition held :: "ptr list \<Rightarrow> 'w TxState \<Rightarrow> (nat \<times> nat) multiset" where
  "held H s = image_mset (\<lambda>p. rsrc_class (pkts s p)) (mset_set (own H s))"

definition core :: "ptr list \<Rightarrow> 'w TxState \<Rightarrow> bool" where
  "core H s \<longleftrightarrow> fam_ok 0 (links s) (queues s) \<and> (\<forall>k. queues s k = None \<longleftrightarrow> k \<notin> set qids) \<and>
     distinct (H @ inFw s) \<and> (set H \<union> set (inFw s)) \<inter> qset s = {} \<and>
     (\<forall>p \<in> own H s. pk_ok (pkts s p) \<and> fam_valid 0 (queues s) p) \<and>
     (\<forall>k. \<forall>p \<in> set (items s k). place_ok k (pkts s p)) \<and> rsrc_inv (tDataRsrc (dataQ s)) (held H s)"

definition data_ok :: "TTxDataQ \<Rightarrow> bool" where
  "data_ok d \<longleftrightarrow> length (aDataLinkQ d) = 7 \<and> uNumQueues d = 4 \<and> unat (uNextHlid d) \<le> 7 \<and> unat (uNextQueId d) \<le> 4 \<and>
     unat (uBcastHlid d) < 7 \<and> clsfr_ok (tClsfrParams d)"

definition mgmt_ok :: "TTxMgmtQ \<Rightarrow> bool" where
  "mgmt_ok m \<longleftrightarrow> length (aMgmtLinkQ m) = 7 \<and> unat (uGlobalHlid m) < 7"

definition ctrl_ok :: "txCtrl_t \<Rightarrow> bool" where
  "ctrl_ok c \<longleftrightarrow> length (highestAdmittedAc c) = 4 \<and> (\<forall>a \<in> set (highestAdmittedAc c). a < 4) \<and> busyAcBitmap c < 16"

definition tx_ok :: "ptr list \<Rightarrow> 'w TxState \<Rightarrow> bool" where
  "tx_ok H s \<longleftrightarrow> core H s \<and> data_ok (dataQ s) \<and> mgmt_ok (mgmtQ s) \<and> ctrl_ok (txCtrl s)"

lemma qids_set: "set qids = {MgmtQ h q | h q. h < 7 \<and> q < 2} \<union> {DataQ h q | h q. h < 7 \<and> q < 4}"
  by (auto simp: qids_def)

lemma qids_mem [simp]: "MgmtQ h q \<in> set qids \<longleftrightarrow> h < 7 \<and> q < 2" "DataQ h q \<in> set qids \<longleftrightarrow> h < 7 \<and> q < 4"
  by (auto simp: qids_set)

lemma core_cong:
  assumes "core H s" and "links s' = links s" "queues s' = queues s" "pkts s' = pkts s" "inFw s' = inFw s"
    and "tDataRsrc (dataQ s') = tDataRsrc (dataQ s)"
  shows "core H s'"
proof -
  have "items s' = items s" using assms by (simp add: items_def)
  then have "qset s' = qset s" "own H s' = own H s" using assms by (simp_all add: qset_def own_def)
  then show ?thesis using assms by (simp add: core_def held_def items_def)
qed

lemma tx_coreD:
  assumes "core H s"
  shows "fam_ok 0 (links s) (queues s)" "k \<in> set qids \<Longrightarrow> \<exists>q. queues s k = Some q"
    "p \<in> own H s \<Longrightarrow> pk_ok (pkts s p)" "p \<in> own H s \<Longrightarrow> fam_valid 0 (queues s) p"
    "p \<in> set (items s k) \<Longrightarrow> place_ok k (pkts s p)" "rsrc_inv (tDataRsrc (dataQ s)) (held H s)"
    "distinct (H @ inFw s)" "(set H \<union> set (inFw s)) \<inter> qset s = {}" "queues s k = None \<longleftrightarrow> k \<notin> set qids"
  using assms by (auto simp: core_def)

lemma items_distinct: "core H s \<Longrightarrow> distinct (items s k)"
  using fam_items_distinct [OF tx_coreD(1)] by (auto simp: items_def)

lemma items_disjoint: "core H s \<Longrightarrow> x \<in> set (items s k) \<Longrightarrow> x \<in> set (items s l) \<Longrightarrow> k = l"
  using fam_items_disjoint [OF tx_coreD(1)] by (auto simp: items_def)

lemma items_qids: "core H s \<Longrightarrow> x \<in> set (items s k) \<Longrightarrow> k \<in> set qids"
  using tx_coreD(9) [of H s k] by (auto simp: items_def fam_items_def split: option.splits)

text \<open>The packets change place, and only their places change.\<close>

lemma core_move:
  assumes c: "core H s" and own: "own H' s' = own H s" and i: "items s' = its"
    and f: "fam_ok 0 (links s') (queues s')" "fam_params (queues s') = fam_params (queues s)"
    and d: "distinct (H' @ inFw s')" "(set H' \<union> set (inFw s')) \<inter> (\<Union>k. set (its k)) = {}"
    and p: "\<And>k p. p \<in> set (its k) \<Longrightarrow> place_ok k (pkts s p)"
    and u: "pkts s' = pkts s" "tDataRsrc (dataQ s') = tDataRsrc (dataQ s)"
  shows "core H' s'"
proof -
  have "qset s' = (\<Union>k. set (its k))" using i by (simp add: qset_def)
  moreover have "held H' s' = held H s" using own u by (simp add: held_def)
  moreover have "fam_valid 0 (queues s') = fam_valid 0 (queues s)" by (rule fam_params_valid [OF f(2)])
  moreover have "queues s' k = None \<longleftrightarrow> queues s k = None" for k by (rule fam_params_None [OF f(2)])
  ultimately show ?thesis using c own i f(1) d p u by (simp add: core_def)
qed

lemma dequeue_core:
  assumes c: "core H s" and k: "k \<in> set qids"
  obtains (none) "items s k = []" "dequeue True k s = Some (NULL, s)"
  | (some) x xs h qs where "items s k = x # xs" "dequeue True k s = Some (x, s\<lparr>links := h, queues := qs\<rparr>)" "x \<noteq> NULL"
      "core (x # H) (s\<lparr>links := h, queues := qs\<rparr>)" "items (s\<lparr>links := h, queues := qs\<rparr>) = (items s)(k := xs)"
      "own (x # H) (s\<lparr>links := h, queues := qs\<rparr>) = own H s" "place_ok k (pkts s x)"
      "\<not> fam_full qs k" "qset (s\<lparr>links := h, queues := qs\<rparr>) = qset s - {x}" "x \<in> qset s"
proof -
  note ok = tx_coreD(1) [OF c]
  obtain q where q: "queues s k = Some q" using tx_coreD(2) [OF c k] by blast
  from fam_Dequeue_spec [OF ok q] obtain x h qs where
      d: "fam_Dequeue True (links s) (queues s) k = Some (x, h, qs)" and f: "fam_ok 0 h qs" "fam_params qs = fam_params (queues s)"
      and v: "case fam_items (links s) (queues s) k of
         [] \<Rightarrow> x = NULL \<and> h = links s \<and> qs = queues s
       | i # js \<Rightarrow> x = i \<and> x \<noteq> NULL \<and> fam_valid 0 (queues s) x \<and> fam_items h qs = (fam_items (links s) (queues s))(k := js)"
    by blast
  let ?s = "s\<lparr>links := h, queues := qs\<rparr>"
  have r: "dequeue True k s = Some (x, ?s)" by (simp add: dequeue_def d)
  show ?thesis
  proof (cases "items s k")
    case Nil
    then have "x = NULL" "?s = s" using v by (simp_all add: items_def)
    then show ?thesis using none [OF Nil] r by simp
  next
    case (Cons i js)
    then have x: "x = i" "x \<noteq> NULL" and it: "items ?s = (items s)(k := js)" using v by (auto simp: items_def)
    have xk: "x \<in> set (items s k)" using Cons x by simp
    have nj: "x \<notin> set js" using items_distinct [OF c, of k] Cons x by simp
    have qs: "qset ?s = qset s - {x}"
    proof -
      have "x \<notin> set (items s l)" if "l \<noteq> k" for l using items_disjoint [OF c xk, of l] that by auto
      then show ?thesis using it Cons x nj by (auto simp: qset_def split: if_splits) (metis list.set_intros(1) set_ConsD)
    qed
    have xq: "x \<in> qset s" using xk by (auto simp: qset_def)
    have xo: "x \<notin> set H" "x \<notin> set (inFw s)" using xq tx_coreD(8) [OF c] by auto
    have own: "own (x # H) ?s = own H s" using xq by (auto simp: own_def qs)
    have pl: "\<And>l p. p \<in> set (((items s)(k := js)) l) \<Longrightarrow> place_ok l (pkts s p)"
      using tx_coreD(5) [OF c] Cons by (auto split: if_splits)
    have "core (x # H) ?s"
    proof (rule core_move [OF c own it _ _ _ _ pl])
      show "distinct ((x # H) @ inFw ?s)" using tx_coreD(7) [OF c] xo by simp
      have "(\<Union>l. set (((items s)(k := js)) l)) = qset s - {x}" using qs it by (simp add: qset_def)
      then show "(set (x # H) \<union> set (inFw ?s)) \<inter> (\<Union>l. set (((items s)(k := js)) l)) = {}"
        using tx_coreD(8) [OF c] by auto
    qed (use f in simp_all)
    moreover have "\<not> fam_full qs k"
    proof -
      obtain q' where q': "qs k = Some q'" using fam_params_None [OF f(2), of k] q by auto
      have "fam_params qs k = fam_params (queues s) k" using f(2) by simp
      then have "uLimit q' = uLimit q" using q q' by (simp add: fam_params_def)
      moreover have "unat (uCount q') = length js" using fam_count [OF f(1) q'] it by (simp add: items_def)
      moreover have "unat (uCount q) = Suc (length js)" using fam_count [OF ok q] Cons by (simp add: items_def)
      moreover have "uCount q \<le> uLimit q" using fam_okD(1) [OF ok q] by (simp add: que_wf_def)
      ultimately show ?thesis using q' by (simp add: fam_full_def word_le_nat_alt)
    qed
    ultimately show ?thesis
      using some [OF _ r x(2) _ it own] Cons x(1) xk tx_coreD(5) [OF c xk] qs xq by simp
  qed
qed


lemma requeue_core:
  assumes c: "core (x # H) s" and k: "k \<in> set qids" and nf: "\<not> fam_full (queues s) k" and pl: "place_ok k (pkts s x)"
  obtains h qs where "requeue True k x s = Some (TI_OK, s\<lparr>links := h, queues := qs\<rparr>)"
    "core H (s\<lparr>links := h, queues := qs\<rparr>)" "items (s\<lparr>links := h, queues := qs\<rparr>) = (items s)(k := x # items s k)"
    "own H (s\<lparr>links := h, queues := qs\<rparr>) = own (x # H) s"
proof -
  note ok = tx_coreD(1) [OF c]
  obtain q where q: "queues s k = Some q" using tx_coreD(2) [OF c k] by blast
  have v: "fam_valid 0 (queues s) x" using tx_coreD(4) [OF c, of x] by (simp add: own_def)
  have nq: "x \<notin> qset s" using tx_coreD(8) [OF c] by auto
  then have "\<not> fam_queued (links s) (queues s) x" by (auto simp: qset_def fam_queued_def items_def)
  then obtain h qs where
      d: "fam_Requeue True (links s) (queues s) k x = Some (TI_OK, h, qs)" and f: "fam_ok 0 h qs" "fam_params qs = fam_params (queues s)"
      and it: "fam_items h qs = (fam_items (links s) (queues s))(k := x # fam_items (links s) (queues s) k)"
    using fam_Requeue_spec [OF ok v q, of True] nf by auto
  let ?s = "s\<lparr>links := h, queues := qs\<rparr>"
  have r: "requeue True k x s = Some (TI_OK, ?s)" by (simp add: requeue_def d)
  have it': "items ?s = (items s)(k := x # items s k)" using it by (simp add: items_def)
  have qs: "qset ?s = insert x (qset s)" unfolding qset_def it' by (auto split: if_splits)
  have own: "own H ?s = own (x # H) s" by (auto simp: own_def qs)
  have "core H ?s"
  proof (rule core_move [OF c own it'])
    show "distinct (H @ inFw ?s)" using tx_coreD(7) [OF c] by simp
    show "(set H \<union> set (inFw ?s)) \<inter> (\<Union>l. set (((items s)(k := x # items s k)) l)) = {}"
      using tx_coreD(7,8) [OF c] qs it' by (auto simp: qset_def)
    show "place_ok l (pkts s p)" if "p \<in> set (((items s)(k := x # items s k)) l)" for l p
      using that tx_coreD(5) [OF c] pl by (auto split: if_splits)
  qed (use f in simp_all)
  then show ?thesis using that r it' own by blast
qed

lemma enqueue_core:
  assumes c: "core (x # H) s" and k: "k \<in> set qids" and pl: "place_ok k (pkts s x)"
  obtains (full) h qs where "enqueue True k x s = Some (TI_NOK, s\<lparr>links := h, queues := qs\<rparr>)"
      "core (x # H) (s\<lparr>links := h, queues := qs\<rparr>)" "items (s\<lparr>links := h, queues := qs\<rparr>) = items s" "fam_full (queues s) k"
  | (queued) h qs where "enqueue True k x s = Some (TI_OK, s\<lparr>links := h, queues := qs\<rparr>)"
    "core H (s\<lparr>links := h, queues := qs\<rparr>)" "items (s\<lparr>links := h, queues := qs\<rparr>) = (items s)(k := items s k @ [x])"
    "own H (s\<lparr>links := h, queues := qs\<rparr>) = own (x # H) s" "\<not> fam_full (queues s) k"
proof -
  note ok = tx_coreD(1) [OF c]
  obtain q where q: "queues s k = Some q" using tx_coreD(2) [OF c k] by blast
  have v: "fam_valid 0 (queues s) x" using tx_coreD(4) [OF c, of x] by (simp add: own_def)
  have nq: "x \<notin> qset s" using tx_coreD(8) [OF c] by auto
  then have n: "\<not> fam_queued (links s) (queues s) x" by (auto simp: qset_def fam_queued_def items_def)
  from fam_Enqueue_spec [OF ok v q, of True] obtain st h qs where
      d: "fam_Enqueue True (links s) (queues s) k x = Some (st, h, qs)" and f: "fam_ok 0 h qs" "fam_params qs = fam_params (queues s)"
      and it: "if fam_full (queues s) k \<or> fam_queued (links s) (queues s) x then st = TI_NOK \<and> fam_items h qs = fam_items (links s) (queues s)
     else st = TI_OK \<and> fam_items h qs = (fam_items (links s) (queues s))(k := fam_items (links s) (queues s) k @ [x])"
    by blast
  let ?s = "s\<lparr>links := h, queues := qs\<rparr>"
  have r: "enqueue True k x s = Some (st, ?s)" by (simp add: enqueue_def d)
  show ?thesis
  proof (cases "fam_full (queues s) k")
    case True
    then have it': "items ?s = items s" "st = TI_NOK" using it by (simp_all add: items_def)
    then have own: "own (x # H) ?s = own (x # H) s" by (simp add: own_def qset_def)
    have "core (x # H) ?s"
      by (rule core_move [OF c own it'(1)])
        (use f tx_coreD(5,7,8) [OF c] in \<open>simp_all add: qset_def [symmetric]\<close>)
    then show ?thesis using full [OF _ _ it'(1) True] r it'(2) by simp
  next
    case False
    then have it': "items ?s = (items s)(k := items s k @ [x])" "st = TI_OK" using it n by (simp_all add: items_def)
    have qs: "qset ?s = insert x (qset s)" unfolding qset_def it' by (auto split: if_splits)
    have own: "own H ?s = own (x # H) s" by (auto simp: own_def qs)
    have "core H ?s"
    proof (rule core_move [OF c own it'(1)])
      show "distinct (H @ inFw ?s)" using tx_coreD(7) [OF c] by simp
      show "(set H \<union> set (inFw ?s)) \<inter> (\<Union>l. set (((items s)(k := items s k @ [x])) l)) = {}"
        using tx_coreD(7,8) [OF c] qs it' by (auto simp: qset_def)
      show "place_ok l (pkts s p)" if "p \<in> set (((items s)(k := items s k @ [x])) l)" for l p
        using that tx_coreD(5) [OF c] pl by (auto split: if_splits)
    qed (use f in simp_all)
    then show ?thesis using queued [OF _ _ it'(1) own False] r it'(2) by simp
  qed
qed

lemma qset_finite: "core H s \<Longrightarrow> finite (qset s)"
proof -
  assume c: "core H s"
  have "qset s = (\<Union>k \<in> set qids. set (items s k))" using items_qids [OF c] by (auto simp: qset_def)
  then show ?thesis by simp
qed

lemma own_finite [simp]: "core H s \<Longrightarrow> finite (own H s)"
  by (simp add: own_def qset_finite)

text \<open>A packet in hand is accounted for once.\<close>

lemma own_Cons:
  assumes "core (x # H) s"
  shows "own (x # H) s = insert x (own H s)" "x \<notin> own H s" "mset_set (own (x # H) s) = add_mset x (mset_set (own H s))"
    "held (x # H) s = add_mset (rsrc_class (pkts s x)) (held H s)"
proof -
  show 1: "own (x # H) s = insert x (own H s)" by (auto simp: own_def)
  show 2: "x \<notin> own H s" using tx_coreD(7,8) [OF assms] by (auto simp: own_def)
  have "finite (own H s)" using own_finite [OF assms] 1 by simp
  then show 3: "mset_set (own (x # H) s) = add_mset x (mset_set (own H s))" using 1 2 by simp
  then show "held (x # H) s = add_mset (rsrc_class (pkts s x)) (held H s)" by (simp add: held_def)
qed

lemma FreePacket_core:
  assumes c: "core (x # H) s"
  obtains r where "txCtrl_FreePacket x st s = Some (emit (Freed x st) (upd_data (\<lambda>d. d\<lparr>tDataRsrc := r\<rparr>) s))"
    "core H (emit (Freed x st) (upd_data (\<lambda>d. d\<lparr>tDataRsrc := r\<rparr>) s))"
proof -
  have p: "IS_TX_CTRL_FLAG_RSRC_ALLOCATED (pkts s x)" using tx_coreD(3) [OF c, of x] by (simp add: own_def pk_ok_def)
  obtain r where r: "txDataQ_FreeResources (tDataRsrc (dataQ s)) (pkts s x) = Some r" "rsrc_inv r (held H s)"
    using rsrc_release [OF tx_coreD(6) [OF c, unfolded own_Cons(4) [OF c]] p] by metis
  let ?s = "emit (Freed x st) (upd_data (\<lambda>d. d\<lparr>tDataRsrc := r\<rparr>) s)"
  have i: "items ?s = items s" by (simp add: items_def emit_def upd_data_def)
  then have q: "qset ?s = qset s" by (simp add: qset_def)
  have o: "own H ?s = own H s" using q by (simp add: own_def emit_def upd_data_def)
  have "core H ?s"
    using c r(2) own_Cons(1) [OF c] unfolding core_def i q o held_def
    by (simp add: emit_def upd_data_def)
  then show ?thesis using that r by (simp add: txCtrl_FreePacket_def)
qed


section \<open>Changes that leave the packets where they are\<close>

definition same_class :: "TTxCtrlBlk \<Rightarrow> TTxCtrlBlk \<Rightarrow> bool" where
  "same_class a b \<longleftrightarrow> hlid b = hlid a \<and> uPktType b = uPktType a \<and> rsrc_class b = rsrc_class a \<and> (pk_ok a \<longrightarrow> pk_ok b)"

text \<open>Which links are open to which queues, and in which state they are.\<close>

definition gates :: "'w TxState \<Rightarrow> bool list \<times> (bool \<times> ESmState \<times> bool list) list \<times> bool \<times> bool" where
  "gates s = (map bEnabled (aDataLinkQ (dataQ s)), map (\<lambda>l. (bEnabled l, eState l, aQenabled l)) (aMgmtLinkQ (mgmtQ s)),
     bDataPortEnable (dataQ s), bMgmtPortEnable (mgmtQ s))"

definition oks :: "'w TxState \<Rightarrow> bool" where
  "oks s \<longleftrightarrow> data_ok (dataQ s) \<and> mgmt_ok (mgmtQ s) \<and> ctrl_ok (txCtrl s)"

definition calm :: "'w TxState \<Rightarrow> 'w TxState \<Rightarrow> bool" where
  "calm s s' \<longleftrightarrow> links s' = links s \<and> queues s' = queues s \<and> inFw s' = inFw s \<and> log s' = log s \<and>
     (\<forall>p. same_class (pkts s p) (pkts s' p)) \<and> tDataRsrc (dataQ s') = tDataRsrc (dataQ s) \<and> gates s' = gates s \<and>
     (oks s \<longrightarrow> oks s')"

lemma tx_ok_oks: "tx_ok H s \<longleftrightarrow> core H s \<and> oks s"
  by (auto simp: tx_ok_def oks_def)

lemma same_class_refl [simp]: "same_class a a"
  by (simp add: same_class_def)

lemma same_class_trans: "same_class a b \<Longrightarrow> same_class b c \<Longrightarrow> same_class a c"
  by (auto simp: same_class_def)

lemma same_class_place: "same_class a b \<Longrightarrow> place_ok k b \<longleftrightarrow> place_ok k a"
  by (cases k) (auto simp: same_class_def)

lemma calm_refl [simp]: "calm s s"
  by (simp add: calm_def)

lemma calm_trans: "calm s t \<Longrightarrow> calm t u \<Longrightarrow> calm s u"
  by (auto simp: calm_def intro: same_class_trans)

lemma calm_items: "calm s s' \<Longrightarrow> items s' = items s" "calm s s' \<Longrightarrow> qset s' = qset s" "calm s s' \<Longrightarrow> own H s' = own H s"
  by (simp_all add: calm_def items_def qset_def own_def)

lemma calm_core:
  assumes c: "core H s" and "calm s s'"
  shows "core H s'"
proof -
  have p: "\<And>p. same_class (pkts s p) (pkts s' p)" using assms(2) by (simp add: calm_def)
  have "held H s' = held H s"
    unfolding held_def calm_items(3) [OF assms(2)] by (rule image_mset_cong) (use p in \<open>simp add: same_class_def\<close>)
  moreover have "\<And>p. pk_ok (pkts s p) \<Longrightarrow> pk_ok (pkts s' p)" using p by (auto simp: same_class_def)
  moreover have "\<And>k p. place_ok k (pkts s' p) \<longleftrightarrow> place_ok k (pkts s p)" using same_class_place [OF p] .
  ultimately show ?thesis
    using c assms(2) unfolding core_def calm_items [OF assms(2)] by (auto simp: calm_def)
qed

lemma calm_tx_ok: "tx_ok H s \<Longrightarrow> calm s s' \<Longrightarrow> tx_ok H s'"
  using calm_core by (auto simp: tx_ok_oks) (auto simp: calm_def)

lemma calm_upd_ctrl: "(\<And>c. ctrl_ok c \<Longrightarrow> ctrl_ok (f c)) \<Longrightarrow> calm s (upd_ctrl f s)"
  by (auto simp: calm_def upd_ctrl_def gates_def oks_def)

lemma calm_twd [simp]: "calm s (s\<lparr>twd := w\<rparr>)"
  by (auto simp: calm_def gates_def oks_def)

lemma calm_upd_pkt: "same_class (pkts s p) (f (pkts s p)) \<Longrightarrow> calm s (upd_pkt p f s)"
  by (auto simp: calm_def upd_pkt_def gates_def oks_def)

lemma calm_upd_data:
  "(\<And>d. data_ok d \<Longrightarrow> data_ok (f d)) \<Longrightarrow> (\<And>d. tDataRsrc (f d) = tDataRsrc d) \<Longrightarrow>
   (\<And>d. map bEnabled (aDataLinkQ (f d)) = map bEnabled (aDataLinkQ d)) \<Longrightarrow> (\<And>d. bDataPortEnable (f d) = bDataPortEnable d) \<Longrightarrow>
   calm s (upd_data f s)"
  by (auto simp: calm_def upd_data_def gates_def oks_def)

lemma calm_upd_mgmt:
  "(\<And>d. mgmt_ok d \<Longrightarrow> mgmt_ok (f d)) \<Longrightarrow> 
   (\<And>d. map (\<lambda>l. (bEnabled l, eState l, aQenabled l)) (aMgmtLinkQ (f d)) = map (\<lambda>l. (bEnabled l, eState l, aQenabled l)) (aMgmtLinkQ d)) \<Longrightarrow>
   (\<And>d. bMgmtPortEnable (f d) = bMgmtPortEnable d) \<Longrightarrow> calm s (upd_mgmt f s)"
  by (auto simp: calm_def upd_mgmt_def gates_def oks_def)

lemma map_upd_same: "f (g (xs ! i)) = f (xs ! i) \<Longrightarrow> map f (xs[i := g (xs ! i)]) = map f xs"
  by (cases "i < length xs") (simp_all add: map_update list_update_same_conv list_update_beyond)

lemma calm_upd_dlink: "(\<And>l. bEnabled (f l) = bEnabled l) \<Longrightarrow> calm s (upd_dlink h f s)"
  unfolding upd_dlink_def by (rule calm_upd_data) (auto simp: data_ok_def intro!: map_upd_same)

lemma calm_upd_mlink:
  "(\<And>l. bEnabled (f l) = bEnabled l) \<Longrightarrow> (\<And>l. eState (f l) = eState l) \<Longrightarrow> (\<And>l. aQenabled (f l) = aQenabled l) \<Longrightarrow>
   calm s (upd_mlink h f s)"
  unfolding upd_mlink_def by (rule calm_upd_mgmt) (auto simp: mgmt_ok_def intro!: map_upd_same)

lemma calm_fold: "(\<And>h s. calm s (f h s)) \<Longrightarrow> calm s (fold f hs s)"
  by (induction hs arbitrary: s) (auto intro: calm_trans)

lemma calm_count_data [simp]: "calm s (count_data d h q f s)"
  by (auto simp: count_data_def intro: calm_upd_dlink)

lemma calm_count_mgmt [simp]: "calm s (count_mgmt h f s)"
  by (auto simp: count_mgmt_def intro: calm_upd_mlink)

lemma calm_StopLink [simp]: "calm s (txDataQ_StopLink h s)" "calm s (txMgmtQ_StopLink h s)"
  by (auto simp: txDataQ_StopLink_def txMgmtQ_StopLink_def intro!: calm_upd_dlink calm_upd_mlink)

lemma calm_StopQueue [simp]: "calm s (txDataQ_UpdateQueuesBusyState b s)" "calm s (txDataQ_StopQueue b s)"
    "calm s (updateQueuesBusyMap b s)" "calm s (txMgmtQ_StopQueue b s)"
  by (auto simp: txDataQ_StopQueue_def txMgmtQ_StopQueue_def txDataQ_UpdateQueuesBusyState_def updateQueuesBusyMap_def data_ok_def
      mgmt_ok_def intro!: calm_upd_data calm_upd_mgmt)

lemma calm_LinksBusy [simp]: "calm s (txDataQ_UpdateLinksBusyState b s)" "calm s (updateLinksBusyMap b s)"
  by (auto simp: txDataQ_UpdateLinksBusyState_def updateLinksBusyMap_def intro!: calm_fold calm_upd_dlink calm_upd_mlink)


section \<open>Flow\<close>

text \<open>
  Between \<open>s\<close> and \<open>s'\<close> packets are moved, handed over and freed, and nothing else is gained or lost; every
  transmission is one that the links allow.
\<close>

definition ev_ok :: "'w TxState \<Rightarrow> tx_event \<Rightarrow> bool" where
  "ev_ok s e \<longleftrightarrow>
     (case e of
        SentData p h ty st \<Rightarrow> h < 7 \<and> bDataPortEnable (dataQ s) \<and> bEnabled (dlink s h) \<and> st = eState (mlink s h)
      | SentMgmt p h ty st \<Rightarrow> h < 7 \<and> bMgmtPortEnable (mgmtQ s) \<and> bEnabled (mlink s h) \<and> st = eState (mlink s h) \<and>
          (\<exists>q < 2. aQenabled (mlink s h) ! q \<and> (q = 0 \<longleftrightarrow> ty = TX_PKT_TYPE_MGMT))
      | _ \<Rightarrow> True)"

definition ev_freed :: "tx_event \<Rightarrow> ptr list" where
  "ev_freed e = (case e of Freed p st \<Rightarrow> [p] | _ \<Rightarrow> [])"

definition freed :: "tx_event list \<Rightarrow> ptr multiset" where
  "freed evs = mset (concat (map ev_freed evs))"

definition flow :: "qid set \<Rightarrow> ptr list \<Rightarrow> 'w TxState \<Rightarrow> ptr list \<Rightarrow> 'w TxState \<Rightarrow> bool" where
  "flow K H s H' s' \<longleftrightarrow> tx_ok H' s' \<and> gates s' = gates s \<and> (\<forall>k. k \<notin> K \<longrightarrow> items s' k = items s k) \<and>
     (\<exists>evs. log s' = log s @ evs \<and> mset_set (own H s) = mset_set (own H' s') + freed evs \<and> (\<forall>e \<in> set evs. ev_ok s e))"

lemma freed_simps [simp]: "freed [] = {#}" "freed (es @ es') = freed es + freed es'"
  by (simp_all add: freed_def)

lemma gates_link:
  assumes "gates s' = gates s" and "oks s" and "oks s'"
  shows "bDataPortEnable (dataQ s') = bDataPortEnable (dataQ s)" "bMgmtPortEnable (mgmtQ s') = bMgmtPortEnable (mgmtQ s)"
    "h < 7 \<Longrightarrow> bEnabled (dlink s' h) = bEnabled (dlink s h)" "h < 7 \<Longrightarrow> bEnabled (mlink s' h) = bEnabled (mlink s h)"
    "h < 7 \<Longrightarrow> eState (mlink s' h) = eState (mlink s h)" "h < 7 \<Longrightarrow> aQenabled (mlink s' h) = aQenabled (mlink s h)"
proof -
  have l: "length (aDataLinkQ (dataQ s)) = 7" "length (aDataLinkQ (dataQ s')) = 7"
    "length (aMgmtLinkQ (mgmtQ s)) = 7" "length (aMgmtLinkQ (mgmtQ s')) = 7"
    using assms(2,3) by (simp_all add: oks_def data_ok_def mgmt_ok_def)
  let ?f = "\<lambda>l :: TMgmtLinkQ. (bEnabled l, eState l, aQenabled l)"
  have d: "map bEnabled (aDataLinkQ (dataQ s')) = map bEnabled (aDataLinkQ (dataQ s))"
    and m: "map ?f (aMgmtLinkQ (mgmtQ s')) = map ?f (aMgmtLinkQ (mgmtQ s))"
    using assms(1) by (simp_all add: gates_def)
  show "h < 7 \<Longrightarrow> bEnabled (dlink s' h) = bEnabled (dlink s h)"
    using arg_cong [OF d, of "\<lambda>xs. xs ! h"] l by (simp add: dlink_def)
  show "h < 7 \<Longrightarrow> bEnabled (mlink s' h) = bEnabled (mlink s h)" "h < 7 \<Longrightarrow> eState (mlink s' h) = eState (mlink s h)"
    "h < 7 \<Longrightarrow> aQenabled (mlink s' h) = aQenabled (mlink s h)"
    using arg_cong [OF m, of "\<lambda>xs. xs ! h"] l by (simp_all add: mlink_def)
qed (use assms(1) in \<open>simp_all add: gates_def\<close>)

lemma ev_ok_gates: "gates s' = gates s \<Longrightarrow> oks s \<Longrightarrow> oks s' \<Longrightarrow> ev_ok s' e \<longleftrightarrow> ev_ok s e"
  using gates_link [of s' s] by (auto simp: ev_ok_def split: tx_event.splits)

lemma flow_trans:
  assumes "tx_ok H s" and "flow K H s H' s'" and "flow K H' s' H'' s''"
  shows "flow K H s H'' s''"
proof -
  have ok: "oks s" "oks s'" using assms(1,2) by (auto simp: flow_def tx_ok_oks)
  have g: "gates s' = gates s" using assms(2) by (simp add: flow_def)
  obtain es es' where "log s' = log s @ es" "mset_set (own H s) = mset_set (own H' s') + freed es" "\<forall>e \<in> set es. ev_ok s e"
    "log s'' = log s' @ es'" "mset_set (own H' s') = mset_set (own H'' s'') + freed es'" "\<forall>e \<in> set es'. ev_ok s' e"
    using assms(2,3) by (auto simp: flow_def)
  then show ?thesis
    using assms(2,3) ev_ok_gates [OF g ok] unfolding flow_def by (auto intro!: exI [of _ "es @ es'"])
qed

lemma flow_mono: "flow K H s H' s' \<Longrightarrow> K \<subseteq> L \<Longrightarrow> flow L H s H' s'"
  by (auto simp: flow_def)

lemma flow_ok: "flow K H s H' s' \<Longrightarrow> tx_ok H' s'" "flow K H s H' s' \<Longrightarrow> gates s' = gates s"
  by (simp_all add: flow_def)

lemma calm_flow: "tx_ok H s \<Longrightarrow> calm s s' \<Longrightarrow> flow K H s H s'"
proof -
  assume a: "tx_ok H s" "calm s s'"
  have "log s' = log s" "gates s' = gates s" using a(2) by (simp_all add: calm_def)
  then show ?thesis
    unfolding flow_def using calm_tx_ok [OF a] calm_items [OF a(2)] by (auto intro: exI [of _ "[]"])
qed

lemma flow_emit:
  assumes "tx_ok H s" and "ev_ok s e" and "ev_freed e = []"
  shows "flow K H s H (emit e s)"
proof -
  have "items (emit e s) = items s" by (simp add: items_def emit_def)
  then have q: "qset (emit e s) = qset s" "own H (emit e s) = own H s" by (simp_all add: qset_def own_def emit_def)
  have "core H (emit e s)" using assms(1) by (auto simp: tx_ok_def emit_def intro: core_cong)
  then have "tx_ok H (emit e s)" using assms(1) by (simp add: tx_ok_def emit_def)
  then show ?thesis
    using assms q \<open>items (emit e s) = items s\<close>
    by (auto simp: flow_def gates_def intro!: exI [of _ "[e]"]) (auto simp: emit_def freed_def)
qed

lemma flow_free:
  assumes ok: "tx_ok (x # H) s"
  obtains s' where "txCtrl_FreePacket x st s = Some s'" "flow K (x # H) s H s'" "links s' = links s" "queues s' = queues s"
    "pkts s' = pkts s"
proof -
  have c: "core (x # H) s" using ok by (simp add: tx_ok_def)
  obtain r where r: "txCtrl_FreePacket x st s = Some (emit (Freed x st) (upd_data (\<lambda>d. d\<lparr>tDataRsrc := r\<rparr>) s))"
    "core H (emit (Freed x st) (upd_data (\<lambda>d. d\<lparr>tDataRsrc := r\<rparr>) s))" using FreePacket_core [OF c] by blast
  let ?s = "emit (Freed x st) (upd_data (\<lambda>d. d\<lparr>tDataRsrc := r\<rparr>) s)"
  have "items ?s = items s" by (simp add: items_def emit_def upd_data_def)
  moreover then have "own H ?s = own H s" by (simp add: qset_def own_def emit_def upd_data_def)
  moreover have "oks ?s" "gates ?s = gates s" using ok by (auto simp: tx_ok_def oks_def data_ok_def gates_def emit_def upd_data_def)
  ultimately have "flow K (x # H) s H ?s"
    unfolding flow_def using r(2) own_Cons(3) [OF c]
    by (auto simp: tx_ok_oks intro!: exI [of _ "[Freed x st]"]) (auto simp: emit_def upd_data_def freed_def ev_freed_def ev_ok_def)
  then show ?thesis using that [OF r(1)] by (simp add: emit_def upd_data_def)
qed


section \<open>Transmission of a packet\<close>

text \<open>
  What the transmit control relies on: stopping a link or a queue leaves the packets alone, and the
  header does not change the link, the type or the resources of the packet.
\<close>

locale xmit_kind =
  fixes sentEvent :: "ptr \<Rightarrow> nat \<Rightarrow> u8 \<Rightarrow> ESmState \<Rightarrow> tx_event"
    and stopLink :: "nat \<Rightarrow> 'w TxState \<Rightarrow> 'w TxState" and stopQueue :: "u32 \<Rightarrow> 'w TxState \<Rightarrow> 'w TxState"
    and build :: "TTxCtrlBlk \<Rightarrow> TTxCtrlBlk option"
  assumes not_freed: "ev_freed (sentEvent p h ty st) = []"
    and stop: "calm s (stopLink h s)" "calm s (stopQueue b s)"
    and build: "pk_ok pkt \<Longrightarrow> \<exists>pkt'. build pkt = Some pkt' \<and> same_class pkt pkt'"

lemma buf_upd [simp]: "buf (a\<lparr>uFlags := f\<rparr>) = buf a" "buf (a\<lparr>tid := t\<rparr>) = buf a" "buf (a\<lparr>hlid := l\<rparr>) = buf a"
    "buf (a\<lparr>uPktType := y\<rparr>) = buf a"
  by (simp_all add: buf_def fun_eq_iff)

lemma same_class_flags:
  assumes "m AND 0x0E00 = 0"
  shows "same_class a (a\<lparr>uFlags := uFlags a OR m\<rparr>)"
proof -
  have "m AND 0x0200 = (m AND 0x0E00) AND 0x0200" "m AND 0x0C00 = (m AND 0x0E00) AND 0x0C00" by (simp_all add: and.assoc)
  then have 0: "m AND 0x0200 = 0" "m AND 0x0C00 = 0" using assms by simp_all
  have "drop_bit 10 (m AND 0x0C00) = drop_bit 10 m AND 3" by (simp add: drop_bit_and)
  then have "drop_bit 10 m AND 3 = 0" using 0 by simp
  then have "rsrc_class (a\<lparr>uFlags := uFlags a OR m\<rparr>) = rsrc_class a"
    by (simp add: rsrc_class_def GET_TX_CTRL_FLAG_RSRC_AC_def drop_bit_or bit.conj_disj_distrib2)
  moreover have "pk_ok a \<Longrightarrow> pk_ok (a\<lparr>uFlags := uFlags a OR m\<rparr>)"
    using 0 by (simp add: pk_ok_def IS_TX_CTRL_FLAG_RSRC_ALLOCATED_def bit.conj_disj_distrib2)
  ultimately show ?thesis by (simp add: same_class_def)
qed

lemma same_class_tid: "unat x < 8 \<Longrightarrow> same_class a (a\<lparr>tid := x\<rparr>)"
  by (simp add: same_class_def rsrc_class_def GET_TX_CTRL_FLAG_RSRC_AC_def pk_ok_def IS_TX_CTRL_FLAG_RSRC_ALLOCATED_def)

lemma SELECT_AC_class:
  assumes "pk_ok a" and "ctrl_ok c" and "SELECT_AC_FOR_TID c a = (ac, b)"
  shows "same_class a b" "ac < 4"
proof -
  let ?in = "WMEQosTagToACTable ! unat (tid a)"
  have i: "?in < 4" using assms(1) by (simp add: pk_ok_def)
  have ac: "ac = highestAdmittedAc c ! ?in" and b: "b = (if ac \<noteq> ?in then a\<lparr>tid := WMEQosAcToTid ! ac\<rparr> else a)"
    using assms(3) by (auto simp: SELECT_AC_FOR_TID_def Let_def)
  show "ac < 4" using assms(2) i unfolding ac ctrl_ok_def by auto
  then have "ac = 0 \<or> ac = 1 \<or> ac = 2 \<or> ac = 3" by linarith
  then have "unat (WMEQosAcToTid ! ac) < 8" by (auto simp: WMEQosAcToTid_def)
  then show "same_class a b" unfolding b by (simp add: same_class_tid)
qed

lemma pk_ok_dst: "pk_ok a \<Longrightarrow> \<exists>m. eth_dst a = Some m"
  by (auto simp: pk_ok_def eth_dst_def load_mac_def)

lemma build_data_class:
  assumes "pk_ok a"
  shows "\<exists>b. build_data_flags a = Some b \<and> same_class a b"
proof -
  obtain m where m: "eth_dst a = Some m" using pk_ok_dst [OF assms] by blast
  define f where "f = (if MAC_MULTICAST m then 0x20 OR (if MAC_BROADCAST m then 0x40 else 0) else 0) OR (8 :: u16)"
  have "f AND 0x0E00 = 0" by (simp add: f_def)
  moreover have "build_data_flags a = Some (a\<lparr>uFlags := uFlags a OR f\<rparr>)"
    by (simp add: build_data_flags_def m Let_def f_def or.assoc)
  ultimately show ?thesis using same_class_flags by blast
qed

lemma build_mgmt_class:
  assumes "pk_ok a"
  shows "\<exists>b. build_mgmt_flags a = Some b \<and> same_class a b"
  using build_data_class [OF assms] same_class_flags [of 8 a] by (auto simp: build_mgmt_flags_def)

interpretation xd: xmit_kind SentData txDataQ_StopLink txDataQ_StopQueue build_data_flags
  by unfold_locales (simp_all add: ev_freed_def build_data_class)

interpretation xm: xmit_kind SentMgmt txMgmtQ_StopLink txMgmtQ_StopQueue build_mgmt_flags
  by unfold_locales (simp_all add: ev_freed_def build_mgmt_class)

text \<open>The packet goes from the hands of the caller to the firmware.\<close>

lemma flow_handover:
  assumes ok: "tx_ok (x # H) s" and e: "ev_ok s e" "ev_freed e = []"
  shows "flow K (x # H) s H (emit e (s\<lparr>inFw := inFw s @ [x]\<rparr>))" (is "flow K _ s H ?s")
proof -
  have c: "core (x # H) s" using ok by (simp add: tx_ok_def)
  have i: "items ?s = items s" by (simp add: items_def emit_def)
  then have q: "qset ?s = qset s" by (simp add: qset_def)
  then have o: "own H ?s = own (x # H) s" by (auto simp: own_def emit_def)
  have "core H ?s"
  proof (rule core_move [OF c o i])
    show "distinct (H @ inFw ?s)" using tx_coreD(7) [OF c] by (auto simp: emit_def)
    show "(set H \<union> set (inFw ?s)) \<inter> (\<Union>k. set (items s k)) = {}"
      using tx_coreD(8) [OF c] by (simp add: emit_def qset_def [symmetric])
  qed (use tx_coreD(1) [OF c] tx_coreD(5) [OF c] in \<open>simp_all add: emit_def\<close>)
  then have "tx_ok H ?s" using ok by (simp add: tx_ok_def emit_def)
  then show ?thesis
    unfolding flow_def using i o e by (auto simp: gates_def intro!: exI [of _ "[e]"]) (simp_all add: emit_def freed_def)
qed


lemma ac_bit_less:
  assumes "ac < 4" and "x < (16 :: u32)"
  shows "x OR push_bit ac 1 < 16"
proof -
  have "ac = 0 \<or> ac = 1 \<or> ac = 2 \<or> ac = 3" using assms(1) by linarith
  then have "unat (push_bit ac 1 :: u32) < 2 ^ 4" by (elim disjE) simp_all
  moreover have "unat x < 2 ^ 4" using assms(2) by (simp add: word_less_nat_alt)
  ultimately have "take_bit 4 (unat x) = unat x" "take_bit 4 (unat (push_bit ac 1 :: u32)) = unat (push_bit ac 1 :: u32)"
    by (simp_all add: take_bit_nat_eq_self_iff)
  then have "take_bit 4 (unat (x OR push_bit ac 1)) = unat (x OR push_bit ac 1)"
    by (simp only: unsigned_or_eq take_bit_or)
  then show ?thesis by (simp add: take_bit_nat_eq_self_iff word_less_nat_alt)
qed

context xmit_kind
begin

lemma Xmit_flow:
  assumes ok: "tx_ok (x # H) s" and h: "h = unat (hlid (pkts s x))"
    and e: "ev_ok s (sentEvent x h (uPktType (pkts s x)) (eState (mlink s h)))"
  obtains (busy) s' where "txCtrl_Xmit sentEvent stopLink stopQueue build ops x s = Some (STATUS_XMIT_BUSY, s')" "calm s s'"
  | (gone) st s' where "txCtrl_Xmit sentEvent stopLink stopQueue build ops x s = Some (st, s')" "st \<noteq> STATUS_XMIT_BUSY"
      "flow {} (x # H) s H s'"
proof -
  let ?X = "txCtrl_Xmit sentEvent stopLink stopQueue build ops x s"
  have c: "core (x # H) s" using ok by (simp add: tx_ok_def)
  have p: "pk_ok (pkts s x)" using tx_coreD(3) [OF c, of x] by (simp add: own_def)
  obtain ac pkt where sel: "SELECT_AC_FOR_TID (txCtrl s) (pkts s x) = (ac, pkt)" by fastforce
  have sc: "same_class (pkts s x) pkt" and ac: "ac < 4"
    using SELECT_AC_class [OF p _ sel] ok by (simp_all add: tx_ok_def)
  have hp: "unat (hlid pkt) = h" "h < 7" using sc h p by (simp_all add: same_class_def pk_ok_def)
  obtain q w where al: "AllocResources ops pkt (twd s) = (q, w)" by fastforce
  define s1 where "s1 = (upd_pkt x (\<lambda>_. pkt) s)\<lparr>twd := w\<rparr>"
  define s2 where "s2 = (if q AND TX_HW_LINK_STATUS_STOP_NEXT \<noteq> 0
      then stopLink h (upd_ctrl (\<lambda>c. c\<lparr>busyLinkBitmap := busyLinkBitmap c OR push_bit h 1\<rparr>) s1) else s1)"
  define s3 where "s3 = (if q AND TX_HW_QUE_STATUS_STOP_NEXT \<noteq> 0
      then stopQueue (admittedAcToTidMap (txCtrl s2) ! ac) (upd_ctrl (\<lambda>c. c\<lparr>busyAcBitmap := busyAcBitmap c OR push_bit ac 1\<rparr>) s2)
      else s2)"
  have c1: "calm s s1" unfolding s1_def by (rule calm_trans [OF calm_upd_pkt calm_twd]) (rule sc)
  have "calm s1 s2"
    unfolding s2_def using stop(1) calm_upd_ctrl [of "\<lambda>c. c\<lparr>busyLinkBitmap := busyLinkBitmap c OR push_bit h 1\<rparr>" s1]
    by (auto intro: calm_trans simp: ctrl_ok_def)
  then have c2: "calm s s2" by (rule calm_trans [OF c1])
  note b = ac_bit_less [OF ac]
  have "calm s2 s3"
    unfolding s3_def using stop(2) calm_upd_ctrl [of "\<lambda>c. c\<lparr>busyAcBitmap := busyAcBitmap c OR push_bit ac 1\<rparr>" s2] b
    by (auto intro: calm_trans simp: ctrl_ok_def)
  then have c3: "calm s s3" by (rule calm_trans [OF c2])
  have g: "\<not> (MAX_NUM_OF_802_1d_TAGS \<le> unat (tid (pkts s x)) \<or> WLANLINKS_MAX_LINKS \<le> unat (hlid (pkts s x)))"
    using p by (simp add: pk_ok_def)
  have p3: "pk_ok (pkts s3 x)" using c3 p by (auto simp: calm_def same_class_def)
  obtain pkt' where bd: "build (pkts s3 x) = Some pkt'" "same_class (pkts s3 x) pkt'" using build [OF p3] by blast
  obtain est w' where sd: "SendPacket ops pkt' (twd s3) = (est, w')" by fastforce
  define s4 where "s4 = (upd_pkt x (\<lambda>_. pkt') s3)\<lparr>twd := w'\<rparr>"
  have "calm s3 s4" unfolding s4_def by (rule calm_trans [OF calm_upd_pkt calm_twd]) (rule bd(2))
  then have c4: "calm s s4" by (rule calm_trans [OF c3])
  let ?L = "q AND TX_HW_LINK_STATUS_STOP_NEXT = 0 \<and> q AND TX_HW_LINK_STATUS_STOP_CURRENT \<noteq> 0"
  let ?Q = "q AND TX_HW_QUE_STATUS_STOP_NEXT = 0 \<and> q AND TX_HW_QUE_STATUS_STOP_CURRENT \<noteq> 0"
  have X: "?X = (if ?L then Some (STATUS_XMIT_BUSY, stopLink h s1)
      else if ?Q then Some (STATUS_XMIT_BUSY, stopQueue (admittedAcToTidMap (txCtrl s2) ! ac) s2)
      else if est = TXN_STATUS_ERROR then map_option (Pair STATUS_XMIT_ERROR) (txCtrl_FreePacket x TI_NOK s4)
      else Some (STATUS_XMIT_SUCCESS, emit (sentEvent x h (uPktType pkt') (eState (mlink s4 h))) (s4\<lparr>inFw := inFw s4 @ [x]\<rparr>)))"
    unfolding txCtrl_Xmit_def sel al Let_def prod.case hp(1) s1_def [symmetric] s2_def [symmetric] s3_def [symmetric]
      bd(1) option.case sd s4_def [symmetric] using g by simp
  have ok4: "tx_ok (x # H) s4" by (rule calm_tx_ok [OF ok c4])
  have f4: "flow {} (x # H) s (x # H) s4" by (rule calm_flow [OF ok c4])
  consider (l) "?L" | (q) "\<not> ?L" "?Q" | (err) "\<not> ?L" "\<not> ?Q" "est = TXN_STATUS_ERROR" | (sent) "\<not> ?L" "\<not> ?Q" "est \<noteq> TXN_STATUS_ERROR"
    by blast
  then show ?thesis
  proof cases
    case l
    then show ?thesis using busy [of "stopLink h s1"] calm_trans [OF c1 stop(1)] X by simp
  next
    case q
    have "?X = Some (STATUS_XMIT_BUSY, stopQueue (admittedAcToTidMap (txCtrl s2) ! ac) s2)"
      unfolding X if_not_P [OF q(1)] if_P [OF q(2)] ..
    then show ?thesis using busy calm_trans [OF c2 stop(2)] by blast
  next
    case err
    obtain s5 where s5: "txCtrl_FreePacket x TI_NOK s4 = Some s5" "flow {} (x # H) s4 H s5" using flow_free [OF ok4] by metis
    have "?X = Some (STATUS_XMIT_ERROR, s5)" unfolding X if_not_P [OF err(1)] if_not_P [OF err(2)] if_P [OF err(3)] by (simp add: s5(1))
    then show ?thesis using gone [of STATUS_XMIT_ERROR s5] flow_trans [OF ok f4 s5(2)] by simp
  next
    case sent
    have ty: "uPktType pkt' = uPktType (pkts s x)"
      using bd(2) c3 by (auto simp: calm_def same_class_def)
    have g4: "gates s4 = gates s" "oks s" "oks s4" using c4 ok ok4 by (simp_all add: calm_def tx_ok_oks)
    have e4: "ev_ok s4 (sentEvent x h (uPktType pkt') (eState (mlink s4 h)))"
      using e unfolding ev_ok_gates [OF g4] ty gates_link(5) [OF g4 hp(2)] .
    have "?X = Some (STATUS_XMIT_SUCCESS, emit (sentEvent x h (uPktType pkt') (eState (mlink s4 h))) (s4\<lparr>inFw := inFw s4 @ [x]\<rparr>))"
      unfolding X if_not_P [OF sent(1)] if_not_P [OF sent(2)] if_not_P [OF sent(3)] ..
    then show ?thesis
      using gone [of STATUS_XMIT_SUCCESS] flow_trans [OF ok f4 flow_handover [OF ok4 e4 not_freed]] by simp
  qed
qed

end

end
