(* ===== verification/TxDrain.thy ===== *)
theory TxDrain
  imports TxFlow
begin

text \<open>
  The schedulers and the operations that empty queues: they end, and what they do is a flow of packets.
\<close>

section \<open>Queue operations as flow\<close>

lemma flow_dequeue:
  assumes ok: "tx_ok H s" and k: "k \<in> set qids"
  obtains (none) "items s k = []" "dequeue True k s = Some (NULL, s)"
  | (some) x s' where "dequeue True k s = Some (x, s')" "x \<noteq> NULL" "flow {k} H s (x # H) s'" "place_ok k (pkts s' x)"
      "\<not> fam_full (queues s') k" "items s = (items s')(k := x # items s' k)" "qset s' \<subset> qset s"
proof -
  have c: "core H s" using ok by (simp add: tx_ok_def)
  show ?thesis
  proof (cases rule: dequeue_core [OF c k])
    case 1
    then show ?thesis using none by blast
  next
    case (2 x xs h qs)
    let ?s = "s\<lparr>links := h, queues := qs\<rparr>"
    have "tx_ok (x # H) ?s" "gates ?s = gates s" using 2(4) ok by (simp_all add: tx_ok_def gates_def)
    then have "flow {k} H s (x # H) ?s" unfolding flow_def 2(5,6) by (auto intro: exI [of _ "[]"])
    moreover have "items s = (items ?s)(k := x # items ?s k)" using 2(1,5) by (auto simp: fun_eq_iff)
    moreover have "qset ?s \<subset> qset s" using 2(9,10) by auto
    ultimately show ?thesis using some [of x ?s] 2(2,3,7,8) by simp
  qed
qed

lemma flow_requeue:
  assumes ok: "tx_ok (x # H) s" and k: "k \<in> set qids" and nf: "\<not> fam_full (queues s) k" and pl: "place_ok k (pkts s x)"
  obtains s' where "requeue True k x s = Some (TI_OK, s')" "flow {k} (x # H) s H s'" "items s' = (items s)(k := x # items s k)"
proof -
  have c: "core (x # H) s" using ok by (simp add: tx_ok_def)
  obtain h qs where r: "requeue True k x s = Some (TI_OK, s\<lparr>links := h, queues := qs\<rparr>)"
    "core H (s\<lparr>links := h, queues := qs\<rparr>)" "items (s\<lparr>links := h, queues := qs\<rparr>) = (items s)(k := x # items s k)"
    "own H (s\<lparr>links := h, queues := qs\<rparr>) = own (x # H) s"
    by (rule requeue_core [OF c k nf pl])
  let ?s = "s\<lparr>links := h, queues := qs\<rparr>"
  have "tx_ok H ?s" "gates ?s = gates s" using r(2) ok by (simp_all add: tx_ok_def gates_def)
  then have "flow {k} (x # H) s H ?s" unfolding flow_def r(3,4) by (auto intro: exI [of _ "[]"])
  then show ?thesis using that [OF r(1)] r(3) by simp
qed

lemma flow_items: "flow {} H s H' s' \<Longrightarrow> items s' = items s"
  by (auto simp: flow_def)

lemma items_qset: "items s' = items s \<Longrightarrow> qset s' = qset s"
  by (simp add: qset_def)

text \<open>The queues only lose packets.\<close>

definition shrinks :: "'w TxState \<Rightarrow> 'w TxState \<Rightarrow> bool" where
  "shrinks s s' \<longleftrightarrow> (\<forall>k. set (items s' k) \<subseteq> set (items s k))"

lemma shrinks_refl [simp]: "shrinks s s"
  by (simp add: shrinks_def)

lemma shrinks_trans: "shrinks s t \<Longrightarrow> shrinks t u \<Longrightarrow> shrinks s u"
  unfolding shrinks_def by (meson subset_trans)

lemma shrinks_items: "items s' = items s \<Longrightarrow> shrinks s s'"
  by (simp add: shrinks_def)

lemma shrinks_qset: "shrinks s s' \<Longrightarrow> qset s' \<subseteq> qset s"
  by (auto simp: shrinks_def qset_def)


context xmit_kind
begin

text \<open>The packet that was taken from the head of a queue is handed over or freed, or it is put back.\<close>

lemma Xmit_head:
  assumes ok: "tx_ok (x # H) s" and k: "k \<in> set qids" and nf: "\<not> fam_full (queues s) k" and pl: "place_ok k (pkts s x)"
    and h: "h = unat (hlid (pkts s x))" and e: "ev_ok s (sentEvent x h (uPktType (pkts s x)) (eState (mlink s h)))"
  obtains (busy) s1 s2 where "txCtrl_Xmit sentEvent stopLink stopQueue build ops x s = Some (STATUS_XMIT_BUSY, s1)"
      "requeue True k x s1 = Some (TI_OK, s2)" "flow {k} (x # H) s H s2" "items s2 = (items s)(k := x # items s k)"
  | (gone) st s1 where "txCtrl_Xmit sentEvent stopLink stopQueue build ops x s = Some (st, s1)" "st \<noteq> STATUS_XMIT_BUSY"
      "flow {k} (x # H) s H s1" "items s1 = items s"
proof (cases rule: Xmit_flow [OF ok h e, of ops])
  case (1 s1)
  have ok1: "tx_ok (x # H) s1" by (rule calm_tx_ok [OF ok 1(2)])
  have q1: "queues s1 = queues s" "same_class (pkts s x) (pkts s1 x)" using 1(2) by (simp_all add: calm_def)
  have nf1: "\<not> fam_full (queues s1) k" and pl1: "place_ok k (pkts s1 x)"
    using nf pl same_class_place [OF q1(2)] by (simp_all add: q1(1))
  obtain s2 where s2: "requeue True k x s1 = Some (TI_OK, s2)" "flow {k} (x # H) s1 H s2" "items s2 = (items s1)(k := x # items s1 k)"
    by (rule flow_requeue [OF ok1 k nf1 pl1])
  show ?thesis
    using busy [OF 1(1) s2(1) flow_trans [OF ok calm_flow [OF ok 1(2)] s2(2)]] s2(3) calm_items(1) [OF 1(2)] by simp
next
  case (2 st s1)
  show ?thesis using gone [OF 2(1,2) flow_mono [OF 2(3)] flow_items [OF 2(3)]] by simp
qed

end

section \<open>The data scheduler\<close>

definition dataKs :: "qid set" where
  "dataKs = {k. \<exists>h q. k = DataQ h q}"

definition mgmtKs :: "qid set" where
  "mgmtKs = {k. \<exists>h q. k = MgmtQ h q}"

lemma Ks_mem [simp]: "DataQ h q \<in> dataKs" "MgmtQ h q \<notin> dataKs" "MgmtQ h q \<in> mgmtKs" "DataQ h q \<notin> mgmtKs"
  by (auto simp: dataKs_def mgmtKs_def)

lemma tx_ok_core: "tx_ok H s \<Longrightarrow> core H s" "tx_ok H s \<Longrightarrow> oks s"
  by (simp_all add: tx_ok_oks)

text \<open>What is left to send decreases with every packet that leaves.\<close>

lemma qset_less: "tx_ok H s \<Longrightarrow> qset s' \<subset> qset s \<Longrightarrow> card (qset s') < card (qset s)"
  using psubset_card_mono qset_finite tx_ok_core(1) by metis

lemma flow_resume_net_stack:
  assumes "tx_ok H s"
  shows "flow {} H s H (resume_net_stack h q s)"
proof (cases "bStopNetStackTx (dataQ s) \<and> aNetStackQueueStopped (dlink s h) ! q")
  case True
  let ?s = "upd_dlink h (\<lambda>l. l\<lparr>aNetStackQueueStopped := (aNetStackQueueStopped l)[q := False]\<rparr>) s"
  have c: "calm s ?s" by (rule calm_upd_dlink) simp
  have "flow {} H ?s H (emit ResumeNetStack ?s)"
    by (rule flow_emit [OF calm_tx_ok [OF assms c]]) (simp_all add: ev_ok_def ev_freed_def)
  then show ?thesis using flow_trans [OF assms calm_flow [OF assms c]] True by (simp add: resume_net_stack_def)
qed (use calm_flow [OF assms calm_refl] in \<open>auto simp: resume_net_stack_def\<close>)

lemma serve_data_flow:
  assumes ok: "tx_ok H s" and hq: "h < 7" "q < 4" and en: "bDataPortEnable (dataQ s)" "bEnabled (dlink s h)"
  obtains sent s' where "serve_data True ops h q s = Some (sent, s')" "flow dataKs H s H s'" "shrinks s s'"
    "sent \<longrightarrow> qset s' \<subset> qset s"
proof (cases "aQueueBusy (dataQ s) ! q")
  case True
  then show ?thesis using that [of False s] calm_flow [OF ok calm_refl] by (simp add: serve_data_def)
next
  case nb: False
  have k: "DataQ h q \<in> set qids" using hq by simp
  show ?thesis
  proof (cases rule: flow_dequeue [OF ok k])
    case 1
    note f = flow_resume_net_stack [OF ok, of h q]
    have "serve_data True ops h q s = Some (False, resume_net_stack h q s)" using 1 nb by (simp add: serve_data_def)
    then show ?thesis using that shrinks_items [OF flow_items [OF f]] flow_mono [OF f, of dataKs] by auto
  next
    case (2 x s1)
    let ?s1 = "count_data True h q (\<lambda>c. c\<lparr>uDequeuePacket := uDequeuePacket c + 1\<rparr>) s1"
    have f1: "flow {DataQ h q} H s (x # H) ?s1"
      by (rule flow_trans [OF ok 2(3) calm_flow [OF flow_ok(1) [OF 2(3)]]]) simp
    note ok1 = flow_ok(1) [OF f1]
    have c: "calm s1 ?s1" by simp
    have sc: "same_class (pkts s1 x) (pkts ?s1 x)" and q1: "queues ?s1 = queues s1" "items ?s1 = items s1"
      using c calm_items(1) [OF c] by (simp_all add: calm_def)
    have pl: "place_ok (DataQ h q) (pkts ?s1 x)" using 2(4) same_class_place [OF sc] by blast
    then have h: "h = unat (hlid (pkts ?s1 x))" by simp
    have g: "gates ?s1 = gates s" "oks s" "oks ?s1" using flow_ok(2) [OF f1] tx_ok_core(2) ok ok1 by auto
    have e: "ev_ok ?s1 (SentData x h (uPktType (pkts ?s1 x)) (eState (mlink ?s1 h)))"
      using en hq gates_link [OF g] by (simp add: ev_ok_def)
    have nf: "\<not> fam_full (queues ?s1) (DataQ h q)" using 2(5) q1 by simp
    show ?thesis
    proof (cases rule: xd.Xmit_head [OF ok1 k nf pl h e, of ops])
      case (1 s2 s3)
      let ?s3 = "count_data True h q (\<lambda>c. c\<lparr>uRequeuePacket := uRequeuePacket c + 1\<rparr>) s3"
      have c3: "calm s3 ?s3" by simp
      have f3: "flow {DataQ h q} H s H s3" by (rule flow_trans [OF ok f1 1(3)])
      have "flow {DataQ h q} H s H ?s3" by (rule flow_trans [OF ok f3 calm_flow [OF flow_ok(1) [OF f3] c3]])
      moreover have "serve_data True ops h q s = Some (False, ?s3)"
        using nb 2(1,2) 1(1,2) by (simp add: serve_data_def txCtrl_XmitData_def requeue_data_def)
      ultimately show ?thesis
        using that [of False ?s3] flow_mono [of "{DataQ h q}" H s H ?s3 dataKs] 1(4) 2(6) calm_items(1) [OF c3] q1
        by (simp add: shrinks_items)
    next
      case (2 st s2)
      define s3 where "s3 = count_data True h q (\<lambda>c. c\<lparr>uXmittedPacket := uXmittedPacket c + 1\<rparr>)
          (if st = STATUS_XMIT_SUCCESS then upd_data (\<lambda>d. d\<lparr>uNextQueId := of_nat (q + 1), uNextHlid := of_nat (h + 1)\<rparr>) s2 else s2)"
      have "unat (of_nat n :: u32) = n" if "n < 8" for n
        using that by (simp add: unat_of_nat take_bit_nat_eq_self_iff)
      from this [of "q + 1"] this [of "h + 1"]
      have u: "unat (of_nat (q + 1) :: u32) \<le> 4" "unat (of_nat (h + 1) :: u32) \<le> 7" using hq by linarith+
      have "calm s2 (upd_data (\<lambda>d. d\<lparr>uNextQueId := of_nat (q + 1), uNextHlid := of_nat (h + 1)\<rparr>) s2)"
        by (rule calm_upd_data) (use u in \<open>simp_all add: data_ok_def\<close>)
      then have c3: "calm s2 s3" unfolding s3_def using calm_trans [OF _ calm_count_data] by auto
      have f2: "flow {DataQ h q} H s H s2" by (rule flow_trans [OF ok f1 2(3)])
      have "flow {DataQ h q} H s H s3" by (rule flow_trans [OF ok f2 calm_flow [OF flow_ok(1) [OF f2] c3]])
      moreover have "serve_data True ops h q s = Some (st = STATUS_XMIT_SUCCESS, s3)"
        using nb 2(1,2) \<open>dequeue True (DataQ h q) s = Some (x, s1)\<close> \<open>x \<noteq> NULL\<close> by (simp add: serve_data_def txCtrl_XmitData_def s3_def)
      moreover have i: "items s3 = items s1" using 2(4) q1 calm_items(1) [OF c3] by simp
      moreover have "shrinks s s3" unfolding shrinks_def i \<open>items s = (items s1)(DataQ h q := x # items s1 (DataQ h q))\<close> by auto
      ultimately show ?thesis
        using that [of "st = STATUS_XMIT_SUCCESS" s3] flow_mono [of "{DataQ h q}" H s H s3 dataKs] items_qset [OF i]
          \<open>qset s1 \<subset> qset s\<close> by simp
    qed
  qed
qed


text \<open>What one pass does: \<open>bStop\<close> is cleared only when a packet left.\<close>

definition pass :: "qid set \<Rightarrow> ptr list \<Rightarrow> 'w TxState \<Rightarrow> bool \<Rightarrow> 'w TxState \<Rightarrow> bool \<Rightarrow> bool" where
  "pass K H s bStop s' bStop' \<longleftrightarrow> flow K H s H s' \<and> shrinks s s' \<and> (bStop \<longrightarrow> bStop' \<or> qset s' \<subset> qset s)"

lemma pass_refl: "tx_ok H s \<Longrightarrow> pass K H s b s b"
  using calm_flow [OF _ calm_refl] by (auto simp: pass_def)

lemma pass_trans:
  assumes "tx_ok H s" and "pass K H s b s' b'" and "pass K H s' b' s'' b''"
  shows "pass K H s b s'' b''"
proof -
  have f: "flow K H s H s'" "flow K H s' H s''" and sh: "shrinks s s'" "shrinks s' s''"
    and b: "b \<longrightarrow> b' \<or> qset s' \<subset> qset s" "b' \<longrightarrow> b'' \<or> qset s'' \<subset> qset s'"
    using assms(2,3) by (simp_all add: pass_def)
  have "b'' \<or> qset s'' \<subset> qset s" if "b"
  proof (cases "qset s' \<subset> qset s")
    case True
    then show ?thesis using subset_psubset_trans [OF shrinks_qset [OF sh(2)] True] by simp
  next
    case False
    then have "b'' \<or> qset s'' \<subset> qset s'" using b that by simp
    then show ?thesis
      by (rule disj_forward) (assumption, erule psubset_subset_trans [OF _ shrinks_qset [OF sh(1)]])
  qed
  then show ?thesis using flow_trans [OF assms(1) f] shrinks_trans [OF sh] by (simp add: pass_def)
qed

lemma pass_ok: "pass K H s b s' b' \<Longrightarrow> tx_ok H s'" "pass K H s b s' b' \<Longrightarrow> gates s' = gates s"
  by (auto simp: pass_def flow_def)

lemma pass_emit:
  assumes "tx_ok H s" and "pass K H s b s' b'" and "ev_ok s' e" and "ev_freed e = []"
  shows "pass K H s b (emit e s') b'"
proof -
  have "flow K H s' H (emit e s')" by (rule flow_emit [OF pass_ok(1) [OF assms(2)] assms(3,4)])
  moreover have i: "items (emit e s') = items s'" by (simp add: items_def emit_def)
  moreover have "qset (emit e s') = qset s'" by (rule items_qset [OF i])
  ultimately show ?thesis
    using assms(2) flow_trans [OF assms(1), of K H s' H "emit e s'"] by (simp add: pass_def shrinks_def)
qed

lemma pass_EndOfBurst: "tx_ok H s \<Longrightarrow> pass K H s b s' b' \<Longrightarrow> pass K H s b (emit EndOfBurst s') b'"
  by (rule pass_emit) (simp_all add: ev_ok_def ev_freed_def)

lemma gates_oks:
  assumes "tx_ok H s" and "tx_ok H' s'" and "gates s' = gates s"
  shows "bDataPortEnable (dataQ s') = bDataPortEnable (dataQ s)" "bMgmtPortEnable (mgmtQ s') = bMgmtPortEnable (mgmtQ s)"
    "h < 7 \<Longrightarrow> bEnabled (dlink s' h) = bEnabled (dlink s h)" "h < 7 \<Longrightarrow> bEnabled (mlink s' h) = bEnabled (mlink s h)"
    "h < 7 \<Longrightarrow> eState (mlink s' h) = eState (mlink s h)" "h < 7 \<Longrightarrow> aQenabled (mlink s' h) = aQenabled (mlink s h)"
  using gates_link [OF assms(3)] assms(1,2) by (simp_all add: tx_ok_oks)

lemma ac_loop_pass:
  assumes "tx_ok H s" and "h < 7" and "q \<le> 4" and "bEnabled (dlink s h)"
  shows "\<exists>closed q' b' s'. ac_loop True ops h n q b s = Some (closed, q', b', s') \<and> q' \<le> 4 \<and> pass dataKs H s b s' b'"
  using assms
proof (induction n arbitrary: q b s)
  case 0
  then show ?case using pass_refl by auto
next
  case (Suc n)
  note ok = Suc.prems(1)
  let ?q = "if q = unat (uNumQueues (dataQ s)) then 0 else q"
  have n: "unat (uNumQueues (dataQ s)) = 4" using ok by (simp add: tx_ok_def data_ok_def)
  then have q: "?q < 4" using Suc.prems(3) by simp
  show ?case
  proof (cases "bDataPortEnable (dataQ s)")
    case False
    then show ?thesis using pass_EndOfBurst [OF ok pass_refl [OF ok]] Suc.prems(3) by auto
  next
    case True
    obtain sent s1 where s1: "serve_data True ops h ?q s = Some (sent, s1)" "flow dataKs H s H s1" "shrinks s s1"
      "sent \<longrightarrow> qset s1 \<subset> qset s"
      by (rule serve_data_flow [where ops = ops, OF ok Suc.prems(2) q True Suc.prems(4)])
    have p1: "pass dataKs H s b s1 (b \<and> \<not> sent)" using s1 by (auto simp: pass_def)
    note ok1 = pass_ok(1) [OF p1]
    have "bEnabled (dlink s1 h)" using gates_oks(3) [OF ok ok1 pass_ok(2) [OF p1] Suc.prems(2)] Suc.prems(4) by simp
    then obtain closed q' b' s' where "ac_loop True ops h n (?q + 1) (b \<and> \<not> sent) s1 = Some (closed, q', b', s')" "q' \<le> 4"
      "pass dataKs H s1 (b \<and> \<not> sent) s' b'"
      using Suc.IH [OF ok1 Suc.prems(2), of "?q + 1" "b \<and> \<not> sent"] q by auto
    then show ?thesis using True s1(1) pass_trans [OF ok p1] by (simp add: Let_def)
  qed
qed

lemma link_loop_pass:
  assumes "tx_ok H s" and "h \<le> 7" and "q \<le> 4"
  shows "\<exists>closed h' q' b' s'. link_loop True ops n h q b s = Some (closed, h', q', b', s') \<and> h' \<le> 7 \<and> q' \<le> 4 \<and>
    pass dataKs H s b s' b'"
  using assms
proof (induction n arbitrary: h q b s)
  case 0
  then show ?case using pass_refl by auto
next
  case (Suc n)
  note ok = Suc.prems(1)
  let ?h = "if h = WLANLINKS_MAX_LINKS then 0 else h"
  have h: "?h < 7" using Suc.prems(2) by simp
  show ?case
  proof (cases "bDataPortEnable (dataQ s)")
    case False
    then show ?thesis using pass_EndOfBurst [OF ok pass_refl [OF ok]] Suc.prems(2,3) by auto
  next
    case port: True
    show ?thesis
    proof (cases "\<not> bEnabled (dlink s ?h) \<or> bBusy (dlink s ?h)")
      case True
      then show ?thesis using Suc.IH [OF ok, of "?h + 1" 0 b] h port by (simp add: Let_def)
    next
      case False
      obtain closed q1 b1 s1 where s1: "ac_loop True ops ?h (unat (uNumQueues (dataQ s))) q b s = Some (closed, q1, b1, s1)"
        "q1 \<le> 4" "pass dataKs H s b s1 b1"
        using ac_loop_pass [OF ok h Suc.prems(3)] False by blast
      have l: "link_loop True ops (Suc n) h q b s =
          (if closed then Some (True, ?h, q1, b1, s1) else link_loop True ops n (?h + 1) q1 b1 s1)"
        using port False s1(1) by (simp add: Let_def)
      show ?thesis
        unfolding l using Suc.IH [OF pass_ok(1) [OF s1(3)], of "?h + 1" q1 b1] h s1(2,3) pass_trans [OF ok s1(3)]
        by (cases closed) auto
    qed
  qed
qed

text \<open>The scheduler ends: every further pass starts with fewer packets.\<close>

lemma sched_loop_flow:
  assumes "tx_ok H s" and "h \<le> 7" and "q \<le> 4"
  shows "\<exists>s'. sched_loop True ops h q s = Some s' \<and> flow dataKs H s H s' \<and> shrinks s s'"
  using assms
proof (induction "card (qset s)" arbitrary: s h q rule: less_induct)
  case less
  note ok = less.prems(1)
  obtain closed h1 q1 b s1 where l: "link_loop True ops 7 h q True s = Some (closed, h1, q1, b, s1)" "h1 \<le> 7" "q1 \<le> 4"
    and p: "pass dataKs H s True s1 b"
    using link_loop_pass [OF less.prems, of ops 7 True] by blast
  have f: "flow dataKs H s H s1" "shrinks s s1" using p by (simp_all add: pass_def)
  have r: "sched_loop True ops h q s = (if closed then Some s1 else if b then Some (emit EndOfBurst s1) else sched_loop True ops h1 q1 s1)"
    by (subst sched_loop.simps) (simp add: l(1))
  show ?case
  proof (cases "closed \<or> b")
    case True
    have "flow dataKs H s H (emit EndOfBurst s1)" "shrinks s (emit EndOfBurst s1)"
      using pass_EndOfBurst [OF ok p] by (simp_all add: pass_def)
    then show ?thesis using r f True by auto
  next
    case False
    then have "card (qset s1) < card (qset s)" using p qset_less [OF ok] by (auto simp: pass_def)
    then obtain s' where "sched_loop True ops h1 q1 s1 = Some s'" "flow dataKs H s1 H s'" "shrinks s1 s'"
      using less.hyps [OF _ pass_ok(1) [OF p] l(2,3)] by blast
    then show ?thesis using r False flow_trans [OF ok f(1)] shrinks_trans [OF f(2)] by auto
  qed
qed

lemma RunScheduler_flow:
  assumes "tx_ok H s"
  shows "\<exists>s'. txDataQ_RunScheduler True ops s = Some s' \<and> flow dataKs H s H s' \<and> shrinks s s'"
  unfolding txDataQ_RunScheduler_def
  by (rule sched_loop_flow [OF assms]) (use assms in \<open>simp_all add: tx_ok_def data_ok_def\<close>)


section \<open>The management scheduler\<close>

lemma serve_mgmt_flow:
  assumes ok: "tx_ok H s" and hq: "h < 7" "q < 2"
    and en: "bMgmtPortEnable (mgmtQ s)" "bEnabled (mlink s h)" "aQenabled (mlink s h) ! q"
  obtains sent s' where "serve_mgmt True ops h q s = Some (sent, s')" "flow mgmtKs H s H s'" "shrinks s s'"
    "sent \<longrightarrow> qset s' \<subset> qset s"
proof -
  have k: "MgmtQ h q \<in> set qids" using hq by simp
  show ?thesis
  proof (cases rule: flow_dequeue [OF ok k])
    case 1
    have "serve_mgmt True ops h q s = Some (False, s)" using 1 by (simp add: serve_mgmt_def)
    then show ?thesis using that calm_flow [OF ok calm_refl] shrinks_refl by blast
  next
    case (2 x s1)
    define t where "t = count_mgmt h (\<lambda>c. c\<lparr>aDequeuePackets := inc (aDequeuePackets c) q\<rparr>) s1"
    have c: "calm s1 t" by (simp add: t_def)
    have f1: "flow {MgmtQ h q} H s (x # H) t"
      by (rule flow_trans [OF ok 2(3) calm_flow [OF flow_ok(1) [OF 2(3)] c]])
    note ok1 = flow_ok(1) [OF f1]
    have sc: "same_class (pkts s1 x) (pkts t x)" and q1: "queues t = queues s1" "items t = items s1"
      using c calm_items(1) [OF c] by (simp_all add: calm_def)
    have pl: "place_ok (MgmtQ h q) (pkts t x)" using 2(4) same_class_place [OF sc] by blast
    then have h: "h = unat (hlid (pkts t x))" and ty: "q = 0 \<longleftrightarrow> uPktType (pkts t x) = TX_PKT_TYPE_MGMT" by simp_all
    have e: "ev_ok t (SentMgmt x h (uPktType (pkts t x)) (eState (mlink t h)))"
      using en hq ty gates_oks [OF ok ok1 flow_ok(2) [OF f1]] by (auto simp: ev_ok_def)
    have nf: "\<not> fam_full (queues t) (MgmtQ h q)" using 2(5) q1 by simp
    show ?thesis
    proof (cases rule: xm.Xmit_head [OF ok1 k nf pl h e, of ops])
      case (1 s2 s3)
      define u where "u = count_mgmt h (\<lambda>c. c\<lparr>aRequeuePackets := inc (aRequeuePackets c) q\<rparr>) s3"
      have c3: "calm s3 u" by (simp add: u_def)
      have f3: "flow {MgmtQ h q} H s H s3" by (rule flow_trans [OF ok f1 1(3)])
      have f4: "flow {MgmtQ h q} H s H u" by (rule flow_trans [OF ok f3 calm_flow [OF flow_ok(1) [OF f3] c3]])
      have "serve_mgmt True ops h q s = Some (False, u)"
        using 2(1,2) 1(1,2) by (simp add: serve_mgmt_def txCtrl_XmitMgmt_def t_def u_def)
      moreover have "items u = items s" using 1(4) 2(6) calm_items(1) [OF c3] q1 by simp
      ultimately show ?thesis using that [of False u] flow_mono [OF f4, of mgmtKs] by (simp add: shrinks_items)
    next
      case (2 st s2)
      define u where "u = count_mgmt h (\<lambda>c. c\<lparr>aXmittedPackets := inc (aXmittedPackets c) q\<rparr>) s2"
      have c3: "calm s2 u" by (simp add: u_def)
      have f2: "flow {MgmtQ h q} H s H s2" by (rule flow_trans [OF ok f1 2(3)])
      have f4: "flow {MgmtQ h q} H s H u" by (rule flow_trans [OF ok f2 calm_flow [OF flow_ok(1) [OF f2] c3]])
      have "serve_mgmt True ops h q s = Some (True, u)"
        using 2(1,2) \<open>dequeue True (MgmtQ h q) s = Some (x, s1)\<close> \<open>x \<noteq> NULL\<close>
        by (simp add: serve_mgmt_def txCtrl_XmitMgmt_def t_def u_def)
      moreover have i: "items u = items s1" using 2(4) q1 calm_items(1) [OF c3] by simp
      moreover have "shrinks s u" unfolding shrinks_def i \<open>items s = (items s1)(MgmtQ h q := x # items s1 (MgmtQ h q))\<close> by auto
      ultimately show ?thesis
        using that [of True u] flow_mono [OF f4, of mgmtKs] items_qset [OF i] \<open>qset s1 \<subset> qset s\<close> by simp
    qed
  qed
qed

lemma mgmt_loop_flow:
  assumes "tx_ok H s" and "h < 7" and "q < 2"
  shows "\<exists>s'. mgmt_loop True ops h q s = Some s' \<and> flow mgmtKs H s H s' \<and> shrinks s s'"
  using assms
proof (induction "card (qset s) * 14 + ((6 - h) * 2 + (1 - q))" arbitrary: s h q rule: less_induct)
  case less
  note ok = less.prems(1) and hq = less.prems(2,3)
  show ?case
  proof (cases "\<not> bMgmtPortEnable (mgmtQ s) \<or> aMgmtAcBusy (mgmtQ s)")
    case True
    then show ?thesis using calm_flow [OF ok calm_refl] by (subst mgmt_loop.simps) simp
  next
    case port: False
    define act where "act = (\<not> bBusy (mlink s h) \<and> bEnabled (mlink s h))"
    define res where "res = (if act \<and> aQenabled (mlink s h) ! q then serve_mgmt True ops h q s else Some (False, s))"
    have "\<exists>sent s1. res = Some (sent, s1) \<and> flow mgmtKs H s H s1 \<and> shrinks s s1 \<and> (sent \<longrightarrow> qset s1 \<subset> qset s)"
    proof (cases "act \<and> aQenabled (mlink s h) ! q")
      case True
      then show ?thesis
        using serve_mgmt_flow [OF ok hq, of ops] port unfolding res_def act_def by (metis (no_types, lifting))
    next
      case False
      then show ?thesis unfolding res_def using calm_flow [OF ok calm_refl] by auto
    qed
    then obtain sent s1 where r: "res = Some (sent, s1)" and f: "flow mgmtKs H s H s1" and q: "shrinks s s1"
      "sent \<Longrightarrow> qset s1 \<subset> qset s" by blast
    note ok1 = flow_ok(1) [OF f]
    have m: "mgmt_loop True ops h q s =
        (if sent then mgmt_loop True ops h 0 s1
         else if act \<and> q + 1 < NUM_OF_MGMT_QUEUES then mgmt_loop True ops h (q + 1) s1
         else if h + 1 < WLANLINKS_MAX_LINKS then mgmt_loop True ops (h + 1) 0 s1
         else Some (emit EndOfBurst s1))"
      by (subst mgmt_loop.simps) (use port r in \<open>simp add: Let_def act_def [symmetric] res_def [symmetric]\<close>)
    have le: "card (qset s1) \<le> card (qset s)" using shrinks_qset [OF q(1)] qset_finite [OF tx_ok_core(1) [OF ok]] card_mono by blast
    have IH: "\<exists>s'. mgmt_loop True ops h' q' s1 = Some s' \<and> flow mgmtKs H s H s' \<and> shrinks s s'"
      if "card (qset s1) * 14 + ((6 - h') * 2 + (1 - q')) < card (qset s) * 14 + ((6 - h) * 2 + (1 - q))" "h' < 7" "q' < 2" for h' q'
      using less.hyps [OF that(1) ok1 that(2,3)] flow_trans [OF ok f] shrinks_trans [OF q(1)] by blast
    show ?thesis
    proof (cases sent)
      case True
      then have "card (qset s1) < card (qset s)" using q(2) qset_less [OF ok] by blast
      then show ?thesis using IH [of h 0] hq True m by simp
    next
      case ns: False
      have "flow mgmtKs H s1 H (emit EndOfBurst s1)" by (rule flow_emit [OF ok1]) (simp_all add: ev_ok_def ev_freed_def)
      then have e: "flow mgmtKs H s H (emit EndOfBurst s1)" by (rule flow_trans [OF ok f])
      have e': "shrinks s (emit EndOfBurst s1)" using q(1) by (simp add: shrinks_def items_def emit_def)
      consider "act" "q + 1 < 2" | "\<not> (act \<and> q + 1 < 2)" "h + 1 < 7" | "\<not> (act \<and> q + 1 < 2)" "\<not> h + 1 < 7" by blast
      then show ?thesis
      proof cases
        case 1
        then show ?thesis using IH [of h "q + 1"] hq le ns m by simp
      next
        case 2
        have "(6 - (h + 1)) * 2 + (1 - 0) < (6 - h) * 2 + (1 - q)" using 2(2) hq by arith
        then have "card (qset s1) * 14 + ((6 - (h + 1)) * 2 + (1 - 0)) < card (qset s) * 14 + ((6 - h) * 2 + (1 - q))"
          using le by linarith
        then obtain s' where "mgmt_loop True ops (h + 1) 0 s1 = Some s'" "flow mgmtKs H s H s' \<and> shrinks s s'"
          using IH [of "h + 1" 0] 2(2) by auto
        then show ?thesis unfolding m if_not_P [OF ns] if_not_P [OF 2(1)] if_P [OF 2(2)] by blast
      next
        case 3
        then show ?thesis unfolding m if_not_P [OF ns] if_not_P [OF 3(1)] if_not_P [OF 3(2)] using e e' by blast
      qed
    qed
  qed
qed

lemma runScheduler_flow: "tx_ok H s \<Longrightarrow> \<exists>s'. runScheduler True ops s = Some s' \<and> flow mgmtKs H s H s' \<and> shrinks s s'"
  unfolding runScheduler_def by (rule mgmt_loop_flow) simp_all


section \<open>Emptying queues\<close>

lemma flush_queue_flow:
  assumes "tx_ok H s" and k: "k \<in> set qids"
  shows "\<exists>s'. flush_queue True k s = Some s' \<and> flow {k} H s H s' \<and> items s' k = []"
  using assms(1)
proof (induction "items s k" arbitrary: s)
  case Nil
  note ok = Nil.prems
  show ?case
    by (cases rule: flow_dequeue [OF ok k]; subst flush_queue.simps)
      (use Nil.hyps calm_flow [OF ok calm_refl] in \<open>simp_all add: fun_eq_iff\<close>)
next
  case (Cons y ys)
  note ok = Cons.prems
  show ?case
  proof (cases rule: flow_dequeue [OF ok k])
    case 1
    then show ?thesis using Cons.hyps(2) by simp
  next
    case (2 x s1)
    obtain s2 where s2: "txCtrl_FreePacket x TI_NOK s1 = Some s2" "flow {k} (x # H) s1 H s2" "links s2 = links s1" "queues s2 = queues s1"
      by (rule flow_free [OF flow_ok(1) [OF 2(3)]])
    have f: "flow {k} H s H s2" by (rule flow_trans [OF ok 2(3) s2(2)])
    have "ys = items s2 k" using Cons.hyps(2) 2(6) s2(3,4) by (simp add: items_def)
    then obtain s' where s': "flush_queue True k s2 = Some s'" "flow {k} H s2 H s'" "items s' k = []"
      using Cons.hyps(1) [OF _ flow_ok(1) [OF f]] by blast
    have "flush_queue True k s = Some s'" by (subst flush_queue.simps) (simp add: 2(1,2) s2(1) s'(1))
    then show ?thesis using flow_trans [OF ok f s'(2)] s'(3) by blast
  qed
qed

lemma flush_queues_flow:
  assumes "tx_ok H s" and "set ks \<subseteq> set qids" and "distinct ks"
  shows "\<exists>s'. flush_queues True ks s = Some s' \<and> flow (set ks) H s H s' \<and> (\<forall>k \<in> set ks. items s' k = [])"
  using assms
proof (induction ks arbitrary: s)
  case Nil
  then show ?case using calm_flow [OF _ calm_refl] by auto
next
  case (Cons k ks)
  note ok = Cons.prems(1)
  obtain s1 where s1: "flush_queue True k s = Some s1" "flow {k} H s H s1" "items s1 k = []"
    using flush_queue_flow [OF ok, of k] Cons.prems(2) by auto
  obtain s' where s': "flush_queues True ks s1 = Some s'" "flow (set ks) H s1 H s'" "\<forall>k \<in> set ks. items s' k = []"
    using Cons.IH [OF flow_ok(1) [OF s1(2)]] Cons.prems(2,3) by auto
  have "items s' k = []" using s'(2) s1(3) Cons.prems(3) by (simp add: flow_def)
  moreover have "flow (set (k # ks)) H s H s'"
    by (rule flow_trans [OF ok flow_mono [OF s1(2)] flow_mono [OF s'(2)]]) auto
  ultimately show ?case using s1(1) s'(1,3) by auto
qed

lemma shrinks_flush: "flow K H s H s' \<Longrightarrow> \<forall>k \<in> K. items s' k = [] \<Longrightarrow> shrinks s s'"
  unfolding flow_def shrinks_def by (metis empty_set empty_subsetI order_refl)

lemma txDataQ_Flush_flow:
  assumes "tx_ok H s" and "h < 7"
  shows "\<exists>s'. txDataQ_FlushLinkQueues True h s = Some s' \<and> flow dataKs H s H s' \<and> shrinks s s' \<and> (\<forall>q < 4. items s' (DataQ h q) = [])"
proof -
  have n: "unat (uNumQueues (dataQ s)) = 4" using assms(1) by (simp add: tx_ok_def data_ok_def)
  have ks: "set (map (DataQ h) [0..<4]) \<subseteq> set qids" using assms(2) by auto
  obtain s' where s': "txDataQ_FlushLinkQueues True h s = Some s'" "flow (set (map (DataQ h) [0..<4])) H s H s'"
    "\<forall>k \<in> set (map (DataQ h) [0..<4]). items s' k = []"
    using flush_queues_flow [OF assms(1) ks] n by (auto simp: txDataQ_FlushLinkQueues_def distinct_map inj_on_def)
  have "set (map (DataQ h) [0..<4]) \<subseteq> dataKs" by auto
  then show ?thesis using s'(1,3) flow_mono [OF s'(2)] shrinks_flush [OF s'(2,3)] by auto
qed

lemma TxMgmtQ_Flush_flow:
  assumes "tx_ok H s" and "h < 7"
  shows "\<exists>s'. TxMgmtQ_FlushLinkQueues True h s = Some s' \<and> flow mgmtKs H s H s' \<and> shrinks s s' \<and> (\<forall>q < 2. items s' (MgmtQ h q) = [])"
proof -
  have ks: "set (map (MgmtQ h) [0..<2]) \<subseteq> set qids" using assms(2) by auto
  obtain s' where s': "TxMgmtQ_FlushLinkQueues True h s = Some s'" "flow (set (map (MgmtQ h) [0..<2])) H s H s'"
    "\<forall>k \<in> set (map (MgmtQ h) [0..<2]). items s' k = []"
    using flush_queues_flow [OF assms(1) ks] by (auto simp: TxMgmtQ_FlushLinkQueues_def distinct_map inj_on_def)
  have "set (map (MgmtQ h) [0..<2]) \<subseteq> mgmtKs" by auto
  then show ?thesis using s'(1,3) flow_mono [OF s'(2)] shrinks_flush [OF s'(2,3)] by auto
qed

section \<open>Work\<close>

text \<open>
  Operations that also open and close links.  The links are consistent when a link is open for data in
  the state \<open>SM_STATE_OPEN_DATA\<close> only, and its management queues are enabled by the state; then every
  packet is transmitted in a state that allows it.
\<close>

definition state_queues :: "ESmState \<Rightarrow> bool list" where
  "state_queues st = (case st of SM_STATE_CLOSE \<Rightarrow> [False, False] | SM_STATE_MGMT \<Rightarrow> [True, False]
     | SM_STATE_EAPOL \<Rightarrow> [True, True] | SM_STATE_OPEN_MGMT \<Rightarrow> [True, True] | SM_STATE_OPEN_DATA \<Rightarrow> [False, False])"

definition gate_ok :: "'w TxState \<Rightarrow> bool" where
  "gate_ok s \<longleftrightarrow> (\<forall>h < 7. (bEnabled (dlink s h) \<longleftrightarrow> eState (mlink s h) = SM_STATE_OPEN_DATA) \<and>
     aQenabled (mlink s h) = state_queues (eState (mlink s h)))"

definition sent_ok :: "tx_event \<Rightarrow> bool" where
  "sent_ok e \<longleftrightarrow>
     (case e of
        SentData p h ty st \<Rightarrow> st = SM_STATE_OPEN_DATA
      | SentMgmt p h ty st \<Rightarrow> st \<notin> {SM_STATE_CLOSE, SM_STATE_OPEN_DATA} \<and> (ty \<noteq> TX_PKT_TYPE_MGMT \<longrightarrow> st \<noteq> SM_STATE_MGMT)
      | _ \<Rightarrow> True)"

lemma gate_sent:
  assumes "gate_ok s" and "ev_ok s e"
  shows "sent_ok e"
proof -
  have d: "bEnabled (dlink s h) \<longleftrightarrow> eState (mlink s h) = SM_STATE_OPEN_DATA"
    and q: "aQenabled (mlink s h) = state_queues (eState (mlink s h))" if "h < 7" for h
    using assms(1) that by (auto simp: gate_ok_def)
  show ?thesis
  proof (cases e)
    case (SentData p h ty st)
    then show ?thesis using d [of h] assms(2) by (simp add: ev_ok_def sent_ok_def)
  next
    case (SentMgmt p h ty st)
    then show ?thesis
      using q [of h] assms(2) by (cases "eState (mlink s h)") (auto simp: ev_ok_def sent_ok_def state_queues_def less_2_cases_iff)
  qed (simp_all add: sent_ok_def)
qed

definition work :: "bool \<Rightarrow> ptr list \<Rightarrow> 'w TxState \<Rightarrow> ptr list \<Rightarrow> 'w TxState \<Rightarrow> bool" where
  "work g H s H' s' \<longleftrightarrow> tx_ok H' s' \<and> (g \<longrightarrow> gate_ok s \<longrightarrow> gate_ok s') \<and>
     (\<exists>evs. log s' = log s @ evs \<and> mset_set (own H s) = mset_set (own H' s') + freed evs \<and>
       (g \<longrightarrow> gate_ok s \<longrightarrow> (\<forall>e \<in> set evs. sent_ok e)))"

lemma work_ok: "work g H s H' s' \<Longrightarrow> tx_ok H' s'"
  by (simp add: work_def)

lemma work_trans:
  assumes "work g H s H' s'" and "work g H' s' H'' s''"
  shows "work g H s H'' s''"
proof -
  obtain es es' where "log s' = log s @ es" "mset_set (own H s) = mset_set (own H' s') + freed es"
    "g \<longrightarrow> gate_ok s \<longrightarrow> (\<forall>e \<in> set es. sent_ok e)"
    "log s'' = log s' @ es'" "mset_set (own H' s') = mset_set (own H'' s'') + freed es'"
    "g \<longrightarrow> gate_ok s' \<longrightarrow> (\<forall>e \<in> set es'. sent_ok e)"
    using assms by (auto simp: work_def)
  then show ?thesis using assms unfolding work_def by (auto intro!: exI [of _ "es @ es'"])
qed

lemma gate_ok_gates: "tx_ok H s \<Longrightarrow> tx_ok H' s' \<Longrightarrow> gates s' = gates s \<Longrightarrow> gate_ok s' \<longleftrightarrow> gate_ok s"
  using gates_oks [of H s H' s'] by (simp add: gate_ok_def)

lemma flow_work:
  assumes "tx_ok H s" and "flow K H s H' s'"
  shows "work g H s H' s'"
proof -
  obtain es where "log s' = log s @ es" "mset_set (own H s) = mset_set (own H' s') + freed es" "\<forall>e \<in> set es. ev_ok s e"
    using assms(2) by (auto simp: flow_def)
  then show ?thesis
    using gate_sent gate_ok_gates [OF assms(1) flow_ok [OF assms(2)]] flow_ok(1) [OF assms(2)]
    unfolding work_def by (auto intro!: exI [of _ es])
qed

text \<open>Changes of the links and of parameters.\<close>

definition still :: "'w TxState \<Rightarrow> 'w TxState \<Rightarrow> bool" where
  "still s s' \<longleftrightarrow> links s' = links s \<and> queues s' = queues s \<and> inFw s' = inFw s \<and> log s' = log s \<and> pkts s' = pkts s \<and>
     tDataRsrc (dataQ s') = tDataRsrc (dataQ s) \<and> (oks s \<longrightarrow> oks s')"

lemma still_work:
  assumes ok: "tx_ok H s" and "still s s'" and "g \<longrightarrow> gate_ok s \<longrightarrow> gate_ok s'"
  shows "work g H s H s'" "items s' = items s"
proof -
  show i: "items s' = items s" using assms(2) by (simp add: still_def items_def)
  then have "own H s' = own H s" using assms(2) by (simp add: still_def qset_def own_def)
  moreover have "core H s'" by (rule core_cong [OF tx_ok_core(1) [OF ok]]) (use assms(2) in \<open>simp_all add: still_def\<close>)
  ultimately show "work g H s H s'"
    using assms unfolding work_def by (auto simp: tx_ok_oks still_def intro!: exI [of _ "[]"])
qed

lemma still_trans: "still s t \<Longrightarrow> still t u \<Longrightarrow> still s u"
  by (simp add: still_def)

lemma still_refl [simp]: "still s s"
  by (simp add: still_def)

lemma still_upd_dlink: "still s (upd_dlink h f s)"
  by (simp add: still_def upd_dlink_def upd_data_def oks_def data_ok_def)

lemma still_upd_mlink: "still s (upd_mlink h f s)"
  by (simp add: still_def upd_mlink_def upd_mgmt_def oks_def mgmt_ok_def)

lemma still_upd_data:
  "(\<And>d. data_ok d \<Longrightarrow> data_ok (f d)) \<Longrightarrow> (\<And>d. tDataRsrc (f d) = tDataRsrc d) \<Longrightarrow> still s (upd_data f s)"
  by (simp add: still_def upd_data_def oks_def)

lemma still_upd_mgmt: "(\<And>d. mgmt_ok d \<Longrightarrow> mgmt_ok (f d)) \<Longrightarrow> still s (upd_mgmt f s)"
  by (simp add: still_def upd_mgmt_def oks_def)

end
