(* ===== verification/TxOps.thy ===== *)
theory TxOps
  imports TxDrain
begin

text \<open>
  The operations of the transmit path as steps: the state machine of the links, the entry of packets, the
  backpressure and the completion.
\<close>

section \<open>The state machine\<close>

lemma mlink_upd:
  assumes "length (aMgmtLinkQ (mgmtQ s)) = 7" and "h < 7"
  shows "mlink (upd_mlink h f s) h' = (if h' = h then f (mlink s h) else mlink s h')"
  using assms by (simp add: mlink_def upd_mlink_def upd_mgmt_def)

lemma dlink_upd:
  assumes "length (aDataLinkQ (dataQ s)) = 7" and "h < 7"
  shows "dlink (upd_dlink h f s) h' = (if h' = h then f (dlink s h) else dlink s h')"
  using assms by (simp add: dlink_def upd_dlink_def upd_data_def)

lemma link_upd_other [simp]: "dlink (upd_mlink h f s) h' = dlink s h'" "mlink (upd_dlink h g s) h' = mlink s h'"
    "aMgmtLinkQ (mgmtQ (upd_dlink h g s)) = aMgmtLinkQ (mgmtQ s)" "aDataLinkQ (dataQ (upd_mlink h f s)) = aDataLinkQ (dataQ s)"
    "length (aMgmtLinkQ (mgmtQ (upd_mlink h f s))) = length (aMgmtLinkQ (mgmtQ s))"
    "length (aDataLinkQ (dataQ (upd_dlink h g s))) = length (aDataLinkQ (dataQ s))"
  by (simp_all add: dlink_def mlink_def upd_mlink_def upd_mgmt_def upd_dlink_def upd_data_def)

lemma tx_ok_lengths:
  assumes "tx_ok H s"
  shows "length (aMgmtLinkQ (mgmtQ s)) = 7" "length (aDataLinkQ (dataQ s)) = 7"
  using assms by (simp_all add: tx_ok_def data_ok_def mgmt_ok_def)

text \<open>A link is given a new state and is opened or closed for data.\<close>

definition regated :: "nat \<Rightarrow> ESmState \<Rightarrow> 'w TxState \<Rightarrow> 'w TxState \<Rightarrow> bool" where
  "regated h st s s' \<longleftrightarrow> still s s' \<and> eState (mlink s' h) = st \<and>
     (\<forall>h' < 7. h' \<noteq> h \<longrightarrow> dlink s' h' = dlink s h' \<and> mlink s' h' = mlink s h')"

lemma regated_work:
  assumes "tx_ok H s" and "regated h st s s'"
    and "g \<longrightarrow> gate_ok s \<longrightarrow> (bEnabled (dlink s' h) \<longleftrightarrow> st = SM_STATE_OPEN_DATA) \<and> aQenabled (mlink s' h) = state_queues st"
  shows "work g H s H s'" "items s' = items s"
proof -
  have "gate_ok s'" if "g" "gate_ok s"
    unfolding gate_ok_def
  proof (intro allI impI)
    fix h' :: nat assume h': "h' < 7"
    show "(bEnabled (dlink s' h') \<longleftrightarrow> eState (mlink s' h') = SM_STATE_OPEN_DATA) \<and>
        aQenabled (mlink s' h') = state_queues (eState (mlink s' h'))"
      using assms(2,3) that h' by (cases "h' = h") (simp_all add: regated_def gate_ok_def)
  qed
  then have g: "g \<longrightarrow> gate_ok s \<longrightarrow> gate_ok s'" by blast
  have st: "still s s'" using assms(2) by (simp add: regated_def)
  show "work g H s H s'" "items s' = items s" by (rule still_work [OF assms(1) st g])+
qed

text \<open>What the states of the links can do while the schedulers run.\<close>

definition settles :: "'w TxState \<Rightarrow> 'w TxState \<Rightarrow> bool" where
  "settles s s' \<longleftrightarrow> shrinks s s' \<and>
     (\<forall>h < 7. eState (mlink s' h) = eState (mlink s h) \<or>
        (eState (mlink s h) = SM_STATE_OPEN_MGMT \<and> eState (mlink s' h) = SM_STATE_OPEN_DATA))"

lemma settles_refl [simp]: "settles s s"
  by (simp add: settles_def)

lemma settles_trans: "settles s t \<Longrightarrow> settles t u \<Longrightarrow> settles s u"
  unfolding settles_def using shrinks_trans by (metis ESmState.distinct(19))

lemma settles_flow: "tx_ok H s \<Longrightarrow> flow K H s H s' \<Longrightarrow> shrinks s s' \<Longrightarrow> settles s s'"
  using gates_oks(5) [of H s H s'] flow_ok [of K H s H s'] by (simp add: settles_def)

lemma enable_data_work:
  assumes ok: "tx_ok H s" and h: "h < 7" and l: "eState l = SM_STATE_OPEN_DATA" "aQenabled l = [False, False]"
  shows "\<exists>s'. txDataQ_EnableLink True ops h (txMgmtQ_DisableLink h (upd_mlink h (\<lambda>_. l) s)) = Some s' \<and> work True H s H s' \<and>
    shrinks s s' \<and> (\<forall>h' < 7. eState (mlink s' h') = (if h' = h then SM_STATE_OPEN_DATA else eState (mlink s h')))"
proof -
  note n = tx_ok_lengths [OF ok]
  define t where "t = upd_dlink h (\<lambda>l. l\<lparr>bEnabled := True\<rparr>) (upd_mlink h (\<lambda>l. l\<lparr>bEnabled := False\<rparr>) (upd_mlink h (\<lambda>_. l) s))"
  have "still s t" unfolding t_def using still_trans still_upd_dlink still_upd_mlink by blast
  then have r: "regated h SM_STATE_OPEN_DATA s t" using n h l by (simp add: regated_def t_def mlink_upd dlink_upd)
  have w: "work True H s H t" and i: "items t = items s"
    by (rule regated_work [OF ok r]; use n h l in \<open>simp add: t_def mlink_upd dlink_upd state_queues_def\<close>)+
  obtain s' where s': "txDataQ_RunScheduler True ops t = Some s'" "flow dataKs H t H s'" "shrinks t s'"
    using RunScheduler_flow [OF work_ok [OF w]] by blast
  have "eState (mlink s' h') = eState (mlink t h')" if "h' < 7" for h'
    using gates_oks(5) [OF work_ok [OF w] flow_ok [OF s'(2)] that] .
  moreover have "eState (mlink t h') = (if h' = h then SM_STATE_OPEN_DATA else eState (mlink s h'))" if "h' < 7" for h'
    using n h l by (simp add: t_def mlink_upd dlink_upd)
  moreover have "work True H s H s'" by (rule work_trans [OF w flow_work [OF work_ok [OF w] s'(2)]])
  moreover have "shrinks s s'" using s'(3) i by (simp add: shrinks_def)
  ultimately show ?thesis using s'(1) by (simp add: txDataQ_EnableLink_def txMgmtQ_DisableLink_def t_def)
qed

lemma queues_empty_work:
  assumes ok: "tx_ok H s" and h: "h < 7"
  shows "\<exists>s'. sm_run sched True ops h SM_EVENT_QUEUES_EMPTY s = Some s' \<and> work True H s H s' \<and> settles s s'"
proof (cases "eState (mlink s h) = SM_STATE_OPEN_MGMT")
  case True
  let ?l = "(mlink s h)\<lparr>eState := SM_STATE_OPEN_DATA, aQenabled := [False, False]\<rparr>"
  obtain s' where "txDataQ_EnableLink True ops h (txMgmtQ_DisableLink h (upd_mlink h (\<lambda>_. ?l) s)) = Some s'" "work True H s H s'"
    "shrinks s s'" "\<forall>h' < 7. eState (mlink s' h') = (if h' = h then SM_STATE_OPEN_DATA else eState (mlink s h'))"
    using enable_data_work [OF ok h, of ?l] by auto
  then show ?thesis using True h by (simp add: sm_run_def sm_next_def settles_def)
next
  case False
  have "upd_mlink h (\<lambda>_. mlink s h) s = s" by (simp add: upd_mlink_def upd_mgmt_def mlink_def)
  moreover have "work True H s H s" by (rule still_work(1) [OF ok]) simp_all
  ultimately show ?thesis using False h by (simp add: sm_run_def sm_next_def)
qed

lemma ARE_EMPTY_eq:
  assumes "tx_ok H s" and "h < 7"
  shows "ARE_LINK_MGMT_QUEUES_EMPTY s h = Some (items s (MgmtQ h 0) = [] \<and> items s (MgmtQ h 1) = [])"
proof -
  note c = tx_ok_core(1) [OF assms(1)]
  have "\<exists>n. fam_Size (queues s) (MgmtQ h q) = Some n \<and> (n = 0 \<longleftrightarrow> items s (MgmtQ h q) = [])" if "q < 2" for q
  proof -
    have "MgmtQ h q \<in> set qids" using assms(2) that by simp
    then obtain r where "queues s (MgmtQ h q) = Some r" using tx_coreD(2) [OF c] by blast
    then obtain n where "fam_Size (queues s) (MgmtQ h q) = Some n" "unat n = length (items s (MgmtQ h q))"
      using fam_Size_items [OF tx_coreD(1) [OF c]] by (auto simp: items_def)
    then show ?thesis by (metis length_0_conv unat_eq_zero)
  qed
  from this [of 0] this [of 1] show ?thesis by (auto simp: ARE_LINK_MGMT_QUEUES_EMPTY_def)
qed

lemma sched_link_work:
  assumes ok: "tx_ok H s" and h: "h < 7"
  shows "\<exists>s'. sched_link True ops h s = Some s' \<and> work True H s H s' \<and> settles s s'"
proof -
  have refl: "work True H s H s" by (rule still_work(1) [OF ok]) simp_all
  obtain s1 where s1: "runScheduler True ops s = Some s1" "flow mgmtKs H s H s1" "shrinks s s1"
    using runScheduler_flow [OF ok] by blast
  note ok1 = flow_ok(1) [OF s1(2)]
  have w: "work True H s H s1" "settles s s1" using flow_work [OF ok s1(2)] settles_flow [OF ok s1(2,3)] by simp_all
  obtain s2 where s2: "sm_run (\<lambda>_. None) True ops h SM_EVENT_QUEUES_EMPTY s1 = Some s2" "work True H s1 H s2" "settles s1 s2"
    using queues_empty_work [OF ok1 h] by blast
  have "work True H s H s2" "settles s s2" using work_trans [OF w(1) s2(2)] settles_trans [OF w(2) s2(3)] by simp_all
  then show ?thesis
    using ARE_EMPTY_eq [OF ok h] ARE_EMPTY_eq [OF ok1 h] s1(1) s2(1) w refl by (auto simp: sched_link_def split: bool.splits)
qed

text \<open>The loops over the links.\<close>

lemma flush_links_work:
  assumes "tx_ok H s" and "\<forall>h \<in> set hs. h < 7"
    and f: "\<And>h s. h < 7 \<Longrightarrow> tx_ok H s \<Longrightarrow> \<exists>s'. f h s = Some s' \<and> work True H s H s' \<and> settles s s'"
  shows "\<exists>s'. flush_links f hs s = Some s' \<and> work True H s H s' \<and> settles s s'"
  using assms(1,2)
proof (induction hs arbitrary: s)
  case Nil
  then show ?case using still_work(1) [OF Nil(1) still_refl, of True] by simp
next
  case (Cons h hs)
  obtain s1 where s1: "f h s = Some s1" "work True H s H s1" "settles s s1" using f [of h s] Cons.prems by auto
  obtain s' where s': "flush_links f hs s1 = Some s'" "work True H s1 H s'" "settles s1 s'"
    using Cons.IH [OF work_ok [OF s1(2)]] Cons.prems by auto
  then show ?case using s1 work_trans [OF s1(2) s'(2)] settles_trans [OF s1(3) s'(3)] by simp
qed

lemma runSchedulerNotFromSm_work:
  assumes "tx_ok H s"
  shows "\<exists>s'. runSchedulerNotFromSm True ops s = Some s' \<and> work True H s H s' \<and> settles s s'"
  unfolding runSchedulerNotFromSm_def by (rule flush_links_work [OF assms]) (simp_all add: sched_link_work)


text \<open>
  The order of the connection events that the state machine is written for: the EAPOL phase is not
  entered from the open state, and a link is opened after its EAPOL phase.
\<close>

definition sm_guard :: "ESmEvent \<Rightarrow> ESmState \<Rightarrow> bool" where
  "sm_guard e st \<longleftrightarrow> (e = SM_EVENT_EAPOL \<longrightarrow> st \<noteq> SM_STATE_OPEN_DATA) \<and> (e = SM_EVENT_OPEN \<longrightarrow> st \<in> {SM_STATE_EAPOL, SM_STATE_OPEN_MGMT})"

lemma sm_next_gate:
  assumes "sm_next e b l = (l', act)" and "sm_guard e (eState l)" and "aQenabled l = state_queues (eState l)"
  shows "aQenabled l' = state_queues (eState l')"
    "act = SM_ACTION_NULL \<Longrightarrow> eState l' = SM_STATE_OPEN_DATA \<longleftrightarrow> eState l = SM_STATE_OPEN_DATA"
    "act = SM_ACTION_RUN_SCHEDULER \<Longrightarrow> eState l \<noteq> SM_STATE_OPEN_DATA \<and> eState l' \<noteq> SM_STATE_OPEN_DATA"
  using assms by (auto simp: sm_next_def sm_guard_def state_queues_def split: ESmEvent.splits if_splits ESmState.splits)

lemma sm_next_action:
  assumes "sm_next e b l = (l', act)"
  shows "act = SM_ACTION_ENABLE_DATA \<Longrightarrow> eState l' = SM_STATE_OPEN_DATA \<and> aQenabled l' = [False, False]"
    "act = SM_ACTION_ENABLE_MGMT \<Longrightarrow> eState l' \<noteq> SM_STATE_OPEN_DATA \<and> aQenabled l' = state_queues (eState l')"
    "act = SM_ACTION_STOP_ALL \<longleftrightarrow> e = SM_EVENT_CLOSE"
    "act = SM_ACTION_STOP_ALL \<Longrightarrow> eState l' = SM_STATE_CLOSE \<and> aQenabled l' = [False, False]"
    "bEnabled l' = bEnabled l"
  using assms by (auto simp: sm_next_def state_queues_def split: ESmEvent.splits if_splits)

lemma STOP_ALL_work:
  assumes ok: "tx_ok H s" and h: "h < 7" and l: "eState l = SM_STATE_CLOSE" "aQenabled l = [False, False]"
    and sched: "\<And>s. tx_ok H s \<Longrightarrow> \<exists>s'. sched s = Some s' \<and> work True H s H s' \<and> settles s s'"
  shows "\<exists>s'. Option.bind (txDataQ_FlushLinkQueues True h (txDataQ_DisableLink h (upd_mlink h (\<lambda>_. l) s))) (\<lambda>s2.
      Option.bind (TxMgmtQ_FlushLinkQueues True h s2) (enable_link sched h)) = Some s' \<and> work True H s H s' \<and>
      eState (mlink s' h) = SM_STATE_CLOSE \<and> (\<forall>q < 4. items s' (DataQ h q) = []) \<and> (\<forall>q < 2. items s' (MgmtQ h q) = [])"
proof -
  note n = tx_ok_lengths [OF ok]
  define t where "t = upd_dlink h (\<lambda>l. l\<lparr>bEnabled := False\<rparr>) (upd_mlink h (\<lambda>_. l) s)"
  have "still s t" unfolding t_def by (rule still_trans [OF still_upd_mlink still_upd_dlink])
  then have r: "regated h SM_STATE_CLOSE s t" using n h l by (simp add: regated_def t_def mlink_upd dlink_upd)
  have w: "work True H s H t"
    by (rule regated_work [OF ok r]) (use n h l in \<open>simp add: t_def mlink_upd dlink_upd state_queues_def\<close>)
  obtain s1 where s1: "txDataQ_FlushLinkQueues True h t = Some s1" "flow dataKs H t H s1" "\<forall>q < 4. items s1 (DataQ h q) = []"
    using txDataQ_Flush_flow [OF work_ok [OF w] h] by blast
  note w1 = work_trans [OF w flow_work [OF work_ok [OF w] s1(2)]]
  obtain s2 where s2: "TxMgmtQ_FlushLinkQueues True h s1 = Some s2" "flow mgmtKs H s1 H s2" "shrinks s1 s2" "\<forall>q < 2. items s2 (MgmtQ h q) = []"
    using TxMgmtQ_Flush_flow [OF work_ok [OF w1] h] by blast
  note w2 = work_trans [OF w1 flow_work [OF work_ok [OF w1] s2(2)]]
  define u where "u = upd_mlink h (\<lambda>l. l\<lparr>bEnabled := True\<rparr>) s2"
  note n2 = tx_ok_lengths [OF work_ok [OF w2]]
  have e: "eState (mlink s2 h) = SM_STATE_CLOSE"
    using gates_oks(5) [OF work_ok [OF w1] work_ok [OF w2] flow_ok(2) [OF s2(2)] h]
      gates_oks(5) [OF work_ok [OF w] work_ok [OF w1] flow_ok(2) [OF s1(2)] h] r by (simp add: regated_def)
  have m: "mlink u h' = (if h' = h then (mlink s2 h)\<lparr>bEnabled := True\<rparr> else mlink s2 h')" for h'
    using n2 h by (simp add: u_def mlink_upd)
  have gu: "True \<longrightarrow> gate_ok s2 \<longrightarrow> gate_ok u" by (auto simp: gate_ok_def m) (simp_all add: u_def)
  have "still s2 u" unfolding u_def by (rule still_upd_mlink)
  from still_work [OF work_ok [OF w2] this gu] have w3: "work True H s2 H u" and iu: "items u = items s2" .
  obtain s3 where s3: "sched u = Some s3" "work True H u H s3" "settles u s3" using sched [OF work_ok [OF w3]] by blast
  have "eState (mlink s3 h) = SM_STATE_CLOSE" using s3(3) h e m [of h] by (auto simp: settles_def)
  moreover have "items s3 k = []" if "items s2 k = []" for k
    using s3(3) that iu unfolding settles_def shrinks_def by (metis empty_set set_empty subset_empty)
  moreover have "items s2 (DataQ h q) = []" if "q < 4" for q
    using s1(3) s2(3) that unfolding shrinks_def by (metis empty_set set_empty subset_empty)
  moreover have "work True H s H s3" by (rule work_trans [OF work_trans [OF w2 w3] s3(2)])
  ultimately show ?thesis
    using s1(1) s2(1,4) s3(1) by (simp add: txDataQ_DisableLink_def enable_link_def t_def u_def)
qed

lemma sm_run_work:
  assumes ok: "tx_ok H s" and h: "h < 7"
    and sched: "\<And>s. tx_ok H s \<Longrightarrow> \<exists>s'. sched s = Some s' \<and> work True H s H s' \<and> settles s s'"
  shows "\<exists>s'. sm_run sched True ops h e s = Some s' \<and> work (sm_guard e (eState (mlink s h))) H s H s'"
proof -
  let ?g = "sm_guard e (eState (mlink s h))"
  note n = tx_ok_lengths [OF ok]
  obtain b where b: "(if e = SM_EVENT_OPEN then ARE_LINK_MGMT_QUEUES_EMPTY s h else Some False) = Some b"
    using ARE_EMPTY_eq [OF ok h] by (cases "e = SM_EVENT_OPEN") simp_all
  obtain l act where nx: "sm_next e b (mlink s h) = (l, act)" by fastforce
  have gl: "gate_ok s \<Longrightarrow> aQenabled (mlink s h) = state_queues (eState (mlink s h))"
    "gate_ok s \<Longrightarrow> bEnabled (dlink s h) \<longleftrightarrow> eState (mlink s h) = SM_STATE_OPEN_DATA" using h by (auto simp: gate_ok_def)
  have any: "work True H t H t' \<Longrightarrow> work ?g H t H t'" for t t' by (auto simp: work_def)
  define t where "t = upd_mlink h (\<lambda>_. l) s"
  have rt: "regated h (eState l) s t" using n h still_upd_mlink by (simp add: regated_def t_def mlink_upd)
  show ?thesis
  proof (cases act)
    case SM_ACTION_NULL
    have "work ?g H s H t"
      by (rule regated_work(1) [OF ok rt])
        (use sm_next_gate [OF nx] gl SM_ACTION_NULL n h in \<open>auto simp: t_def mlink_upd\<close>)
    then show ?thesis using b nx h SM_ACTION_NULL by (simp add: sm_run_def t_def)
  next
    case SM_ACTION_ENABLE_DATA
    then show ?thesis
      using enable_data_work [OF ok h, of l ops] sm_next_action(1) [OF nx] b nx h any by (auto simp: sm_run_def)
  next
    case SM_ACTION_ENABLE_MGMT
    define u where "u = upd_mlink h (\<lambda>l. l\<lparr>bEnabled := True\<rparr>) (upd_dlink h (\<lambda>l. l\<lparr>bEnabled := False\<rparr>) t)"
    have "still s u" unfolding u_def t_def using still_trans still_upd_dlink still_upd_mlink by blast
    then have "regated h (eState l) s u" using n h by (simp add: regated_def t_def u_def mlink_upd dlink_upd)
    then have w: "work True H s H u"
      by (rule regated_work(1) [OF ok])
        (use sm_next_action(2) [OF nx] SM_ACTION_ENABLE_MGMT n h in \<open>simp add: t_def u_def mlink_upd dlink_upd\<close>)
    obtain s' where s': "sched u = Some s'" "work True H u H s'" using sched [OF work_ok [OF w]] by blast
    have "work ?g H s H s'" by (rule any [OF work_trans [OF w s'(2)]])
    then show ?thesis
      using b nx h SM_ACTION_ENABLE_MGMT s'(1) by (simp add: sm_run_def enable_link_def txDataQ_DisableLink_def t_def u_def)
  next
    case SM_ACTION_RUN_SCHEDULER
    have w: "work ?g H s H t"
      by (rule regated_work(1) [OF ok rt])
        (use sm_next_gate [OF nx] gl SM_ACTION_RUN_SCHEDULER n h in \<open>auto simp: t_def mlink_upd\<close>)
    obtain s' where s': "runScheduler True ops t = Some s'" "flow mgmtKs H t H s'" using runScheduler_flow [OF work_ok [OF w]] by blast
    have "work ?g H s H s'" by (rule work_trans [OF w flow_work [OF work_ok [OF w] s'(2)]])
    then show ?thesis using b nx h SM_ACTION_RUN_SCHEDULER s'(1) by (simp add: sm_run_def t_def)
  next
    case SM_ACTION_STOP_ALL
    then have l: "eState l = SM_STATE_CLOSE" "aQenabled l = [False, False]" using sm_next_action(4) [OF nx] by simp_all
    show ?thesis
      using STOP_ALL_work [where sched = sched, OF ok h l sched] b nx h any SM_ACTION_STOP_ALL by (auto simp: sm_run_def)
  qed
qed

lemma mgmtQueuesSM_work:
  assumes "tx_ok H s" and "h < 7"
  shows "\<exists>s'. mgmtQueuesSM True ops h e s = Some s' \<and> work (sm_guard e (eState (mlink s h))) H s H s'"
  unfolding mgmtQueuesSM_def by (rule sm_run_work [OF assms]) (rule runSchedulerNotFromSm_work)

lemma sm_guard_queues [simp]: "sm_guard SM_EVENT_QUEUES_NOT_EMPTY st" "sm_guard SM_EVENT_CLOSE st" "sm_guard SM_EVENT_MGMT st"
  by (simp_all add: sm_guard_def)

end
