(* ===== verification/TxEntry.thy ===== *)
theory TxEntry
  imports TxOps
begin

text \<open>The entry of packets into the transmit path.\<close>

section \<open>Admission\<close>

text \<open>A packet that is not in the transmit path, with a whole Ethernet or 802.11 header in its first buffer.\<close>

definition entry_ok :: "ptr \<Rightarrow> ptr list \<Rightarrow> 'w TxState \<Rightarrow> bool" where
  "entry_ok p H s \<longleftrightarrow> p \<notin> own H s \<and> fam_valid 0 (queues s) p \<and> rsrc_fresh (pkts s p) \<and>
     (\<exists>b. buf (pkts s p) 0 = Some b \<and> 14 \<le> length b)"

text \<open>Work that starts with the entry of a packet: it is queued, handed over or freed.\<close>

definition enters :: "ptr \<Rightarrow> ptr list \<Rightarrow> 'w TxState \<Rightarrow> 'w TxState \<Rightarrow> bool" where
  "enters p H s s' \<longleftrightarrow> tx_ok H s' \<and> (gate_ok s \<longrightarrow> gate_ok s') \<and>
     (\<exists>evs. log s' = log s @ evs \<and> add_mset p (mset_set (own H s)) = mset_set (own H s') + freed evs \<and>
       (gate_ok s \<longrightarrow> (\<forall>e \<in> set evs. sent_ok e)))"

text \<open>The packet in hand, with its resources.\<close>

definition admitted :: "ptr \<Rightarrow> ptr list \<Rightarrow> 'w TxState \<Rightarrow> 'w TxState \<Rightarrow> bool" where
  "admitted p H s t \<longleftrightarrow> tx_ok (p # H) t \<and> gates t = gates s \<and> log t = log s \<and> items t = items s \<and>
     mset_set (own (p # H) t) = add_mset p (mset_set (own H s))"

lemma held_outside: "core H s \<Longrightarrow> p \<notin> own H s \<Longrightarrow> held H (s\<lparr>pkts := (pkts s)(p := pkt)\<rparr>) = held H s"
proof -
  assume a: "core H s" "p \<notin> own H s"
  have "own H (s\<lparr>pkts := (pkts s)(p := pkt)\<rparr>) = own H s" by (simp add: own_def qset_def items_def)
  then show ?thesis unfolding held_def by (simp only:) (rule image_mset_cong, use a own_finite [OF a(1)] in auto)
qed

lemma core_outside:
  assumes c: "core H s" and p: "p \<notin> own H s"
  shows "core H (s\<lparr>pkts := (pkts s)(p := pkt)\<rparr>)"
proof -
  let ?s = "s\<lparr>pkts := (pkts s)(p := pkt)\<rparr>"
  have i: "items ?s = items s" "qset ?s = qset s" "own H ?s = own H s"
    by (simp_all add: items_def qset_def own_def)
  have e: "pkts ?s q = pkts s q" if "q \<in> own H s" for q using that p by auto
  have "held H ?s = held H s" by (rule held_outside [OF c p])
  moreover have "q \<in> own H s" if "q \<in> set (items s k)" for q k using that by (auto simp: own_def qset_def)
  ultimately show ?thesis using c e unfolding core_def i by (simp del: fun_upd_apply)
qed

lemma admit:
  assumes ok: "tx_ok H s" and en: "entry_ok p H s"
    and a: "txDataQ_AllocCheckResources (tDataRsrc (dataQ s)) pkt = Some (TI_OK, r, pkt')"
    and f: "rsrc_fresh pkt" "buf pkt = buf (pkts s p)"
  shows "admitted p H s (upd_pkt p (\<lambda>_. pkt') (upd_data (\<lambda>d. d\<lparr>tDataRsrc := r\<rparr>) s))"
proof -
  let ?t = "upd_pkt p (\<lambda>_. pkt') (upd_data (\<lambda>d. d\<lparr>tDataRsrc := r\<rparr>) s)"
  note c = tx_ok_core(1) [OF ok]
  have p: "p \<notin> own H s" "fam_valid 0 (queues s) p" using en by (simp_all add: entry_ok_def)
  have i: "items ?t = items s" by (simp add: items_def upd_pkt_def upd_data_def)
  then have q: "qset ?t = qset s" by (simp add: qset_def)
  have o: "own (p # H) ?t = insert p (own H s)" using q by (auto simp: own_def upd_pkt_def upd_data_def)
  have m: "mset_set (own (p # H) ?t) = add_mset p (mset_set (own H s))"
    unfolding o using p(1) own_finite [OF c] by simp
  have e: "pkts ?t x = pkts s x" if "x \<in> own H s" for x using that p by (auto simp: upd_pkt_def upd_data_def)
  have "held (p # H) ?t = add_mset (rsrc_class pkt') (held H s)"
  proof -
    have "image_mset (\<lambda>x. rsrc_class (pkts ?t x)) (mset_set (own H s)) = held H s"
      unfolding held_def by (rule image_mset_cong) (use e own_finite [OF c] in simp)
    then show ?thesis unfolding held_def m by (simp add: upd_pkt_def)
  qed
  moreover have "rsrc_inv r (add_mset (rsrc_class pkt') (held H s))"
    using rsrc_alloc(2) [OF tx_coreD(6) [OF c] a f(1)] by simp
  ultimately have r: "rsrc_inv (tDataRsrc (dataQ ?t)) (held (p # H) ?t)" by (simp add: upd_pkt_def upd_data_def)
  have pk: "pk_ok pkt'"
    using rsrc_range [OF a] rsrc_class_alloc(2) [OF a f(1)] f(2) en
    by (simp add: pk_ok_def entry_ok_def SET_TX_CTRL_FLAG_RSRC_AC_def SET_TX_CTRL_FLAG_RSRC_ALLOCATED_def)
  have "core (p # H) ?t"
    unfolding core_def i q o
  proof (intro conjI)
    show "distinct ((p # H) @ inFw ?t)" using tx_coreD(7) [OF c] p(1) by (auto simp: own_def upd_pkt_def upd_data_def)
    show "(set (p # H) \<union> set (inFw ?t)) \<inter> qset s = {}"
      using tx_coreD(8) [OF c] p(1) by (auto simp: own_def upd_pkt_def upd_data_def)
    show "\<forall>x \<in> insert p (own H s). pk_ok (pkts ?t x) \<and> fam_valid 0 (queues ?t) x"
      using tx_coreD(3,4) [OF c] pk p e by (auto simp: upd_pkt_def upd_data_def)
    show "\<forall>k. \<forall>x \<in> set (items s k). place_ok k (pkts ?t x)"
    proof (intro allI ballI)
      fix k x assume x: "x \<in> set (items s k)"
      then have "x \<in> own H s" by (auto simp: own_def qset_def)
      then show "place_ok k (pkts ?t x)" using tx_coreD(5) [OF c x] by (simp only: e)
    qed
    show "rsrc_inv (tDataRsrc (dataQ ?t)) (held (p # H) ?t)" by (rule r)
  qed (use c in \<open>simp_all add: core_def upd_pkt_def upd_data_def\<close>)
  moreover have "oks ?t" using ok by (simp add: tx_ok_oks oks_def data_ok_def upd_pkt_def upd_data_def)
  ultimately show ?thesis
    unfolding admitted_def using i m by (simp add: tx_ok_oks gates_def upd_pkt_def upd_data_def)
qed

lemma core_rsrc:
  assumes "core H s" and "links s' = links s" "queues s' = queues s" "pkts s' = pkts s" "inFw s' = inFw s"
    and "rsrc_inv (tDataRsrc (dataQ s')) (held H s)"
  shows "core H s'"
proof -
  have "items s' = items s" using assms by (simp add: items_def)
  then have "qset s' = qset s" "own H s' = own H s" using assms by (simp_all add: qset_def own_def)
  then show ?thesis using assms by (simp add: core_def held_def items_def)
qed

lemma refuse:
  assumes ok: "tx_ok H s" and en: "entry_ok p H s"
    and a: "txDataQ_AllocCheckResources (tDataRsrc (dataQ s)) pkt = Some (st, r, pkt')" and f: "rsrc_fresh pkt"
    and t: "calm (upd_pkt p (\<lambda>_. pkt') (upd_data (\<lambda>d. d\<lparr>tDataRsrc := r\<rparr>) s)) t" "pkts t = (pkts s)(p := pkt')"
  shows "\<exists>s'. txCtrl_FreePacket p TI_NOK t = Some s' \<and> enters p H s s'"
proof -
  note c = tx_ok_core(1) [OF ok]
  have p: "p \<notin> own H s" using en by (simp add: entry_ok_def)
  let ?u = "upd_pkt p (\<lambda>_. pkt') (upd_data (\<lambda>d. d\<lparr>tDataRsrc := r\<rparr>) s)"
  have tf: "links t = links s" "queues t = queues s" "inFw t = inFw s" "log t = log s" "tDataRsrc (dataQ t) = r" "gates t = gates s"
    and okt: "oks t"
    using t(1) ok by (simp_all add: calm_def upd_pkt_def upd_data_def gates_def tx_ok_oks oks_def data_ok_def)
  obtain r2 where r2: "txDataQ_FreeResources r pkt' = Some r2" "rsrc_inv r2 (held H s)"
    using rsrc_refused [OF tx_coreD(6) [OF c] a f] by metis
  let ?s = "emit (Freed p TI_NOK) (upd_data (\<lambda>d. d\<lparr>tDataRsrc := r2\<rparr>) t)"
  have fr: "txCtrl_FreePacket p TI_NOK t = Some ?s" using t(2) tf r2(1) by (simp add: txCtrl_FreePacket_def)
  have "core H ?s"
    by (rule core_rsrc [OF core_outside [OF c p, of pkt']])
      (use tf t(2) r2(2) held_outside [OF c p] in \<open>simp_all add: emit_def upd_data_def\<close>)
  moreover have "oks ?s" using okt by (simp add: oks_def data_ok_def emit_def upd_data_def)
  ultimately have okS: "tx_ok H ?s" by (simp add: tx_ok_oks)
  have "items ?s = items s" using tf by (simp add: items_def emit_def upd_data_def)
  then have "own H ?s = own H s" using tf by (simp add: own_def qset_def emit_def upd_data_def)
  moreover have "gates ?s = gates s" using tf(6) by (simp add: gates_def emit_def upd_data_def)
  moreover then have "gate_ok ?s \<longleftrightarrow> gate_ok s" by (rule gate_ok_gates [OF ok okS])
  ultimately have "enters p H s ?s"
    unfolding enters_def using okS tf(4)
    by (auto intro!: exI [of _ "[Freed p TI_NOK]"]) (auto simp: emit_def upd_data_def freed_def ev_freed_def sent_ok_def)
  then show ?thesis using fr by blast
qed


lemma admitted_enters:
  assumes "tx_ok H s" and "admitted p H s t" and "work True (p # H) t H s'"
  shows "enters p H s s'"
proof -
  have "gate_ok t \<longleftrightarrow> gate_ok s" using gate_ok_gates [OF assms(1), of "p # H" t] assms(2) by (simp add: admitted_def)
  then show ?thesis using assms(2,3) by (auto simp: admitted_def enters_def work_def)
qed

lemma flow_enqueue:
  assumes ok: "tx_ok (x # H) s" and k: "k \<in> set qids" and pl: "place_ok k (pkts s x)"
  obtains (full) s' where "enqueue True k x s = Some (TI_NOK, s')" "flow {} (x # H) s (x # H) s'"
  | (queued) s' where "enqueue True k x s = Some (TI_OK, s')" "flow {k} (x # H) s H s'"
proof -
  note c = tx_ok_core(1) [OF ok]
  show ?thesis
  proof (cases rule: enqueue_core [OF c k pl])
    case (1 h qs)
    let ?s = "s\<lparr>links := h, queues := qs\<rparr>"
    have "tx_ok (x # H) ?s" "gates ?s = gates s" using 1(2) ok by (simp_all add: tx_ok_def gates_def)
    moreover have "own (x # H) ?s = own (x # H) s" using 1(3) by (simp add: own_def qset_def)
    ultimately have "flow {} (x # H) s (x # H) ?s" unfolding flow_def 1(3) by (auto intro: exI [of _ "[]"])
    then show ?thesis using full 1(1) by blast
  next
    case (2 h qs)
    let ?s = "s\<lparr>links := h, queues := qs\<rparr>"
    have "tx_ok H ?s" "gates ?s = gates s" using 2(2) ok by (simp_all add: tx_ok_def gates_def)
    then have "flow {k} (x # H) s H ?s" unfolding flow_def 2(3,4) by (auto intro: exI [of _ "[]"])
    then show ?thesis using queued 2(1) by blast
  qed
qed

lemma flow_emitted:
  assumes "flow K H s H' s'" and "tx_ok H s" and "ev_ok s' e" and "ev_freed e = []"
  shows "flow K H s H' (emit e s')"
  by (rule flow_trans [OF assms(2,1) flow_emit [OF flow_ok(1) [OF assms(1)] assms(3,4)]])

lemma flow_calm: "flow K H s H' s' \<Longrightarrow> tx_ok H s \<Longrightarrow> calm s' s'' \<Longrightarrow> flow K H s H' s''"
  using flow_trans [OF _ _ calm_flow [OF flow_ok(1)]] by blast

section \<open>Management packets\<close>

definition mgmt_hlid :: "'w TxState \<Rightarrow> u8 list \<Rightarrow> nat" where
  "mgmt_hlid s mac = (case txDataQ_LinkMacFind (dataQ s) mac of Some i \<Rightarrow> i | None \<Rightarrow> unat (uGlobalHlid (mgmtQ s)))"

lemma LinkMacFind_less: "txDataQ_LinkMacFind d mac = Some i \<Longrightarrow> i < 7"
  unfolding txDataQ_LinkMacFind_def by (auto simp: find_Some_iff)

lemma mgmt_hlid_less: "tx_ok H s \<Longrightarrow> mgmt_hlid s mac < 7"
  by (auto simp: mgmt_hlid_def tx_ok_def mgmt_ok_def dest: LinkMacFind_less split: option.splits)

text \<open>The packet in hand goes to its queue, or is freed if the queue is full.\<close>

lemma Xmit_queue_work:
  assumes ok: "tx_ok (p # H) s" and h: "h < 7" and q: "q < 2" and pl: "place_ok (MgmtQ h q) (pkts s p)"
  shows "\<exists>st s'. (case enqueue True (MgmtQ h q) p s of
      None \<Rightarrow> None
    | Some (eStatus, s2) \<Rightarrow>
       if eStatus = TI_OK
       then
        (let s3 = count_mgmt h (\<lambda>c. c\<lparr>aEnqueuePackets := inc (aEnqueuePackets c) q\<rparr>) s2
         in if fam_Size (queues s2) (MgmtQ h q) = Some 1
            then (if bExternalContext
                  then Some (TI_OK, emit (RequestSchedule TX_MGMT) (upd_mlink h (\<lambda>l. l\<lparr>bSendEvent_NotEmpty := True\<rparr>) s3))
                  else map_option (Pair TI_OK) (mgmtQueuesSM True ops h SM_EVENT_QUEUES_NOT_EMPTY s3))
            else Some (TI_OK, s3))
       else map_option (\<lambda>s4. (eStatus, count_mgmt h (\<lambda>c. c\<lparr>aDroppedPackets := inc (aDroppedPackets c) q\<rparr>) s4))
              (txCtrl_FreePacket p TI_NOK s2)) = Some (st, s') \<and> work True (p # H) s H s'"
proof -
  have k: "MgmtQ h q \<in> set qids" using h q by simp
  show ?thesis
  proof (cases rule: flow_enqueue [OF ok k pl])
    case (1 s2)
    obtain s4 where s4: "txCtrl_FreePacket p TI_NOK s2 = Some s4" "flow {} (p # H) s2 H s4"
      using flow_free [OF flow_ok(1) [OF 1(2)]] by metis
    have "flow {} (p # H) s H (count_mgmt h (\<lambda>c. c\<lparr>aDroppedPackets := inc (aDroppedPackets c) q\<rparr>) s4)"
      by (rule flow_calm [OF flow_trans [OF ok 1(2) s4(2)] ok]) simp
    then show ?thesis using 1(1) s4(1) flow_work [OF ok] by auto
  next
    case (2 s2)
    define s3 where "s3 = count_mgmt h (\<lambda>c. c\<lparr>aEnqueuePackets := inc (aEnqueuePackets c) q\<rparr>) s2"
    have f3: "flow {MgmtQ h q} (p # H) s H s3" by (rule flow_calm [OF 2(2) ok]) (simp add: s3_def)
    note ok3 = flow_ok(1) [OF f3]
    obtain s5 where s5: "mgmtQueuesSM True ops h SM_EVENT_QUEUES_NOT_EMPTY s3 = Some s5" "work True H s3 H s5"
      using mgmtQueuesSM_work [OF ok3 h, of ops SM_EVENT_QUEUES_NOT_EMPTY] by auto
    have w5: "work True (p # H) s H s5" by (rule work_trans [OF flow_work [OF ok f3] s5(2)])
    have "flow {MgmtQ h q} (p # H) s H (upd_mlink h (\<lambda>l. l\<lparr>bSendEvent_NotEmpty := True\<rparr>) s3)"
      by (rule flow_calm [OF f3 ok]) (rule calm_upd_mlink; simp)
    then have "flow {MgmtQ h q} (p # H) s H (emit (RequestSchedule TX_MGMT) (upd_mlink h (\<lambda>l. l\<lparr>bSendEvent_NotEmpty := True\<rparr>) s3))"
      by (rule flow_emitted [OF _ ok]) (simp_all add: ev_ok_def ev_freed_def)
    then show ?thesis
      using 2(1) s5(1) w5 flow_work [OF ok] f3 by (auto simp: s3_def [symmetric] Let_def)
  qed
qed

lemma rsrc_fresh_upd [simp]: "rsrc_fresh (a\<lparr>hlid := x\<rparr>) = rsrc_fresh a" "rsrc_fresh (a\<lparr>tid := y\<rparr>) = rsrc_fresh a"
    "rsrc_fresh (a\<lparr>uPktType := z\<rparr>) = rsrc_fresh a" "rsrc_fresh (SET_PKT_TYPE_ENCRYPT a) = rsrc_fresh a"
  by (simp_all add: rsrc_fresh_def SET_PKT_TYPE_ENCRYPT_def bit.conj_disj_distrib2)

lemma ENCRYPT_fields [simp]: "hlid (SET_PKT_TYPE_ENCRYPT a) = hlid a" "tid (SET_PKT_TYPE_ENCRYPT a) = tid a"
    "uPktType (SET_PKT_TYPE_ENCRYPT a) = uPktType a" "buf (SET_PKT_TYPE_ENCRYPT a) = buf a"
  by (simp_all add: SET_PKT_TYPE_ENCRYPT_def)

lemma alloc_result:
  assumes "txDataQ_AllocCheckResources r pkt = Some (st, r', pkt')"
  shows "hlid pkt' = hlid pkt" "tid pkt' = tid pkt" "uPktType pkt' = uPktType pkt"
  using rsrc_range(3) [OF assms] by (simp_all add: SET_TX_CTRL_FLAG_RSRC_AC_def SET_TX_CTRL_FLAG_RSRC_ALLOCATED_def)

lemma alloc_total: "unat (tid pkt) < 8 \<Longrightarrow> unat (hlid pkt) < 7 \<Longrightarrow> \<exists>st r' pkt'. txDataQ_AllocCheckResources r pkt = Some (st, r', pkt')"
  by (simp add: txDataQ_AllocCheckResources_def Let_def)

lemma txMgmtQ_Xmit_enters:
  assumes ok: "tx_ok H s" and en: "entry_ok p H s"
  shows "\<exists>st s'. txMgmtQ_Xmit True ops p ext s = Some (st, s') \<and> enters p H s s'"
proof -
  obtain b where b: "buf (pkts s p) 0 = Some b" "14 \<le> length b" using en by (auto simp: entry_ok_def)
  define mg where "mg \<longleftrightarrow> uPktType (pkts s p) = TX_PKT_TYPE_MGMT"
  obtain mac where mac: "(if mg then dot11_address1 (pkts s p) else eth_dst (pkts s p)) = Some mac"
    using b by (cases mg) (auto simp: dot11_address1_def eth_dst_def load_mac_def)
  define h where "h = mgmt_hlid s mac"
  have h7: "h < 7" using mgmt_hlid_less [OF ok] by (simp add: h_def)
  then have hw: "unat (of_nat h :: u8) = h" by (simp add: unat_of_nat take_bit_nat_eq_self_iff)
  define q :: nat where "q = (if mg then 0 else 1)"
  define pkt1 where "pkt1 = (pkts s p)\<lparr>hlid := of_nat h, tid := of_nat MGMT_QUEUES_TID\<rparr>"
  define pkt2 where "pkt2 = (if bEncrypt (mlink s h) \<and> uPktType pkt1 = TX_PKT_TYPE_EAPOL then SET_PKT_TYPE_ENCRYPT pkt1 else pkt1)"
  have f2: "hlid pkt2 = of_nat h" "tid pkt2 = 7" "uPktType pkt2 = uPktType (pkts s p)" "buf pkt2 = buf (pkts s p)" "rsrc_fresh pkt2"
    using en by (simp_all add: pkt1_def pkt2_def entry_ok_def)
  obtain st r pkt3 where a: "txDataQ_AllocCheckResources (tDataRsrc (dataQ s)) pkt2 = Some (st, r, pkt3)"
    using alloc_total [of pkt2 "tDataRsrc (dataQ s)"] f2 hw h7 by auto
  define s1 where "s1 = upd_pkt p (\<lambda>_. pkt3) (upd_data (\<lambda>d. d\<lparr>tDataRsrc := r\<rparr>) s)"
  have X: "txMgmtQ_Xmit True ops p ext s =
      (if st \<noteq> TI_OK
       then map_option (Pair TI_NOK) (txCtrl_FreePacket p TI_NOK
              (count_mgmt h (\<lambda>c. c\<lparr>aDroppedPackets := inc (aDroppedPackets c) q, uNoResources := uNoResources c + 1\<rparr>) s1))
       else (case enqueue True (MgmtQ h q) p s1 of
          None \<Rightarrow> None
        | Some (eStatus, s2) \<Rightarrow>
           if eStatus = TI_OK
           then
            (let s3 = count_mgmt h (\<lambda>c. c\<lparr>aEnqueuePackets := inc (aEnqueuePackets c) q\<rparr>) s2
             in if fam_Size (queues s2) (MgmtQ h q) = Some 1
                then (if ext
                      then Some (TI_OK, emit (RequestSchedule TX_MGMT) (upd_mlink h (\<lambda>l. l\<lparr>bSendEvent_NotEmpty := True\<rparr>) s3))
                      else map_option (Pair TI_OK) (mgmtQueuesSM True ops h SM_EVENT_QUEUES_NOT_EMPTY s3))
                else Some (TI_OK, s3))
           else map_option (\<lambda>s4. (eStatus, count_mgmt h (\<lambda>c. c\<lparr>aDroppedPackets := inc (aDroppedPackets c) q\<rparr>) s4))
                  (txCtrl_FreePacket p TI_NOK s2)))"
    unfolding txMgmtQ_Xmit_def Let_def mg_def [symmetric] mac option.case mgmt_hlid_def [symmetric] h_def [symmetric]
      pkt1_def [symmetric] pkt2_def [symmetric] q_def [symmetric] a prod.case s1_def [symmetric]
    using h7 by simp
  show ?thesis
  proof (cases "st = TI_OK")
    case False
    have "calm s1 (count_mgmt h (\<lambda>c. c\<lparr>aDroppedPackets := inc (aDroppedPackets c) q, uNoResources := uNoResources c + 1\<rparr>) s1)" by simp
    moreover have "pkts (count_mgmt h f s1) = (pkts s)(p := pkt3)" for f
      by (simp add: count_mgmt_def upd_mlink_def upd_mgmt_def s1_def upd_pkt_def upd_data_def)
    ultimately show ?thesis
      using refuse [OF ok en a f2(5)] False unfolding X s1_def by auto
  next
    case True
    have ad: "admitted p H s s1" unfolding s1_def using admit [OF ok en a [unfolded True] f2(5,4)] .
    then have ok1: "tx_ok (p # H) s1" by (simp add: admitted_def)
    have pl: "place_ok (MgmtQ h q) (pkts s1 p)"
      using alloc_result [OF a] f2 hw by (auto simp: s1_def upd_pkt_def q_def mg_def)
    have q2: "q < 2" by (simp add: q_def)
    from Xmit_queue_work [OF ok1 h7 q2 pl, of ext ops] obtain st' s' where
      "txMgmtQ_Xmit True ops p ext s = Some (st', s')" "work True (p # H) s1 H s'" unfolding X using True by auto
    then show ?thesis using admitted_enters [OF ok ad] by blast
  qed
qed


section \<open>Data packets\<close>

lemma classify_defined:
  assumes "aBuf a = aBuf b" and "aLen a = aLen b"
  shows "txDataClsfr_ClassifyTxPacket c a d = None \<longleftrightarrow> txDataClsfr_ClassifyTxPacket c b d = None"
proof -
  have "buf (a\<lparr>tid := 0\<rparr>) = buf (b\<lparr>tid := 0\<rparr>)" "aLen (a\<lparr>tid := 0\<rparr>) = aLen (b\<lparr>tid := 0\<rparr>)"
    using assms by (simp_all add: buf_def fun_eq_iff)
  then have "getIpAndUdpHeader (a\<lparr>tid := 0\<rparr>) = getIpAndUdpHeader (b\<lparr>tid := 0\<rparr>)"
    by (simp only: getIpAndUdpHeader_def eth_type_def)
  then show ?thesis
    by (simp add: txDataClsfr_ClassifyTxPacket_def Let_def Option.bind_eq_None_conv split: option.splits prod.splits)
qed

text \<open>What the network stack has to keep to: a priority tag that is not the one too many, and a bridged link that exists.\<close>

definition insert_pre :: "ptr \<Rightarrow> u8 \<Rightarrow> u32 option \<Rightarrow> 'w TxState \<Rightarrow> bool" where
  "insert_pre p uPacketDtag bridge s \<longleftrightarrow> unat uPacketDtag \<noteq> MAX_NUM_OF_802_1d_TAGS \<and>
     (case bridge of None \<Rightarrow> True | Some uParam \<Rightarrow> unat uParam < WLANLINKS_MAX_LINKS) \<and>
     txDataClsfr_ClassifyTxPacket (tClsfrParams (dataQ s)) (pkts s p) uPacketDtag \<noteq> None"

lemma pace_flow:
  assumes ok: "tx_ok H s" and "pace_data q n s = (b, s')"
  shows "flow {} H s H s'"
proof -
  have "flow {} H s H (emit StopPaceTimer s)" "flow {} H s H (emit StartPaceTimer s)"
    by (rule flow_emit [OF ok]; simp add: ev_ok_def ev_freed_def)+
  then show ?thesis using assms(2) calm_flow [OF ok calm_refl] by (auto simp: pace_data_def split: if_splits)
qed

lemma insert_data_work:
  assumes ok: "tx_ok (p # H) s" and h: "h < 7" and q: "q < 4" and pl: "place_ok (DataQ h q) (pkts s p)"
  shows "\<exists>st s'. insert_data True h q p s = Some (st, s') \<and> work True (p # H) s H s'"
proof -
  have k: "DataQ h q \<in> set qids" using h q by simp
  obtain st s1 H1 where e: "enqueue True (DataQ h q) p s = Some (st, s1)" and f1: "flow {DataQ h q} (p # H) s H1 s1"
    and H1: "H1 = (if st = TI_OK then H else p # H)"
  proof (cases rule: flow_enqueue [OF ok k pl])
    case (1 s')
    then show ?thesis using that [of TI_NOK s' "p # H"] flow_mono [OF 1(2), of "{DataQ h q}"] by simp
  next
    case (2 s')
    then show ?thesis using that [of TI_OK s' H] by simp
  qed
  note ok1 = flow_ok(1) [OF f1]
  obtain n where n: "fam_Size (queues s1) (DataQ h q) = Some n"
    using tx_coreD(2) [OF tx_ok_core(1) [OF ok1] k] by (auto simp: fam_Size_def)
  obtain b s2 where pc: "pace_data q n s1 = (b, s2)" by fastforce
  have f2: "flow {DataQ h q} (p # H) s H1 s2"
    by (rule flow_trans [OF ok f1 flow_mono [OF pace_flow [OF ok1 pc]]]) simp
  define stop where "stop \<longleftrightarrow> bStopNetStackTx (dataQ s2) \<and> n = aQueueMaxSize (dataQ s2) ! q"
  define s3 where "s3 = (if stop then upd_dlink h (\<lambda>l. l\<lparr>aNetStackQueueStopped := (aNetStackQueueStopped l)[q := True]\<rparr>) s2 else s2)"
  define s4 where "s4 = (if b \<or> stop then emit (RequestSchedule TX_DATA) s3 else s3)"
  define s5 where "s5 = (if stop then emit StopNetStack s4 else s4)"
  have c3: "calm s2 s3" unfolding s3_def by (auto intro: calm_upd_dlink)
  have f3: "flow {DataQ h q} (p # H) s H1 s3" by (rule flow_calm [OF f2 ok c3])
  have f4: "flow {DataQ h q} (p # H) s H1 s4"
    unfolding s4_def using f3 flow_emitted [OF f3 ok, of "RequestSchedule TX_DATA"] by (auto simp: ev_ok_def ev_freed_def)
  have f5: "flow {DataQ h q} (p # H) s H1 s5"
    unfolding s5_def using f4 flow_emitted [OF f4 ok, of StopNetStack] by (auto simp: ev_ok_def ev_freed_def)
  note ok5 = flow_ok(1) [OF f5]
  have I: "insert_data True h q p s =
      (if st \<noteq> TI_OK
       then map_option (\<lambda>s6. (st, count_data True h q (\<lambda>c. c\<lparr>uDroppedPacket := uDroppedPacket c + 1\<rparr>) s6)) (txCtrl_FreePacket p TI_NOK s5)
       else Some (st, count_data True h q (\<lambda>c. c\<lparr>uEnqueuePacket := uEnqueuePacket c + 1\<rparr>) s5))"
    unfolding insert_data_def e option.case prod.case n Let_def pc stop_def [symmetric] s3_def [symmetric] s4_def [symmetric]
      s5_def [symmetric] by simp
  show ?thesis
  proof (cases "st = TI_OK")
    case True
    then have "flow {DataQ h q} (p # H) s H (count_data True h q (\<lambda>c. c\<lparr>uEnqueuePacket := uEnqueuePacket c + 1\<rparr>) s5)"
      using flow_calm [OF f5 ok] H1 by simp
    then show ?thesis unfolding I using True flow_work [OF ok] by auto
  next
    case False
    then have okp: "tx_ok (p # H) s5" using ok5 H1 by simp
    obtain s6 where s6: "txCtrl_FreePacket p TI_NOK s5 = Some s6" "flow {DataQ h q} (p # H) s5 H s6"
      using flow_free [OF okp] by metis
    have "flow {DataQ h q} (p # H) s H s6" using flow_trans [OF ok f5] s6(2) H1 False by simp
    then have "flow {DataQ h q} (p # H) s H (count_data True h q (\<lambda>c. c\<lparr>uDroppedPacket := uDroppedPacket c + 1\<rparr>) s6)"
      by (rule flow_calm [OF _ ok]) simp
    then show ?thesis unfolding I using False s6(1) flow_work [OF ok] by auto
  qed
qed

lemma queue_of_tid: "i < 8 \<Longrightarrow> aTidToQueueTable ! i < 4" "length aTidToQueueTable = 8"
  by (auto simp: aTidToQueueTable_def less_Suc_eq numeral_eq_Suc)

lemma classify_data_enters:
  assumes ok: "tx_ok H s" and en: "entry_ok p H s" and h: "h < 7" and d: "unat d \<noteq> 8"
    and cl: "txDataClsfr_ClassifyTxPacket (tClsfrParams (dataQ s)) (pkts s p) d \<noteq> None"
  shows "\<exists>st s'. classify_data True h d p s = Some (st, s') \<and> enters p H s s'"
proof -
  have hw: "unat (of_nat h :: u8) = h" using h by (simp add: unat_of_nat take_bit_nat_eq_self_iff)
  define pkt1 where "pkt1 = (pkts s p)\<lparr>hlid := of_nat h, uPktType := TX_PKT_TYPE_ETHER\<rparr>"
  define pkt2 where "pkt2 = (if bEncrypt (dlink s h) then SET_PKT_TYPE_ENCRYPT pkt1 else pkt1)"
  have f2: "hlid pkt2 = of_nat h" "buf pkt2 = buf (pkts s p)" "rsrc_fresh pkt2"
    using en by (simp_all add: pkt1_def pkt2_def entry_ok_def)
  have "aBuf pkt2 = aBuf (pkts s p)" "aLen pkt2 = aLen (pkts s p)"
    by (simp_all add: pkt1_def pkt2_def SET_PKT_TYPE_ENCRYPT_def)
  then have "txDataClsfr_ClassifyTxPacket (tClsfrParams (dataQ s)) pkt2 d \<noteq> None" using classify_defined [of pkt2 "pkts s p" "tClsfrParams (dataQ s)" d] cl by simp
  then obtain cst pkt3 where c: "txDataClsfr_ClassifyTxPacket (tClsfrParams (dataQ s)) pkt2 d = Some (cst, pkt3)" by auto
  obtain x where x: "pkt3 = pkt2\<lparr>tid := x\<rparr>" using classify_frame [OF c] by blast
  have "clsfr_ok (tClsfrParams (dataQ s))" using ok by (simp add: tx_ok_def data_ok_def)
  then have t: "unat (tid pkt3) < 8" using classify_valid [OF _ c] d by (simp add: word_le_nat_alt)
  have f3: "hlid pkt3 = of_nat h" "buf pkt3 = buf (pkts s p)" "rsrc_fresh pkt3" using f2 by (simp_all add: x)
  define s1 where "s1 = (if cst \<noteq> TI_OK then upd_data (\<lambda>d. d\<lparr>uClsfrMismatchCount := uClsfrMismatchCount d + 1\<rparr>) s else s)"
  have c1: "calm s s1" unfolding s1_def by (auto simp: data_ok_def intro!: calm_upd_data)
  have fl: "flow {} H s H s1" by (rule calm_flow [OF ok c1])
  note ok1 = flow_ok(1) [OF fl]
  have s1f: "pkts s1 = pkts s" "tDataRsrc (dataQ s1) = tDataRsrc (dataQ s)" "log s1 = log s" "gates s1 = gates s"
    using c1 by (simp_all add: s1_def upd_data_def gates_def)
  have en1: "entry_ok p H s1" using en c1 calm_items(3) [OF c1] s1f by (simp add: entry_ok_def calm_def)
  define q where "q = aTidToQueueTable ! unat (tid pkt3)"
  have q4: "q < 4" using queue_of_tid(1) [OF t] by (simp add: q_def)
  obtain st r pkt4 where a: "txDataQ_AllocCheckResources (tDataRsrc (dataQ s1)) pkt3 = Some (st, r, pkt4)"
    using alloc_total [of pkt3 "tDataRsrc (dataQ s1)"] t f3(1) hw h by auto
  define s2 where "s2 = upd_pkt p (\<lambda>_. pkt4) (upd_data (\<lambda>d. d\<lparr>tDataRsrc := r\<rparr>) s1)"
  define drop where "drop = upd_data (\<lambda>d. d\<lparr>uNoResourcesCount := uNoResourcesCount d + 1\<rparr>)
      (count_data True h q (\<lambda>c. c\<lparr>uDroppedPacket := uDroppedPacket c + 1\<rparr>) s2)"
  have C: "classify_data True h d p s =
      (if st \<noteq> TI_OK then map_option (Pair TI_NOK) (txCtrl_FreePacket p TI_NOK drop) else insert_data True h q p s2)"
    unfolding classify_data_def Let_def pkt1_def [symmetric] pkt2_def [symmetric] c option.case prod.case
      queue_of_tid(2) q_def [symmetric] simp_thms s1_def [symmetric] a s2_def [symmetric] if_True drop_def [symmetric]
    using t by simp
  have "\<exists>st' s'. classify_data True h d p s = Some (st', s') \<and> enters p H s1 s'"
  proof (cases "st = TI_OK")
    case False
    have "calm (count_data True h q (\<lambda>c. c\<lparr>uDroppedPacket := uDroppedPacket c + 1\<rparr>) s2) drop"
      unfolding drop_def by (rule calm_upd_data) (simp_all add: data_ok_def)
    then have "calm s2 drop" by (rule calm_trans [OF calm_count_data])
    moreover have "pkts drop = (pkts s1)(p := pkt4)"
      by (simp add: drop_def count_data_def upd_dlink_def s2_def upd_pkt_def upd_data_def)
    ultimately show ?thesis using refuse [OF ok1 en1 a f3(3)] False unfolding C s2_def by auto
  next
    case True
    have ad: "admitted p H s1 s2"
      unfolding s2_def using admit [OF ok1 en1 a [unfolded True] f3(3)] f3(2) s1f(1) by simp
    then have ok2: "tx_ok (p # H) s2" by (simp add: admitted_def)
    have pl: "place_ok (DataQ h q) (pkts s2 p)" using alloc_result [OF a] f3(1) hw by (simp add: s2_def upd_pkt_def)
    obtain st' s' where "insert_data True h q p s2 = Some (st', s')" "work True (p # H) s2 H s'"
      using insert_data_work [OF ok2 h q4 pl] by blast
    then show ?thesis unfolding C using True admitted_enters [OF ok1 ad] by auto
  qed
  moreover have "enters p H s1 s' \<Longrightarrow> enters p H s s'" for s'
    using calm_items(3) [OF c1] s1f gate_ok_gates [OF ok ok1 s1f(4)] by (auto simp: enters_def)
  ultimately show ?thesis by blast
qed

lemma outside_pkt:
  assumes ok: "tx_ok H s" and p: "p \<notin> own H s"
  shows "tx_ok H (upd_pkt p f s)" "own H (upd_pkt p f s) = own H s" "gate_ok (upd_pkt p f s) = gate_ok s"
proof -
  have e: "upd_pkt p f s = s\<lparr>pkts := (pkts s)(p := f (pkts s p))\<rparr>" by (simp add: upd_pkt_def)
  show "tx_ok H (upd_pkt p f s)"
    using core_outside [OF tx_ok_core(1) [OF ok] p, of "f (pkts s p)"] ok unfolding e by (simp add: tx_ok_def)
  show "own H (upd_pkt p f s) = own H s" by (simp add: e own_def qset_def items_def)
  show "gate_ok (upd_pkt p f s) = gate_ok s" by (simp add: e gate_ok_def dlink_def mlink_def)
qed

lemma enters_outside:
  assumes "tx_ok H s" and "p \<notin> own H s" and "enters p H (upd_pkt p f s) s'"
  shows "enters p H s s'"
  using assms(3) outside_pkt [OF assms(1,2), of f] unfolding enters_def by (simp add: upd_pkt_def)

lemma InsertPacket_enters:
  assumes ok: "tx_ok H s" and en: "entry_ok p H s" and pre: "insert_pre p d br s"
  shows "\<exists>st s'. txDataQ_InsertPacket True ops p d br s = Some (st, s') \<and> enters p H s s'"
proof -
  obtain b where b: "buf (pkts s p) 0 = Some b" "14 \<le> length b" using en by (auto simp: entry_ok_def)
  then obtain ty dst where td: "eth_type (pkts s p) = Some ty" "eth_dst (pkts s p) = Some dst"
    by (auto simp: eth_type_def eth_dst_def load_mac_def load16_def)
  have p: "p \<notin> own H s" using en by (simp add: entry_ok_def)
  show ?thesis
  proof (cases "ty = ETHERTYPE_EAPOL \<or> ty = genericEthertype (txCtrl s)")
    case True
    let ?s = "upd_pkt p (\<lambda>k. k\<lparr>uPktType := TX_PKT_TYPE_EAPOL\<rparr>) s"
    have "entry_ok p H ?s" using en outside_pkt(2) [OF ok p] by (simp add: entry_ok_def upd_pkt_def)
    then obtain st s' where "txMgmtQ_Xmit True ops p True ?s = Some (st, s')" "enters p H ?s s'"
      using txMgmtQ_Xmit_enters [OF outside_pkt(1) [OF ok p]] by blast
    then show ?thesis using True td enters_outside [OF ok p] by (auto simp: txDataQ_InsertPacket_def)
  next
    case False
    define found where "found = (case br of
        Some uParam \<Rightarrow> Some (unat uParam)
      | None \<Rightarrow> if MAC_MULTICAST dst then Some (unat (uBcastHlid (dataQ s))) else txDataQ_LinkMacFind (dataQ s) dst)"
    have less: "found = Some h \<Longrightarrow> h < 7" for h
      using pre ok LinkMacFind_less
      by (auto simp: found_def insert_pre_def tx_ok_def data_ok_def split: option.splits if_splits)
    have I: "txDataQ_InsertPacket True ops p d br s =
        (case found of
           None \<Rightarrow> map_option (\<lambda>s1. (TI_NOK, upd_data (\<lambda>d. d\<lparr>uLinkNotFoundCount := uLinkNotFoundCount d + 1\<rparr>) s1)) (txCtrl_FreePacket p TI_NOK s)
         | Some uHlid \<Rightarrow> if WLANLINKS_MAX_LINKS \<le> uHlid then None else classify_data True uHlid d p s)"
      unfolding txDataQ_InsertPacket_def td option.case prod.case if_not_P [OF False] Let_def found_def by simp
    show ?thesis
    proof (cases found)
      case None
      have "rsrc_fresh (pkts s p)" using en by (simp add: entry_ok_def)
      then have "uFlags (pkts s p) AND 0x0E00 = 0" by (simp add: rsrc_fresh_def)
      then have "(uFlags (pkts s p) AND 0x0E00) AND 0x0200 = 0" by simp
      then have "\<not> IS_TX_CTRL_FLAG_RSRC_ALLOCATED (pkts s p)" by (simp add: IS_TX_CTRL_FLAG_RSRC_ALLOCATED_def and.assoc)
      then have fr: "txCtrl_FreePacket p TI_NOK s = Some (emit (Freed p TI_NOK) (upd_data (\<lambda>d. d\<lparr>tDataRsrc := tDataRsrc d\<rparr>) s))"
        by (simp add: txCtrl_FreePacket_def txDataQ_FreeResources_def upd_data_def)
      define s1 where "s1 = upd_data (\<lambda>d. d\<lparr>uLinkNotFoundCount := uLinkNotFoundCount d + 1\<rparr>)
          (emit (Freed p TI_NOK) (upd_data (\<lambda>d. d\<lparr>tDataRsrc := tDataRsrc d\<rparr>) s))"
      have "items s1 = items s" by (simp add: s1_def items_def emit_def upd_data_def)
      moreover have "core H s1"
        by (rule core_cong [OF tx_ok_core(1) [OF ok]]) (simp_all add: s1_def emit_def upd_data_def)
      moreover have "oks s1" using ok by (simp add: tx_ok_oks oks_def data_ok_def s1_def emit_def upd_data_def)
      ultimately have "enters p H s s1"
        unfolding enters_def tx_ok_oks gate_ok_def
        by (auto simp: s1_def own_def qset_def dlink_def mlink_def emit_def upd_data_def freed_def ev_freed_def sent_ok_def)
      then show ?thesis unfolding I None using fr by (simp add: s1_def)
    next
      case (Some h)
      have "\<exists>st s'. classify_data True h d p s = Some (st, s') \<and> enters p H s s'"
        by (rule classify_data_enters [OF ok en less [OF Some]]) (use pre in \<open>simp_all add: insert_pre_def\<close>)
      then show ?thesis unfolding I Some using less [OF Some] by simp
    qed
  qed
qed

end
