(* ===== verification/TxRun.thy ===== *)
theory TxRun
  imports TxEntry
begin

text \<open>
  The transmit path as a system of operations: every call that the other modules make, the guard it is
  made under, and what holds along every sequence of calls.
\<close>

section \<open>The remaining operations\<close>

lemma still_refl_work: "tx_ok H s \<Longrightarrow> work g H s H s"
  using still_work(1) [OF _ still_refl] by simp

lemma calm_work: "tx_ok H s \<Longrightarrow> calm s s' \<Longrightarrow> work g H s H s'"
  using flow_work [OF _ calm_flow] by blast

lemma RunScheduler_work:
  assumes ok: "tx_ok H s" and w: "work g H s H t"
  shows "\<exists>s'. txDataQ_RunScheduler True ops t = Some s' \<and> work g H s H s'"
  using RunScheduler_flow [OF work_ok [OF w], of ops] work_trans [OF w flow_work [OF work_ok [OF w]]] by blast

lemma mono_work: "work True H s H s' \<Longrightarrow> work g H s H s'"
  by (auto simp: work_def)

lemma NotFromSm_work:
  assumes w: "work g H s H t"
  shows "\<exists>s'. runSchedulerNotFromSm True ops t = Some s' \<and> work g H s H s'"
  using runSchedulerNotFromSm_work [OF work_ok [OF w], of ops] work_trans [OF w mono_work] by blast

lemma not_empty_work:
  assumes ok: "tx_ok H s" and h: "h < 7"
  shows "\<exists>s'. not_empty_link True ops h s = Some s' \<and> work True H s H s'"
proof (cases "bSendEvent_NotEmpty (mlink s h)")
  case True
  let ?t = "upd_mlink h (\<lambda>l. l\<lparr>bSendEvent_NotEmpty := False\<rparr>) s"
  have w: "work True H s H ?t" by (rule calm_work [OF ok calm_upd_mlink]) simp_all
  obtain s' where "mgmtQueuesSM True ops h SM_EVENT_QUEUES_NOT_EMPTY ?t = Some s'" "work True H ?t H s'"
    using mgmtQueuesSM_work [OF work_ok [OF w] h, of ops SM_EVENT_QUEUES_NOT_EMPTY] by auto
  then show ?thesis using True work_trans [OF w] by (auto simp: not_empty_link_def)
qed (use still_refl_work [OF ok] in \<open>simp add: not_empty_link_def\<close>)

lemma links_work:
  assumes "tx_ok H s" and "\<forall>h \<in> set hs. h < 7" and f: "\<And>h s. h < 7 \<Longrightarrow> tx_ok H s \<Longrightarrow> \<exists>s'. f h s = Some s' \<and> work True H s H s'"
  shows "\<exists>s'. flush_links f hs s = Some s' \<and> work True H s H s'"
  using assms(1,2)
proof (induction hs arbitrary: s)
  case Nil
  then show ?case using still_refl_work by simp
next
  case (Cons h hs)
  obtain s1 where s1: "f h s = Some s1" "work True H s H s1" using f [of h s] Cons.prems by auto
  obtain s' where s': "flush_links f hs s1 = Some s'" "work True H s1 H s'"
    using Cons.IH [OF work_ok [OF s1(2)]] Cons.prems by auto
  then show ?case using s1 work_trans [OF s1(2) s'(2)] by simp
qed

lemma QueuesNotEmpty_work: "tx_ok H s \<Longrightarrow> \<exists>s'. txMgmtQ_QueuesNotEmpty True ops s = Some s' \<and> work True H s H s'"
  unfolding txMgmtQ_QueuesNotEmpty_def by (rule links_work) (simp_all add: not_empty_work)

lemma ClearQueues_work:
  assumes "tx_ok H s"
  shows "\<exists>s'. txDataQ_ClearQueues True s = Some s' \<and> work True H s H s'"
    "\<exists>s'. txMgmtQ_ClearQueues True s = Some s' \<and> work True H s H s'"
proof -
  have f: "\<exists>s'. txDataQ_FlushLinkQueues True h t = Some s' \<and> work True H t H s'" if "h < 7" "tx_ok H t" for h t
    using txDataQ_Flush_flow [OF that(2,1)] flow_work [OF that(2)] by blast
  show "\<exists>s'. txDataQ_ClearQueues True s = Some s' \<and> work True H s H s'"
    unfolding txDataQ_ClearQueues_def by (rule links_work [OF assms _ f]) simp_all
  have f: "\<exists>s'. TxMgmtQ_FlushLinkQueues True h t = Some s' \<and> work True H t H s'" if "h < 7" "tx_ok H t" for h t
    using TxMgmtQ_Flush_flow [OF that(2,1)] flow_work [OF that(2)] by blast
  show "\<exists>s'. txMgmtQ_ClearQueues True s = Some s' \<and> work True H s H s'"
    unfolding txMgmtQ_ClearQueues_def by (rule links_work [OF assms _ f]) simp_all
qed

text \<open>The backpressure.\<close>

lemma and_less_16: "x < 16 \<Longrightarrow> x AND y < (16 :: u32)"
  using word_and_le1 order_le_less_trans by (metis and.commute)

lemma UpdateBackpressure_work:
  assumes ok: "tx_ok H s"
  shows "\<exists>s'. txCtrl_UpdateBackpressure True ops freedAc freedLink s = Some s' \<and> work True H s H s'"
proof -
  define s1 where "s1 = upd_ctrl (\<lambda>c. c\<lparr>busyLinkBitmap := busyLinkBitmap c AND NOT freedLink,
      busyAcBitmap := busyAcBitmap c AND NOT freedAc\<rparr>) s"
  have c1: "calm s s1" unfolding s1_def by (rule calm_upd_ctrl) (simp add: ctrl_ok_def and_less_16)
  have "busyAcBitmap (txCtrl s1) < 16" using calm_tx_ok [OF ok c1] by (simp add: tx_ok_def ctrl_ok_def)
  then obtain b where b: "busy_tids (txCtrl s1) (busyAcBitmap (txCtrl s1)) = Some b" by (simp add: busy_tids_def flip: not_less)
  define s2 where "s2 = upd_ctrl (\<lambda>c. c\<lparr>busyTidBitmap := b\<rparr>) s1"
  have "calm s1 s2" unfolding s2_def by (rule calm_upd_ctrl) (simp add: ctrl_ok_def)
  then have c2: "calm s s2" by (rule calm_trans [OF c1])
  define t where "t = updateQueuesBusyMap b (updateLinksBusyMap (busyLinkBitmap (txCtrl s2)) s2)"
  have "calm s2 t" unfolding t_def by (rule calm_trans [OF calm_LinksBusy(2) calm_StopQueue(3)])
  then have ct: "calm s t" by (rule calm_trans [OF c2])
  obtain s3 where s3: "runSchedulerNotFromSm True ops t = Some s3" "work True H s H s3"
    using NotFromSm_work [OF calm_work [OF ok ct]] by blast
  define u where "u = txDataQ_UpdateQueuesBusyState b (txDataQ_UpdateLinksBusyState b s3)"
  have "calm s3 u" unfolding u_def by (rule calm_trans [OF calm_LinksBusy(1) calm_StopQueue(1)])
  then have "work True H s H u" by (rule work_trans [OF s3(2) calm_work [OF work_ok [OF s3(2)]]])
  then obtain s' where "txDataQ_RunScheduler True ops u = Some s'" "work True H s H s'" using RunScheduler_work [OF ok] by blast
  then show ?thesis
    unfolding txCtrl_UpdateBackpressure_def Let_def s1_def [symmetric] b option.case s2_def [symmetric]
      txMgmtQ_UpdateBusyMap_def t_def [symmetric] s3(1) Option.bind.simps txDataQ_UpdateBusyMap_def u_def [symmetric] by blast
qed

lemma find_output_ac_less: "(\<forall>a \<in> set acs. a < 4) \<Longrightarrow> find_output_ac c acs < 4"
  by (induction acs) auto

lemma fold_update_all:
  assumes "\<And>i. i \<in> set ns \<Longrightarrow> g i < (4 :: nat)"
  shows "(\<forall>a \<in> set t. a < 4) \<Longrightarrow> \<forall>a \<in> set (fold (\<lambda>i t. t[f i := g i]) ns t). a < 4"
    "length (fold (\<lambda>i t. t[f i := g i]) ns t) = length t"
  using assms
proof (induction ns arbitrary: t)
  case (Cons i js)
  { case 1 then show ?case using Cons(1) [of "t[f i := g i]"] set_update_subset_insert [of t "f i" "g i"] by auto }
  { case 2 then show ?case using Cons(2) [of "t[f i := g i]"] by simp }
qed simp_all

lemma ctrl_ok_mapping:
  assumes "ctrl_ok c"
  shows "ctrl_ok (txCtrl_UpdateAcToTidMapping (txCtrl_UpdateHighestAdmittedAcTable c))"
proof -
  have p: "a < 4" if "a \<in> set priorityOrderedAc" for a using that by (auto simp: priorityOrderedAc_def)
  let ?g = "\<lambda>i. if admissionState c ! (priorityOrderedAc ! i) = AC_ADMITTED then priorityOrderedAc ! i
      else find_output_ac c (rev (take (i + 1) priorityOrderedAc))"
  have l: "length priorityOrderedAc = 4" by (simp add: priorityOrderedAc_def)
  have g: "?g i < 4" if "i \<in> set [0..<4]" for i
  proof -
    have "priorityOrderedAc ! i < 4" using p that l by simp
    moreover have "find_output_ac c (rev (take (i + 1) priorityOrderedAc)) < 4"
      by (rule find_output_ac_less) (use p in \<open>auto dest: in_set_takeD\<close>)
    ultimately show ?thesis by simp
  qed
  show ?thesis
    using assms fold_update_all [where f = "\<lambda>i. priorityOrderedAc ! i" and g = ?g and ns = "[0..<4]" and t = "highestAdmittedAc c", OF g]
    by (simp add: ctrl_ok_def txCtrl_UpdateAcToTidMapping_def txCtrl_UpdateHighestAdmittedAcTable_def Let_def)
qed

lemma UpdateQueuesMapping_work:
  assumes ok: "tx_ok H s"
  shows "\<exists>s'. txCtrl_UpdateQueuesMapping True ops s = Some s' \<and> work True H s H s'"
proof -
  have c: "calm s (upd_ctrl (\<lambda>c. txCtrl_UpdateAcToTidMapping (txCtrl_UpdateHighestAdmittedAcTable c)) s)"
    by (rule calm_upd_ctrl) (rule ctrl_ok_mapping)
  show ?thesis
    unfolding txCtrl_UpdateQueuesMapping_def
    using UpdateBackpressure_work [OF calm_tx_ok [OF ok c], of ops 0 0] work_trans [OF calm_work [OF ok c]] by blast
qed

text \<open>The completion of a packet that the firmware holds.\<close>

lemma TxCompleteCb_work:
  assumes ok: "tx_ok H s" and p: "p \<in> set (inFw s)"
  shows "\<exists>s'. txCtrl_TxCompleteCb p s = Some s' \<and> work True H s H s'"
proof -
  let ?t = "s\<lparr>inFw := remove1 p (inFw s)\<rparr>"
  note c = tx_ok_core(1) [OF ok]
  have d: "distinct (inFw s)" using tx_coreD(7) [OF c] by simp
  have i: "items ?t = items s" by (simp add: items_def)
  have o: "own (p # H) ?t = own H s" using p d by (auto simp: own_def qset_def i)
  have "core (p # H) ?t"
  proof (rule core_move [OF c o i])
    show "distinct ((p # H) @ inFw ?t)" using tx_coreD(7) [OF c] p d by (auto simp: distinct_remove1)
    show "(set (p # H) \<union> set (inFw ?t)) \<inter> (\<Union>k. set (items s k)) = {}"
      using tx_coreD(8) [OF c] p set_remove1_subset [of p "inFw s"] by (auto simp: qset_def)
  qed (use tx_coreD(1,5) [OF c] in simp_all)
  then have okt: "tx_ok (p # H) ?t" using ok by (simp add: tx_ok_def)
  then have "flow {} H s (p # H) ?t" unfolding flow_def i o by (auto simp: gates_def intro: exI [of _ "[]"])
  then have w: "work True H s (p # H) ?t" by (rule flow_work [OF ok])
  obtain s' where "txCtrl_FreePacket p TI_OK ?t = Some s'" "flow {} (p # H) ?t H s'" using flow_free [OF okt] by metis
  then show ?thesis unfolding txCtrl_TxCompleteCb_def using work_trans [OF w flow_work [OF okt]] by auto
qed


section \<open>The start\<close>

definition tx_zero :: "(ptr \<Rightarrow> TTxCtrlBlk) \<Rightarrow> 'w \<Rightarrow> 'w TxState" where
  "tx_zero blks w = \<lparr>links = \<lparr>pNext = (\<lambda>_. NULL), pPrev = (\<lambda>_. NULL)\<rparr>, queues = Map.empty, pkts = blks, dataQ = txDataQ_Create,
     mgmtQ = txMgmtQ_Create, txCtrl = txCtrl_Create, twd = w, inFw = [], log = []\<rparr>"

text \<open>The calls that the driver makes before the first packet, in their order.\<close>

definition tx_start ::
  "'w twd_ops \<Rightarrow> (qid \<Rightarrow> ptr) \<Rightarrow> ptr \<Rightarrow> ptr \<Rightarrow> txDataInitParams_t \<Rightarrow> (ptr \<Rightarrow> TTxCtrlBlk) \<Rightarrow> 'w \<Rightarrow> 'w TxState option" where
  "tx_start ops pQue os report i blks w =
     Option.bind (txDataQ_Init pQue os report (txCtrl_Init (tx_zero blks w))) (\<lambda>s1.
       Option.bind (txMgmtQ_Init pQue os report s1) (\<lambda>s2. txCtrl_SetDefaults True ops (snd (txDataQ_SetDefaults True i s2))))"

definition start_ok :: "(qid \<Rightarrow> ptr) \<Rightarrow> txDataInitParams_t \<Rightarrow> bool" where
  "start_ok pQue i \<longleftrightarrow> distinct (map pQue qids) \<and> NULL \<notin> pQue ` set qids \<and> init_params_ok (pClsfrInit i) \<and>
     fst (txDataClsfr_Config clsfr_zero (pClsfrInit i)) = TI_OK \<and> rsrc_cfg_ok (pMinGuaranteedAc i) (pMinGuaranteedLink i)"

lemma create_queues_fam:
  assumes "fam_ok 0 (links s) (queues s)" and "distinct (map fst kls)" and "inj_on pQue (fst ` set kls)"
    and "\<forall>k \<in> fst ` set kls. queues s k = None \<and> pQue k \<noteq> NULL \<and> pNext (links s) (pQue k) = NULL"
  shows "\<exists>h qs. create_queues pQue os report kls s = Some (s\<lparr>links := h, queues := qs\<rparr>) \<and> fam_ok 0 h qs \<and>
    fam_items h qs = fam_items (links s) (queues s) \<and> (\<forall>k. qs k = None \<longleftrightarrow> queues s k = None \<and> k \<notin> fst ` set kls) \<and>
    (\<forall>a. a \<notin> pQue ` fst ` set kls \<longrightarrow> pNext h a = pNext (links s) a)"
  using assms
proof (induction kls arbitrary: s)
  case Nil
  then show ?case by (intro exI [of _ "links s"] exI [of _ "queues s"]) simp
next
  case (Cons kl kls)
  obtain k l where kl: "kl = (k, l)" by fastforce
  have k: "queues s k = None" "pQue k \<noteq> NULL" "pNext (links s) (pQue k) = NULL" using Cons.prems(4) kl by auto
  obtain h q where c: "que_Create (pQue k) (links s) os report l 0 = Some (h, q)" using k(2) by (simp add: que_Create_def)
  have h: "pNext h = (pNext (links s))(pQue k := pQue k)" using c k(2) by (auto simp: que_Create_def)
  let ?s = "s\<lparr>links := h, queues := (queues s)(k \<mapsto> q)\<rparr>"
  have cs: "create_queue (pQue k) os report k l s = Some ?s" by (simp add: create_queue_def c)
  note f = fam_Create_spec [OF Cons.prems(1) k(2,3,1) c]
  have nk: "k \<notin> fst ` set kls" using Cons.prems(2) kl by (auto simp: image_iff)
  have inj: "inj_on pQue (fst ` set kls)" and np: "pQue k \<notin> pQue ` fst ` set kls"
    using Cons.prems(3) nk kl by (auto simp: inj_on_def image_iff)
  have pre: "\<forall>k' \<in> fst ` set kls. queues ?s k' = None \<and> pQue k' \<noteq> NULL \<and> pNext (links ?s) (pQue k') = NULL"
    using Cons.prems(4) nk np kl h by (auto simp: image_iff)
  have f1: "fam_ok 0 (links ?s) (queues ?s)" and d: "distinct (map fst kls)" using f Cons.prems(2) by simp_all
  obtain h' qs where r: "create_queues pQue os report kls ?s = Some (?s\<lparr>links := h', queues := qs\<rparr>)" "fam_ok 0 h' qs"
    "fam_items h' qs = fam_items (links ?s) (queues ?s)" "\<forall>k'. qs k' = None \<longleftrightarrow> queues ?s k' = None \<and> k' \<notin> fst ` set kls"
    "\<forall>a. a \<notin> pQue ` fst ` set kls \<longrightarrow> pNext h' a = pNext (links ?s) a"
    using Cons.IH [OF f1 d inj pre] by (elim exE conjE)
  have "create_queues pQue os report (kl # kls) s = Some (s\<lparr>links := h', queues := qs\<rparr>)"
    using r(1) by (simp add: kl cs)
  moreover have "fam_items h' qs = fam_items (links s) (queues s)" using r(3) f by simp
  moreover have "qs k' = None \<longleftrightarrow> queues s k' = None \<and> k' \<notin> fst ` set (kl # kls)" for k'
    using r(4) kl by auto
  moreover have "a \<notin> pQue ` fst ` set (kl # kls) \<longrightarrow> pNext h' a = pNext (links s) a" for a
    using r(5) kl h by auto
  ultimately show ?case using r(2) by blast
qed

lemma fam_ok_empty: "fam_ok 0 \<lparr>pNext = (\<lambda>_. NULL), pPrev = (\<lambda>_. NULL)\<rparr> Map.empty"
  by (simp add: fam_ok_def)

lemma kls_keys:
  "fst ` set [(DataQ h q, f q). h \<leftarrow> [0..<7], q \<leftarrow> [0..<4]] = {DataQ h q | h q. h < 7 \<and> q < 4}"
  "fst ` set [(MgmtQ h q, f q). h \<leftarrow> [0..<7], q \<leftarrow> [0..<2]] = {MgmtQ h q | h q. h < 7 \<and> q < 2}"
  "distinct (map fst [(DataQ h q, f q). h \<leftarrow> [0..<7], q \<leftarrow> [0..<4]])"
  "distinct (map fst [(MgmtQ h q, f q). h \<leftarrow> [0..<7], q \<leftarrow> [0..<2]])"
  by (force, force, simp_all add: upt_rec)

text \<open>The creation and initialisation of the modules leave all queues of the family in place and empty.\<close>

lemma start_queues:
  assumes "start_ok pQue i"
  obtains s1 s2 where "txDataQ_Init pQue os report (txCtrl_Init (tx_zero blks w)) = Some s1" "txMgmtQ_Init pQue os report s1 = Some s2"
    "fam_ok 0 (links s2) (queues s2)" "fam_items (links s2) (queues s2) = (\<lambda>_. [])" "\<forall>k. queues s2 k = None \<longleftrightarrow> k \<notin> set qids"
    "inFw s2 = []" "log s2 = []" "data_ok (dataQ s2)" "mgmt_ok (mgmtQ s2)" "ctrl_ok (txCtrl s2)" "gate_ok s2" "tClsfrParams (dataQ s2) = clsfr_zero"
proof -
  define a where "a = upd_data (\<lambda>d. d\<lparr>bDataPortEnable := False, uNextQueId := 0, uNextHlid := 0, uNumQueues := of_nat MAX_NUM_OF_AC,
      aQueueMaxSize := data_depths, aTxSendPaceThresh := replicate MAX_NUM_OF_AC 1,
      aDataLinkQ := map (\<lambda>l. l\<lparr>bBusy := False, bEnabled := False, aNetStackQueueStopped := replicate MAX_NUM_OF_AC False\<rparr>) (aDataLinkQ d)\<rparr>)
    (txCtrl_Init (tx_zero blks w))"
  let ?dk = "[(DataQ h q, data_depths ! q). h \<leftarrow> [0..<7], q \<leftarrow> [0..<4]]" and ?mk = "[(MgmtQ h q, 4 :: u32). h \<leftarrow> [0..<7], q \<leftarrow> [0..<2]]"
  have inj: "inj_on pQue (set qids)" and nn: "\<forall>k \<in> set qids. pQue k \<noteq> NULL"
    using assms by (auto simp: start_ok_def distinct_map)
  have a0: "links a = \<lparr>pNext = (\<lambda>_. NULL), pPrev = (\<lambda>_. NULL)\<rparr>" "queues a = Map.empty"
    by (simp_all add: a_def upd_data_def txCtrl_Init_def upd_ctrl_def tx_zero_def)
  have dk: "fst ` set ?dk \<subseteq> set qids" and mk: "fst ` set ?mk \<subseteq> set qids" and un: "set qids = fst ` set ?dk \<union> fst ` set ?mk"
    unfolding kls_keys qids_set by auto
  have dis: "fst ` set ?dk \<inter> fst ` set ?mk = {}" unfolding kls_keys by auto
  obtain h qs where b: "create_queues pQue os report ?dk a = Some (a\<lparr>links := h, queues := qs\<rparr>)" "fam_ok 0 h qs"
    "fam_items h qs = fam_items (links a) (queues a)" "\<forall>k. qs k = None \<longleftrightarrow> queues a k = None \<and> k \<notin> fst ` set ?dk"
    "\<forall>x. x \<notin> pQue ` fst ` set ?dk \<longrightarrow> pNext h x = pNext (links a) x"
    using create_queues_fam [of a ?dk pQue os report, unfolded a0, OF fam_ok_empty kls_keys(3) inj_on_subset [OF inj dk]] nn dk
    unfolding a0 by (simp only: subset_iff) auto
  define s1 where "s1 = upd_data (\<lambda>d. d\<lparr>aQueueBusy := map (\<lambda>_. False) [0..<MAX_NUM_OF_AC]\<rparr>) (a\<lparr>links := h, queues := qs\<rparr>)"
  define c where "c = upd_mgmt (\<lambda>m. m\<lparr>bMgmtPortEnable := True, aMgmtAcBusy := False,
      aMgmtLinkQ := map (\<lambda>l. l\<lparr>eTxConnState := TX_CONN_STATE_CLOSE, eState := SM_STATE_CLOSE, bSendEvent_NotEmpty := False,
        bBusy := False, bEnabled := False, aQenabled := replicate NUM_OF_MGMT_QUEUES False\<rparr>) (aMgmtLinkQ m)\<rparr>) s1"
  have c0: "links c = h" "queues c = qs" by (simp_all add: c_def s1_def upd_mgmt_def upd_data_def)
  have pre: "\<forall>k \<in> fst ` set ?mk. qs k = None \<and> pQue k \<noteq> NULL \<and> pNext h (pQue k) = NULL"
  proof
    fix k assume k: "k \<in> fst ` set ?mk"
    then have kq: "k \<in> set qids" and kd: "k \<notin> fst ` set ?dk" using mk dis by auto
    have "pQue k \<notin> pQue ` fst ` set ?dk" unfolding inj_on_image_mem_iff [OF inj kq dk] by (rule kd)
    then show "qs k = None \<and> pQue k \<noteq> NULL \<and> pNext h (pQue k) = NULL" using b(4,5) kd nn kq by (simp add: a0)
  qed
  obtain h' qs' where e: "create_queues pQue os report ?mk c = Some (c\<lparr>links := h', queues := qs'\<rparr>)" "fam_ok 0 h' qs'"
    "fam_items h' qs' = fam_items h qs" "\<forall>k. qs' k = None \<longleftrightarrow> qs k = None \<and> k \<notin> fst ` set ?mk"
    using create_queues_fam [of c ?mk pQue os report, unfolded c0, OF b(2) kls_keys(4) inj_on_subset [OF inj mk] pre] by (elim exE conjE)
  define s2 where "s2 = upd_mgmt (\<lambda>m. m\<lparr>uLastHlid := 0\<rparr>) (c\<lparr>links := h', queues := qs'\<rparr>)"
  have l: "links s2 = h'" "queues s2 = qs'" by (simp_all add: s2_def upd_mgmt_def)
  note defs = s2_def c_def s1_def a_def upd_mgmt_def upd_data_def txCtrl_Init_def upd_ctrl_def tx_zero_def
    txDataQ_Create_def txMgmtQ_Create_def txCtrl_Create_def
  show thesis
  proof (rule that [of s1 s2])
    show "txDataQ_Init pQue os report (txCtrl_Init (tx_zero blks w)) = Some s1"
      unfolding txDataQ_Init_def a_def [symmetric] b(1) s1_def by simp
    show "txMgmtQ_Init pQue os report s1 = Some s2" unfolding txMgmtQ_Init_def c_def [symmetric] e(1) s2_def by simp
    show "fam_ok 0 (links s2) (queues s2)" using e(2) l by simp
    show "fam_items (links s2) (queues s2) = (\<lambda>_. [])" unfolding l e(3) b(3) a0 by (simp add: fam_items_def fun_eq_iff)
    show "\<forall>k. queues s2 k = None \<longleftrightarrow> k \<notin> set qids" unfolding l un using e(4) b(4) a0 by simp
    show "gate_ok s2" by (simp add: defs gate_ok_def dlink_def mlink_def zero_dlink_def zero_mlink_def state_queues_def numeral_2_eq_2)
    show "data_ok (dataQ s2)" by (simp add: defs data_ok_def clsfr_ok_def clsfr_zero_def active_def)
  qed (simp_all add: defs mgmt_ok_def ctrl_ok_def)
qed

lemma tx_start_ok:
  assumes ok: "start_ok pQue i"
  obtains s where "tx_start ops pQue os report i blks w = Some s" "tx_ok [] s" "gate_ok s" "own [] s = {}" "\<forall>e \<in> set (log s). sent_ok e"
    "freed (log s) = {#}"
proof -
  obtain s1 s2 where s: "txDataQ_Init pQue os report (txCtrl_Init (tx_zero blks w)) = Some s1" "txMgmtQ_Init pQue os report s1 = Some s2"
    "fam_ok 0 (links s2) (queues s2)" "fam_items (links s2) (queues s2) = (\<lambda>_. [])" "\<forall>k. queues s2 k = None \<longleftrightarrow> k \<notin> set qids"
    "inFw s2 = []" "log s2 = []" "data_ok (dataQ s2)" "mgmt_ok (mgmtQ s2)" "ctrl_ok (txCtrl s2)" "gate_ok s2" "tClsfrParams (dataQ s2) = clsfr_zero"
    using start_queues [OF ok] by metis
  obtain c where c: "txDataClsfr_Config clsfr_zero (pClsfrInit i) = (TI_OK, c)" using ok by (auto simp: start_ok_def prod_eq_iff)
  have "clsfr_ok c" using config_ok [of clsfr_zero "pClsfrInit i"] s(8,12) ok c by (simp add: start_ok_def data_ok_def)
  define s3 where "s3 = snd (txDataQ_SetDefaults True i s2)"
  have s3: "links s3 = links s2" "queues s3 = queues s2" "inFw s3 = []" "log s3 = []" "gate_ok s3" "mgmtQ s3 = mgmtQ s2" "txCtrl s3 = txCtrl s2"
    "data_ok (dataQ s3)" "rsrc_inv (tDataRsrc (dataQ s3)) {#}"
    using s \<open>clsfr_ok c\<close> rsrc_init ok
    by (simp_all add: s3_def txDataQ_SetDefaults_def s(12) c upd_data_def gate_ok_def dlink_def mlink_def data_ok_def start_ok_def)
  have i: "items s3 = (\<lambda>_. [])" using s(4) s3 by (simp add: items_def)
  then have o: "own [] s3 = {}" using s3 by (simp add: own_def qset_def)
  have "core [] s3" unfolding core_def held_def o using s s3 i by (simp add: qset_def)
  then have ok3: "tx_ok [] s3" using s s3 by (simp add: tx_ok_def)
  obtain s4 where s4: "txCtrl_SetDefaults True ops s3 = Some s4" "work True [] s3 [] s4"
    unfolding txCtrl_SetDefaults_def using UpdateQueuesMapping_work [OF ok3] by blast
  have "mset_set (own [] s4) = {#} \<and> freed (log s4) = {#} \<and> (\<forall>e \<in> set (log s4). sent_ok e)"
    using s4(2) s3(4,5) unfolding work_def o by auto
  then have "own [] s4 = {}" "freed (log s4) = {#}" "\<forall>e \<in> set (log s4). sent_ok e"
    using own_finite [OF tx_ok_core(1) [OF work_ok [OF s4(2)]]] by (auto simp: mset_set_empty_iff)
  moreover have "gate_ok s4" using s4(2) s3(5) by (simp add: work_def)
  moreover have "tx_start ops pQue os report i blks w = Some s4" using s(1,2) s4(1) by (simp add: tx_start_def s3_def)
  ultimately show thesis using that work_ok [OF s4(2)] by blast
qed

end
