(* ===== verification/TxSystem.thy ===== *)
theory TxSystem
  imports TxRun
begin

text \<open>
  The transmit path as a transition system: the calls of the other modules, the guards they are made
  under, and what holds along every sequence of them.
\<close>

section \<open>The operations\<close>

datatype tx_op =
    InsertPacket ptr TTxCtrlBlk u8 "u32 option"
  | MgmtXmit ptr TTxCtrlBlk bool
  | MgmtContext
  | DataContext
  | PaceTimeout
  | SetLinkState nat ETxConnState
  | SetLinkType nat EWlanLinkType
  | DataEncrypt nat bool
  | MgmtEncrypt nat bool
  | EncryptSizes nat u8
  | LinkMacAdd u32 "u8 list"
  | LinkMacRemove u32
  | InsertClsfr "TClsfrTableEntry option"
  | RemoveClsfr "TClsfrTableEntry option"
  | Backpressure u32 u32
  | Admission nat EAdmissionState ETrafficAdmState
  | QueuesMapping
  | TxComplete ptr
  | SuspendTx
  | ResumeTx
  | ClearData
  | ClearMgmt
  | ResetStatistics

definition tx_exec :: "'w twd_ops \<Rightarrow> tx_op \<Rightarrow> 'w TxState \<Rightarrow> 'w TxState option" where
  "tx_exec ops op s = (case op of
     InsertPacket p pkt d br \<Rightarrow> map_option snd (txDataQ_InsertPacket True ops p d br (upd_pkt p (\<lambda>_. pkt) s))
   | MgmtXmit p pkt ext \<Rightarrow> map_option snd (txMgmtQ_Xmit True ops p ext (upd_pkt p (\<lambda>_. pkt) s))
   | MgmtContext \<Rightarrow> txMgmtQ_QueuesNotEmpty True ops s
   | DataContext \<Rightarrow> txDataQ_RunScheduler True ops s
   | PaceTimeout \<Rightarrow> txDataQ_TxSendPaceTimeout True ops s
   | SetLinkState h c \<Rightarrow> map_option snd (txMgmtQ_SetLinkState True ops h c s)
   | SetLinkType h ty \<Rightarrow> Some (txMgmtQ_SetLinkType h ty s)
   | DataEncrypt h b \<Rightarrow> Some (TxDataQ_SetEncryptFlag h b s)
   | MgmtEncrypt h b \<Rightarrow> Some (TxMgmtQ_SetEncryptFlag h b s)
   | EncryptSizes h n \<Rightarrow> Some (TxDataQ_setEncryptionFieldSizes h n s)
   | LinkMacAdd h mac \<Rightarrow> Some (snd (txDataQ_LinkMacAdd h mac s))
   | LinkMacRemove h \<Rightarrow> Some (txDataQ_LinkMacRemove h s)
   | InsertClsfr e \<Rightarrow> Some (upd_data (\<lambda>d. d\<lparr>tClsfrParams := snd (txDataClsfr_InsertClsfrEntry (tClsfrParams d) e)\<rparr>) s)
   | RemoveClsfr e \<Rightarrow> Some (upd_data (\<lambda>d. d\<lparr>tClsfrParams := snd (txDataClsfr_RemoveClsfrEntry (tClsfrParams d) e)\<rparr>) s)
   | Backpressure fa fl \<Rightarrow> txCtrl_UpdateBackpressure True ops fa fl s
   | Admission ac r st \<Rightarrow> txCtrlParams_setAcAdmissionStatus True ops ac r st s
   | QueuesMapping \<Rightarrow> txCtrl_UpdateQueuesMapping True ops s
   | TxComplete p \<Rightarrow> txCtrl_TxCompleteCb p s
   | SuspendTx \<Rightarrow> Some (txMgmtQ_SuspendTx s)
   | ResumeTx \<Rightarrow> txMgmtQ_ResumeTx True ops s
   | ClearData \<Rightarrow> txDataQ_ClearQueues True s
   | ClearMgmt \<Rightarrow> txMgmtQ_ClearQueues True s
   | ResetStatistics \<Rightarrow> Some (txDataQ_ResetQueueStatistics (txMgmtQ_ResetQueueStatistics s)))"

text \<open>
  What a caller owes: the packet it hands over is its own, with no resources and a full header, the link
  exists, and the packet the firmware reports was given to it.
\<close>

definition tx_pre :: "tx_op \<Rightarrow> 'w TxState \<Rightarrow> bool" where
  "tx_pre op s \<longleftrightarrow> (case op of
     InsertPacket p pkt d br \<Rightarrow> p \<notin> own [] s \<and> entry_ok p [] (upd_pkt p (\<lambda>_. pkt) s) \<and> insert_pre p d br (upd_pkt p (\<lambda>_. pkt) s)
   | MgmtXmit p pkt ext \<Rightarrow> p \<notin> own [] s \<and> entry_ok p [] (upd_pkt p (\<lambda>_. pkt) s)
   | SetLinkState h c \<Rightarrow> h < WLANLINKS_MAX_LINKS
   | SetLinkType h ty \<Rightarrow> h < WLANLINKS_MAX_LINKS
   | DataEncrypt h b \<Rightarrow> h < WLANLINKS_MAX_LINKS
   | MgmtEncrypt h b \<Rightarrow> h < WLANLINKS_MAX_LINKS
   | EncryptSizes h n \<Rightarrow> h < WLANLINKS_MAX_LINKS
   | Admission ac r st \<Rightarrow> ac < MAX_NUM_OF_AC
   | TxComplete p \<Rightarrow> p \<in> set (inFw s)
   | _ \<Rightarrow> True)"

text \<open>The order in which the connection states of a link are set.\<close>

definition tx_order :: "tx_op \<Rightarrow> 'w TxState \<Rightarrow> bool" where
  "tx_order op s \<longleftrightarrow> (case op of SetLinkState h c \<Rightarrow> sm_guard (conn_event c) (eState (mlink s h)) | _ \<Rightarrow> True)"

definition entered :: "tx_op \<Rightarrow> ptr list" where
  "entered op = (case op of InsertPacket p pkt d br \<Rightarrow> [p] | MgmtXmit p pkt ext \<Rightarrow> [p] | _ \<Rightarrow> [])"

text \<open>One step: it ends, keeps the invariant, and accounts for every packet.\<close>

definition tx_step_ok :: "bool \<Rightarrow> ptr list \<Rightarrow> 'w TxState \<Rightarrow> 'w TxState \<Rightarrow> bool" where
  "tx_step_ok g ps s s' \<longleftrightarrow> tx_ok [] s' \<and> (g \<longrightarrow> gate_ok s \<longrightarrow> gate_ok s') \<and>
     (\<exists>evs. log s' = log s @ evs \<and> mset ps + mset_set (own [] s) = mset_set (own [] s') + freed evs \<and>
       (g \<longrightarrow> gate_ok s \<longrightarrow> (\<forall>e \<in> set evs. sent_ok e)))"

lemma work_step: "work g [] s [] s' \<Longrightarrow> tx_step_ok g [] s s'"
  by (simp add: work_def tx_step_ok_def)

lemma enters_step:
  assumes "tx_ok [] s" and "p \<notin> own [] s" and "enters p [] (upd_pkt p (\<lambda>_. pkt) s) s'"
  shows "tx_step_ok True [p] s s'"
  using enters_outside [OF assms] by (simp add: enters_def tx_step_ok_def)

lemma calm_step: "tx_ok [] s \<Longrightarrow> calm s s' \<Longrightarrow> tx_step_ok g [] s s'"
  by (rule work_step [OF calm_work])

lemma calm_ops:
  assumes "tx_ok [] s"
  shows "calm s (TxDataQ_SetEncryptFlag h b s)" "calm s (TxMgmtQ_SetEncryptFlag h b s)" "calm s (TxDataQ_setEncryptionFieldSizes h n s)"
    "calm s (snd (txDataQ_LinkMacAdd u mac s))" "calm s (txDataQ_LinkMacRemove u s)" "h < 7 \<Longrightarrow> calm s (txMgmtQ_SetLinkType h ty s)"
    "calm s (upd_data (\<lambda>d. d\<lparr>tClsfrParams := snd (txDataClsfr_InsertClsfrEntry (tClsfrParams d) e)\<rparr>) s)"
    "calm s (upd_data (\<lambda>d. d\<lparr>tClsfrParams := snd (txDataClsfr_RemoveClsfrEntry (tClsfrParams d) e)\<rparr>) s)"
    "calm s (txDataQ_ResetQueueStatistics (txMgmtQ_ResetQueueStatistics s))"
proof -
  show "calm s (TxDataQ_SetEncryptFlag h b s)" unfolding TxDataQ_SetEncryptFlag_def by (rule calm_upd_dlink) simp
  show "calm s (TxMgmtQ_SetEncryptFlag h b s)" unfolding TxMgmtQ_SetEncryptFlag_def by (rule calm_upd_mlink) simp_all
  show "calm s (TxDataQ_setEncryptionFieldSizes h n s)" unfolding TxDataQ_setEncryptionFieldSizes_def by (rule calm_upd_dlink) simp
  show "calm s (snd (txDataQ_LinkMacAdd u mac s))"
    by (auto simp: txDataQ_LinkMacAdd_def data_ok_def intro!: calm_upd_data)
  show "calm s (txDataQ_LinkMacRemove u s)" by (auto simp: txDataQ_LinkMacRemove_def data_ok_def intro!: calm_upd_data)
  show "calm s (upd_data (\<lambda>d. d\<lparr>tClsfrParams := snd (txDataClsfr_InsertClsfrEntry (tClsfrParams d) e)\<rparr>) s)"
    by (rule calm_upd_data) (simp_all add: data_ok_def insert_ok)
  show "calm s (upd_data (\<lambda>d. d\<lparr>tClsfrParams := snd (txDataClsfr_RemoveClsfrEntry (tClsfrParams d) e)\<rparr>) s)"
    by (rule calm_upd_data) (simp_all add: data_ok_def remove_ok)
  show "calm s (txMgmtQ_SetLinkType h ty s)" if h: "h < 7"
  proof -
    have u: "unat (of_nat h :: u32) < 7" using h by (simp add: unat_of_nat)
    have a: "calm s (upd_mlink h (\<lambda>l. l\<lparr>eType := ty\<rparr>) s)" by (rule calm_upd_mlink) simp_all
    have b: "calm t (if ty = WLANLINK_TYPE_GLOBAL then upd_mgmt (\<lambda>m. m\<lparr>uGlobalHlid := of_nat h\<rparr>) t else t)" for t :: "'a TxState"
      by (simp, intro impI calm_upd_mgmt) (use u in \<open>simp_all add: mgmt_ok_def\<close>)
    have c: "calm t (upd_dlink h (\<lambda>l. l\<lparr>eType := ty\<rparr>) t)" for t :: "'a TxState" by (rule calm_upd_dlink) simp
    have d: "calm t (if ty = WLANLINK_TYPE_BRCST then upd_data (\<lambda>d. d\<lparr>uBcastHlid := of_nat h\<rparr>) t else t)" for t :: "'a TxState"
      by (simp, intro impI calm_upd_data) (use u in \<open>simp_all add: data_ok_def\<close>)
    show ?thesis
      unfolding txMgmtQ_SetLinkType_def txDataQ_SetLinkType_def Let_def by (rule calm_trans [OF calm_trans [OF calm_trans [OF a b] c] d])
  qed
  have "calm s (txMgmtQ_ResetQueueStatistics s)"
    unfolding txMgmtQ_ResetQueueStatistics_def by (rule calm_upd_mgmt) (simp_all add: mgmt_ok_def)
  moreover have "calm t (txDataQ_ResetQueueStatistics t)" for t :: "'a TxState"
    unfolding txDataQ_ResetQueueStatistics_def by (rule calm_upd_data) (simp_all add: data_ok_def)
  ultimately show "calm s (txDataQ_ResetQueueStatistics (txMgmtQ_ResetQueueStatistics s))" by (rule calm_trans)
qed

lemma port_work:
  assumes "tx_ok H s"
  shows "work g H s H (upd_data (\<lambda>d. d\<lparr>bDataPortEnable := b\<rparr>) s)" "work g H s H (upd_mgmt (\<lambda>m. m\<lparr>bMgmtPortEnable := b\<rparr>) s)"
  by (rule still_work(1) [OF assms];
      simp add: still_def oks_def upd_data_def upd_mgmt_def data_ok_def mgmt_ok_def gate_ok_def dlink_def mlink_def)+

lemma ResumeTx_work:
  assumes ok: "tx_ok H s"
  shows "\<exists>s'. txMgmtQ_ResumeTx True ops s = Some s' \<and> work True H s H s'"
proof -
  obtain s1 where s1: "txMgmtQ_WakeAll True ops s = Some s1" "work True H s H s1"
    unfolding txMgmtQ_WakeAll_def using NotFromSm_work [OF port_work(2) [OF ok]] by blast
  have "work True H s H (upd_data (\<lambda>d. d\<lparr>bDataPortEnable := True\<rparr>) s1)" by (rule work_trans [OF s1(2) port_work(1) [OF work_ok [OF s1(2)]]])
  from RunScheduler_work [OF ok this] show ?thesis unfolding txMgmtQ_ResumeTx_def s1(1) txDataQ_WakeAll_def by simp
qed

lemma SuspendTx_work: "tx_ok H s \<Longrightarrow> work g H s H (txMgmtQ_SuspendTx s)"
  unfolding txMgmtQ_SuspendTx_def txDataQ_StopAll_def txMgmtQ_StopAll_def by (metis port_work work_trans work_ok)

lemma PaceTimeout_work:
  assumes ok: "tx_ok H s"
  shows "\<exists>s'. txDataQ_TxSendPaceTimeout True ops s = Some s' \<and> work True H s H s'"
proof -
  have "calm s (upd_data (\<lambda>d. d\<lparr>uTxSendPaceTimeoutsCount := uTxSendPaceTimeoutsCount d + 1\<rparr>) s)"
    by (rule calm_upd_data) (simp_all add: data_ok_def)
  from RunScheduler_work [OF ok calm_work [OF ok this]] show ?thesis unfolding txDataQ_TxSendPaceTimeout_def .
qed

lemma Admission_work:
  assumes ok: "tx_ok H s"
  shows "\<exists>s'. txCtrlParams_setAcAdmissionStatus True ops ac r st s = Some s' \<and> work True H s H s'"
proof -
  have c: "calm s (upd_ctrl (\<lambda>c. c\<lparr>admissionRequired := (admissionRequired c)[ac := r], admissionState := (admissionState c)[ac := st]\<rparr>) s)"
    by (rule calm_upd_ctrl) (simp add: ctrl_ok_def)
  show ?thesis
    unfolding txCtrlParams_setAcAdmissionStatus_def
    using UpdateQueuesMapping_work [OF calm_tx_ok [OF ok c], of ops] work_trans [OF calm_work [OF ok c]] by blast
qed

lemma SetLinkState_work:
  assumes ok: "tx_ok H s" and h: "h < 7"
  shows "\<exists>s'. txMgmtQ_SetLinkState True ops h c s = Some (TI_OK, s') \<and> work (sm_guard (conn_event c) (eState (mlink s h))) H s H s'"
proof -
  let ?t = "upd_mlink h (\<lambda>l. l\<lparr>eTxConnState := c\<rparr>) s"
  have t: "calm s ?t" by (rule calm_upd_mlink) simp_all
  have e: "eState (mlink ?t h) = eState (mlink s h)" by (simp add: mlink_upd [OF tx_ok_lengths(1) [OF ok] h])
  obtain s' where "mgmtQueuesSM True ops h (conn_event c) ?t = Some s'" "work (sm_guard (conn_event c) (eState (mlink s h))) H ?t H s'"
    using mgmtQueuesSM_work [OF calm_tx_ok [OF ok t] h, of ops "conn_event c"] unfolding e by blast
  then show ?thesis unfolding txMgmtQ_SetLinkState_def using work_trans [OF calm_work [OF ok t]] by auto
qed


lemma tx_step:
  assumes ok: "tx_ok [] s" and pre: "tx_pre op s"
  shows "\<exists>s'. tx_exec ops op s = Some s' \<and> tx_step_ok (tx_order op s) (entered op) s s'"
proof (cases op)
  case (InsertPacket p pkt d br)
  let ?t = "upd_pkt p (\<lambda>_. pkt) s"
  have p: "p \<notin> own [] s" "entry_ok p [] ?t" "insert_pre p d br ?t" using pre InsertPacket by (simp_all add: tx_pre_def)
  obtain st s' where "txDataQ_InsertPacket True ops p d br ?t = Some (st, s')" "enters p [] ?t s'"
    using InsertPacket_enters [OF outside_pkt(1) [OF ok p(1)] p(2,3)] by metis
  then show ?thesis using enters_step [OF ok p(1)] InsertPacket by (simp add: tx_exec_def tx_order_def entered_def)
next
  case (MgmtXmit p pkt ext)
  let ?t = "upd_pkt p (\<lambda>_. pkt) s"
  have p: "p \<notin> own [] s" "entry_ok p [] ?t" using pre MgmtXmit by (simp_all add: tx_pre_def)
  obtain st s' where "txMgmtQ_Xmit True ops p ext ?t = Some (st, s')" "enters p [] ?t s'"
    using txMgmtQ_Xmit_enters [OF outside_pkt(1) [OF ok p(1)] p(2)] by metis
  then show ?thesis using enters_step [OF ok p(1)] MgmtXmit by (simp add: tx_exec_def tx_order_def entered_def)
next
  case (SetLinkState h c)
  then have h: "h < 7" using pre by (simp add: tx_pre_def)
  then show ?thesis using SetLinkState_work [OF ok h, of ops c] work_step SetLinkState
    by (auto simp: tx_exec_def tx_order_def entered_def)
next
  case (SetLinkType h ty)
  then have h: "h < 7" using pre by (simp add: tx_pre_def)
  then show ?thesis using calm_step [OF ok calm_ops(6) [OF ok h]] SetLinkType by (simp add: tx_exec_def tx_order_def entered_def)
next
  case (TxComplete p)
  then have "p \<in> set (inFw s)" using pre by (simp add: tx_pre_def)
  from TxCompleteCb_work [OF ok this] show ?thesis using TxComplete work_step by (auto simp: tx_exec_def tx_order_def entered_def)
next
  case MgmtContext
  then show ?thesis using QueuesNotEmpty_work [OF ok, of ops] work_step by (auto simp: tx_exec_def tx_order_def entered_def)
next
  case DataContext
  then show ?thesis using RunScheduler_work [OF ok still_refl_work [OF ok, of True], of ops] work_step by (auto simp: tx_exec_def tx_order_def entered_def)
next
  case PaceTimeout
  then show ?thesis using PaceTimeout_work [OF ok, of ops] work_step by (auto simp: tx_exec_def tx_order_def entered_def)
next
  case (Backpressure fa fl)
  then show ?thesis using UpdateBackpressure_work [OF ok, of ops fa fl] work_step by (auto simp: tx_exec_def tx_order_def entered_def)
next
  case (Admission ac r st)
  then show ?thesis using Admission_work [OF ok, of ops ac r st] work_step by (auto simp: tx_exec_def tx_order_def entered_def)
next
  case QueuesMapping
  then show ?thesis using UpdateQueuesMapping_work [OF ok, of ops] work_step by (auto simp: tx_exec_def tx_order_def entered_def)
next
  case ResumeTx
  then show ?thesis using ResumeTx_work [OF ok, of ops] work_step by (auto simp: tx_exec_def tx_order_def entered_def)
next
  case SuspendTx
  then show ?thesis using work_step [OF SuspendTx_work [OF ok]] by (simp add: tx_exec_def tx_order_def entered_def)
next
  case ClearData
  then show ?thesis using ClearQueues_work(1) [OF ok] work_step by (auto simp: tx_exec_def tx_order_def entered_def)
next
  case ClearMgmt
  then show ?thesis using ClearQueues_work(2) [OF ok] work_step by (auto simp: tx_exec_def tx_order_def entered_def)
qed (use calm_step [OF ok] calm_ops [OF ok] in \<open>simp_all add: tx_exec_def tx_order_def entered_def\<close>)


section \<open>Runs\<close>

text \<open>
  A run of the transmit path: the start of the modules, then any calls within the guards.  The flag says
  whether the connection states are set in order.
\<close>

inductive tx_run :: "'w twd_ops \<Rightarrow> bool \<Rightarrow> tx_op list \<Rightarrow> 'w TxState \<Rightarrow> bool" for ops g where
  tx_run_start: "start_ok pQue i \<Longrightarrow> tx_start ops pQue os report i blks w = Some s \<Longrightarrow> tx_run ops g [] s"
| tx_run_step: "tx_run ops g tr s \<Longrightarrow> tx_pre op s \<Longrightarrow> g \<longrightarrow> tx_order op s \<Longrightarrow> tx_exec ops op s = Some s' \<Longrightarrow>
    tx_run ops g (tr @ [op]) s'"

definition all_entered :: "tx_op list \<Rightarrow> ptr multiset" where
  "all_entered tr = mset (concat (map entered tr))"

lemma all_entered_snoc: "all_entered (tr @ [op]) = all_entered tr + mset (entered op)" "all_entered [] = {#}"
  by (simp_all add: all_entered_def)

lemma tx_run_inv:
  assumes "tx_run ops g tr s"
  shows "tx_ok [] s \<and> all_entered tr = mset_set (own [] s) + freed (log s) \<and> (g \<longrightarrow> gate_ok s \<and> (\<forall>e \<in> set (log s). sent_ok e))"
  using assms
proof induction
  case (tx_run_start pQue i os report blks w s)
  obtain s' where s': "tx_start ops pQue os report i blks w = Some s'" "tx_ok [] s'" "gate_ok s'" "own [] s' = {}" "\<forall>e \<in> set (log s'). sent_ok e"
    "freed (log s') = {#}" using tx_start_ok [OF tx_run_start(1)] by metis
  then show ?case using tx_run_start(2) by (simp add: all_entered_def)
next
  case (tx_run_step tr s op s')
  have "tx_step_ok (tx_order op s) (entered op) s s'"
    using tx_step [of s op ops] tx_run_step by auto
  then obtain evs where e: "log s' = log s @ evs" "mset (entered op) + mset_set (own [] s) = mset_set (own [] s') + freed evs"
    "tx_order op s \<longrightarrow> gate_ok s \<longrightarrow> (\<forall>e \<in> set evs. sent_ok e)" and g: "tx_ok [] s'" "tx_order op s \<longrightarrow> gate_ok s \<longrightarrow> gate_ok s'"
    by (auto simp: tx_step_ok_def)
  have "all_entered (tr @ [op]) = freed (log s) + (mset (entered op) + mset_set (own [] s))"
    using tx_run_step.IH by (simp add: all_entered_snoc)
  also have "\<dots> = mset_set (own [] s') + freed (log s')" unfolding e by simp
  finally show ?case using g e(1,3) tx_run_step.IH tx_run_step.hyps(3) by auto
qed

end
