(* ===== verification/TxClaims.thy ===== *)
theory TxClaims
  imports TxSystem
begin

text \<open>
  The properties of the transmit path: what holds along every run, and what the connection states of a
  link and the backpressure do.
\<close>

section \<open>Where the packets are\<close>

definition held_packets :: "'w TxState \<Rightarrow> ptr list" where
  "held_packets s = inFw s @ concat (map (items s) qids)"

lemma concat_distinct:
  assumes "distinct ks" and "\<And>k. distinct (f k)" and "\<And>x k l. x \<in> set (f k) \<Longrightarrow> x \<in> set (f l) \<Longrightarrow> k = l"
  shows "distinct (concat (map f ks))"
  using assms(1)
proof (induction ks)
  case (Cons k ks)
  then show ?case using assms(2) [of k] assms(3) by auto
qed simp

lemma qids_distinct: "distinct qids"
  by code_simp

lemma held_packets_own:
  assumes "tx_ok [] s"
  shows "distinct (held_packets s)" "set (held_packets s) = own [] s"
proof -
  note c = tx_ok_core(1) [OF assms]
  have i: "(\<Union>k \<in> set qids. set (items s k)) = qset s" using items_qids [OF c] by (auto simp: qset_def)
  have "distinct (concat (map (items s) qids))"
    by (rule concat_distinct [OF qids_distinct items_distinct [OF c] items_disjoint [OF c]])
  then show "distinct (held_packets s)" using tx_coreD(7,8) [OF c] i by (auto simp: held_packets_def)
  show "set (held_packets s) = own [] s" using i by (auto simp: held_packets_def own_def)
qed

lemma held_mset: "tx_ok [] s \<Longrightarrow> mset_set (own [] s) = mset (held_packets s)"
  using mset_set_set [OF held_packets_own(1)] held_packets_own(2) by metis

lemma cnt_held:
  assumes "tx_ok [] s"
  shows "cnt f (held [] s) i = card {p \<in> own [] s. f (rsrc_class (pkts s p)) = i}"
  using own_finite [OF tx_ok_core(1) [OF assms]]
  by (simp add: cnt_def held_def filter_mset_image_mset comp_def Int_def)

section \<open>The connection states of a link\<close>


lemma open_link:
  assumes ok: "tx_ok [] s" and h: "h < 7" and e: "items s (MgmtQ h 0) = []" "items s (MgmtQ h 1) = []"
  shows "\<exists>s'. txMgmtQ_SetLinkState True ops h TX_CONN_STATE_OPEN s = Some (TI_OK, s') \<and> work True [] s [] s' \<and>
    eState (mlink s' h) = SM_STATE_OPEN_DATA"
proof -
  let ?t = "upd_mlink h (\<lambda>l. l\<lparr>eTxConnState := TX_CONN_STATE_OPEN\<rparr>) s"
  have t: "calm s ?t" by (rule calm_upd_mlink) simp_all
  have a: "ARE_LINK_MGMT_QUEUES_EMPTY ?t h = Some True" unfolding ARE_EMPTY_eq [OF calm_tx_ok [OF ok t] h] calm_items(1) [OF t] using e by simp
  let ?l = "(mlink ?t h)\<lparr>eState := SM_STATE_OPEN_DATA, aQenabled := [False, False]\<rparr>"
  have l: "eState ?l = SM_STATE_OPEN_DATA" "aQenabled ?l = [False, False]" by simp_all
  obtain s' where "txDataQ_EnableLink True ops h (txMgmtQ_DisableLink h (upd_mlink h (\<lambda>_. ?l) ?t)) = Some s'"
    and w: "work True [] ?t [] s'" "\<forall>h' < 7. eState (mlink s' h') = (if h' = h then SM_STATE_OPEN_DATA else eState (mlink ?t h'))"
    using enable_data_work [OF calm_tx_ok [OF ok t] h l] by metis
  then show ?thesis using h a work_trans [OF calm_work [OF ok t] w(1)]
    by (simp add: txMgmtQ_SetLinkState_def conn_event_def mgmtQueuesSM_def sm_run_def sm_next_def)
qed

lemma eapol_link:
  assumes ok: "tx_ok [] s" and h: "h < 7"
  shows "\<exists>s'. txMgmtQ_SetLinkState True ops h TX_CONN_STATE_EAPOL s = Some (TI_OK, s') \<and>
    work (eState (mlink s h) \<noteq> SM_STATE_OPEN_DATA) [] s [] s' \<and>
    eState (mlink s' h) = SM_STATE_EAPOL \<and> bEnabled (dlink s' h) = bEnabled (dlink s h)"
proof -
  obtain s' where s': "txMgmtQ_SetLinkState True ops h TX_CONN_STATE_EAPOL s = Some (TI_OK, s')"
    "work (eState (mlink s h) \<noteq> SM_STATE_OPEN_DATA) [] s [] s'"
    using SetLinkState_work [OF ok h, of ops TX_CONN_STATE_EAPOL] by (auto simp: conn_event_def sm_guard_def)
  let ?t = "upd_mlink h (\<lambda>l. l\<lparr>eTxConnState := TX_CONN_STATE_EAPOL\<rparr>) s"
  define u where "u = upd_mlink h (\<lambda>_. (mlink ?t h)\<lparr>eState := SM_STATE_EAPOL, aQenabled := [True, True]\<rparr>) ?t"
  have "still s u" unfolding u_def by (rule still_trans [OF still_upd_mlink still_upd_mlink])
  then have oku: "tx_ok [] u" using work_ok [OF still_work(1) [OF ok, of u False]] by simp
  obtain s'' where s'': "runScheduler True ops u = Some s''" "flow mgmtKs [] u [] s''" using runScheduler_flow [OF oku] by metis
  then have "s'' = s'" using s'(1) h by (simp add: txMgmtQ_SetLinkState_def conn_event_def mgmtQueuesSM_def sm_run_def sm_next_def u_def)
  then have f: "flow mgmtKs [] u [] s'" using s''(2) by simp
  have "eState (mlink s' h) = eState (mlink u h)" "bEnabled (dlink s' h) = bEnabled (dlink u h)"
    using gates_oks(3,5) [OF oku flow_ok [OF f] h] by simp_all
  moreover have "eState (mlink u h) = SM_STATE_EAPOL" "bEnabled (dlink u h) = bEnabled (dlink s h)"
    using tx_ok_lengths [OF ok] h by (simp_all add: u_def mlink_upd)
  ultimately show ?thesis using s' by simp
qed


section \<open>A concrete system\<close>

declare sched_loop.simps [code] mgmt_loop.simps [code] flush_queue.simps [code]

fun qaddr :: "qid \<Rightarrow> ptr" where
  "qaddr (MgmtQ h q) = 4096 + 64 * (2 * of_nat h + of_nat q)"
| "qaddr (DataQ h q) = 8192 + 64 * (4 * of_nat h + of_nat q)"

definition ex_ops :: "unit twd_ops" where
  "ex_ops = \<lparr>AllocResources = (\<lambda>_ w. (TX_HW_QUE_STATUS_SUCCESS, w)), SendPacket = (\<lambda>_ w. (TXN_STATUS_COMPLETE, w))\<rparr>"

definition ex_init :: txDataInitParams_t where
  "ex_init = \<lparr>pClsfrInit = clsfr_zero, pStopNetStackTx = False, pTxSendPaceThresh = 1, pMinGuaranteedAc = [10, 10, 10, 10],
     pMinGuaranteedLink = 5\<rparr>"

definition ex_pkt :: TTxCtrlBlk where
  "ex_pkt = \<lparr>uPktType = TX_PKT_TYPE_ETHER, uFlags = 0, hlid = 0, tid = 0,
     aBuf = [Some (replicate 12 1 @ [8, 0]), None, None, None], aLen = [14, 0, 0, 0]\<rparr>"

definition ex_s0 :: "unit TxState" where
  "ex_s0 = the (tx_start ex_ops qaddr 1 1 ex_init (\<lambda>_. ex_pkt) ())"

abbreviation ex_insert :: tx_op where
  "ex_insert \<equiv> InsertPacket 256 ex_pkt 0 None"

definition ex_s1 :: "unit TxState" where
  "ex_s1 = the (tx_exec ex_ops ex_insert ex_s0)"

lemma ex_start_ok: "start_ok qaddr ex_init"
  by code_simp

lemma ex_eval: "map_option (\<lambda>s. (map (\<lambda>k. map_option tHead (queues s k)) qids, eState (mlink s 1), tClsfrParams (dataQ s)))
    (tx_start ex_ops qaddr 1 1 ex_init (\<lambda>_. ex_pkt) ()) = Some (map (\<lambda>k. Some (qaddr k)) qids, SM_STATE_CLOSE, clsfr_zero)"
  by code_simp

lemma ex_addr: "256 \<notin> qaddr ` set qids" "txDataClsfr_ClassifyTxPacket clsfr_zero ex_pkt 0 \<noteq> None"
  by code_simp+

lemma ex_start:
  "tx_start ex_ops qaddr 1 1 ex_init (\<lambda>_. ex_pkt) () = Some ex_s0" "tx_run ex_ops g [] ex_s0" "tx_ok [] ex_s0" "own [] ex_s0 = {}"
proof -
  obtain s where s: "tx_start ex_ops qaddr 1 1 ex_init (\<lambda>_. ex_pkt) () = Some s" "tx_ok [] s" "own [] s = {}"
    using tx_start_ok [OF ex_start_ok] by metis
  then have "ex_s0 = s" by (simp add: ex_s0_def)
  then show e: "tx_start ex_ops qaddr 1 1 ex_init (\<lambda>_. ex_pkt) () = Some ex_s0" "tx_ok [] ex_s0" "own [] ex_s0 = {}" using s by simp_all
  show "tx_run ex_ops g [] ex_s0" by (rule tx_run_start [OF ex_start_ok e(1)])
qed

lemma ex_facts: "queues ex_s0 k = Some q \<Longrightarrow> tHead q \<noteq> 256" "eState (mlink ex_s0 1) = SM_STATE_CLOSE" "tClsfrParams (dataQ ex_s0) = clsfr_zero"
proof -
  have e: "map (\<lambda>k. map_option tHead (queues ex_s0 k)) qids = map (\<lambda>k. Some (qaddr k)) qids"
    "eState (mlink ex_s0 1) = SM_STATE_CLOSE" "tClsfrParams (dataQ ex_s0) = clsfr_zero"
    using ex_eval unfolding ex_start(1) by simp_all
  then show "eState (mlink ex_s0 1) = SM_STATE_CLOSE" "tClsfrParams (dataQ ex_s0) = clsfr_zero" by simp_all
  assume k: "queues ex_s0 k = Some q"
  then have "k \<in> set qids" using tx_coreD(9) [OF tx_ok_core(1) [OF ex_start(3)], of k] by simp
  then show "tHead q \<noteq> 256" using e(1) ex_addr(1) k by (auto simp: map_eq_conv image_iff)
qed

lemma ex_pre: "tx_pre ex_insert ex_s0"
proof -
  have "256 \<notin> fam_heads (queues ex_s0)" using ex_facts(1) by (force simp: fam_heads_def)
  then show ?thesis
    using ex_facts(3) ex_addr(2) ex_start(4)
    by (simp add: tx_pre_def entry_ok_def insert_pre_def fam_valid_def upd_pkt_def own_def qset_def items_def rsrc_fresh_def)
      (simp add: ex_pkt_def buf_def)
qed

lemma ex_run: "tx_exec ex_ops ex_insert ex_s0 = Some ex_s1" "tx_run ex_ops g [ex_insert] ex_s1"
proof -
  show e: "tx_exec ex_ops ex_insert ex_s0 = Some ex_s1" using tx_step [OF ex_start(3) ex_pre, of ex_ops] by (auto simp: ex_s1_def)
  show "tx_run ex_ops g [ex_insert] ex_s1" using tx_run_step [OF ex_start(2) ex_pre _ e, of g] by (simp add: tx_order_def)
qed

lemma ex_open:
  obtains s where "tx_run ex_ops True [SetLinkState 1 TX_CONN_STATE_EAPOL, SetLinkState 1 TX_CONN_STATE_OPEN] s" "eState (mlink s 1) = SM_STATE_OPEN_DATA"
proof -
  have r0: "tx_run ex_ops True [] ex_s0" and h: "(1 :: nat) < 7" by (simp_all add: ex_start)
  obtain s1 where s1: "txMgmtQ_SetLinkState True ex_ops 1 TX_CONN_STATE_EAPOL ex_s0 = Some (TI_OK, s1)" "eState (mlink s1 1) = SM_STATE_EAPOL"
    using eapol_link [OF ex_start(3) h] by metis
  let ?o1 = "SetLinkState 1 TX_CONN_STATE_EAPOL" and ?o2 = "SetLinkState 1 TX_CONN_STATE_OPEN"
  have r1: "tx_run ex_ops True [?o1] s1"
    using tx_run_step [OF r0, of ?o1 s1] s1 ex_facts(2) by (simp add: tx_pre_def tx_order_def tx_exec_def conn_event_def sm_guard_def)
  have ok: "tx_ok [] s1" and "own [] s1 = {}"
    using tx_run_inv [OF r1] own_finite [of "[]" s1] by (simp_all add: all_entered_def entered_def tx_ok_def mset_set_empty_iff)
  then have e: "items s1 (MgmtQ 1 0) = []" "items s1 (MgmtQ 1 1) = []" by (auto simp: own_def qset_def)
  obtain s2 where s2: "txMgmtQ_SetLinkState True ex_ops 1 TX_CONN_STATE_OPEN s1 = Some (TI_OK, s2)" "eState (mlink s2 1) = SM_STATE_OPEN_DATA"
    using open_link [OF ok h e] by metis
  have "tx_run ex_ops True [?o1, ?o2] s2"
    using tx_run_step [OF r1, of ?o2 s2] s1(2) s2 by (simp add: tx_pre_def tx_order_def tx_exec_def conn_event_def sm_guard_def)
  then show thesis using that s2(2) by blast
qed

section \<open>Properties\<close>

text \<open>
  C4: no packet is lost, duplicated or leaked in the transmit path.  Along every run of the data queues,
  the management queues and the transmit control, whatever the firmware answers, the packets handed over
  by the network stack and the management modules are those at the firmware, those in the queues, each
  in exactly one place, and those freed; and the resource counters of every access category and every
  link are the numbers of packets held.
\<close>

theorem tx_ledger:
  assumes "tx_run ops g tr s"
  shows "distinct (held_packets s) \<and> all_entered tr = mset (held_packets s) + freed (log s) \<and>
    (\<forall>ac < MAX_NUM_OF_AC. unat (uPktInUse_PerAc (tDataRsrc (dataQ s)) ! ac) =
       card {p \<in> set (held_packets s). unat (GET_TX_CTRL_FLAG_RSRC_AC (pkts s p)) = ac}) \<and>
    (\<forall>h < WLANLINKS_MAX_LINKS. unat (uPktInUse_PerLink (tDataRsrc (dataQ s)) ! h) =
       card {p \<in> set (held_packets s). unat (hlid (pkts s p)) = h})"
proof -
  have ok: "tx_ok [] s" and e: "all_entered tr = mset_set (own [] s) + freed (log s)" using tx_run_inv [OF assms] by simp_all
  note h = held_packets_own [OF ok]
  have "rsrc_ok (tDataRsrc (dataQ s)) (held [] s)" using tx_coreD(6) [OF tx_ok_core(1) [OF ok]] by (simp add: rsrc_inv_def)
  then show ?thesis using h e held_mset [OF ok] unfolding h(2) by (simp add: rsrc_ok_def pool_ok_def cnt_held [OF ok] rsrc_class_def)
qed

theorem tx_ledger_witness:
  "distinct (held_packets ex_s1) \<and> {#256#} = mset (held_packets ex_s1) + freed (log ex_s1)"
  using tx_ledger [OF ex_run(2) [of True]] by (simp add: all_entered_def entered_def)



text \<open>
  C10: every operation of the transmit path returns.  In any state that a run leads to, a call that meets
  its guard ends in a state again: the two schedulers, which serve the queues until they are empty or
  blocked, the state machine with its nested calls, and the flushing of queues all terminate, whatever
  the hardware queues and the transfer module answer, and no queue or table is accessed out of range.
\<close>

theorem tx_returns:
  assumes "tx_run ops g tr s" and "tx_pre op s"
  shows "\<exists>s'. tx_exec ops op s = Some s'"
  using tx_step [of s op ops] tx_run_inv [OF assms(1)] assms(2) by blast

theorem tx_returns_witness:
  "(\<exists>s'. tx_exec ex_ops ex_insert ex_s0 = Some s') \<and> (\<exists>s'. tx_exec ex_ops ResumeTx ex_s1 = Some s')"
  using tx_returns [OF ex_start(2) [of True] ex_pre] tx_returns [OF ex_run(2) [of True], of ResumeTx] by (simp add: tx_pre_def)



text \<open>
  Opening a link: setting the connection state OPEN on a link whose management queues are empty takes
  it to OPEN_DATA with its data queues enabled; this is so in particular after EAPOL, when the last packet
  of the handshake has been sent.
\<close>

lemma tx_open_enables_data:
  assumes "tx_run ops True tr s" and "h < WLANLINKS_MAX_LINKS"
    and "items s (MgmtQ h QUEUE_TYPE_MGMT) = []" and "items s (MgmtQ h QUEUE_TYPE_EAPOL) = []"
  shows "\<exists>s'. txMgmtQ_SetLinkState True ops h TX_CONN_STATE_OPEN s = Some (TI_OK, s') \<and> eState (mlink s' h) = SM_STATE_OPEN_DATA \<and>
    bEnabled (dlink s' h)"
proof -
  have ok: "tx_ok [] s" and g: "gate_ok s" using tx_run_inv [OF assms(1)] by simp_all
  obtain s' where s': "txMgmtQ_SetLinkState True ops h TX_CONN_STATE_OPEN s = Some (TI_OK, s')" "work True [] s [] s'"
    "eState (mlink s' h) = SM_STATE_OPEN_DATA"
    using open_link [OF ok assms(2-4)] by metis
  then have "gate_ok s'" using g by (simp add: work_def)
  then show ?thesis using s' assms(2) by (simp add: gate_ok_def)
qed

text \<open>
  C38: the event EAPOL does not close the data queues.  On a link that is open for data, setting the
  connection state EAPOL moves the state machine to EAPOL and enables both management queues, but leaves
  the data queues enabled, so that data frames can be sent while the link awaits its handshake; the order
  that the runs above ask for, with MGMT before EAPOL, is needed.
\<close>

theorem tx_eapol_keeps_data:
  assumes "tx_run ops True tr s" and "h < WLANLINKS_MAX_LINKS" and "eState (mlink s h) = SM_STATE_OPEN_DATA"
  shows "\<exists>s'. txMgmtQ_SetLinkState True ops h TX_CONN_STATE_EAPOL s = Some (TI_OK, s') \<and> eState (mlink s' h) = SM_STATE_EAPOL \<and>
    bEnabled (dlink s' h)"
proof -
  have ok: "tx_ok [] s" and "gate_ok s" using tx_run_inv [OF assms(1)] by simp_all
  then have "bEnabled (dlink s h)" using assms(2,3) by (simp add: gate_ok_def)
  then show ?thesis using eapol_link [OF ok assms(2), of ops] by auto
qed

theorem tx_eapol_keeps_data_witness:
  "\<exists>s s'. tx_run ex_ops True [SetLinkState 1 TX_CONN_STATE_EAPOL, SetLinkState 1 TX_CONN_STATE_OPEN] s \<and>
    txMgmtQ_SetLinkState True ex_ops 1 TX_CONN_STATE_EAPOL s = Some (TI_OK, s') \<and> eState (mlink s' 1) = SM_STATE_EAPOL \<and> bEnabled (dlink s' 1)"
proof -
  obtain s where s: "tx_run ex_ops True [SetLinkState 1 TX_CONN_STATE_EAPOL, SetLinkState 1 TX_CONN_STATE_OPEN] s"
    "eState (mlink s 1) = SM_STATE_OPEN_DATA" by (rule ex_open)
  show ?thesis using tx_eapol_keeps_data [OF s(1) _ s(2)] s(1) by auto
qed

section \<open>Backpressure\<close>

lemma LinksBusy_fold:
  assumes "length (aDataLinkQ (dataQ s)) = 7" and "n \<le> 7"
  shows "length (aDataLinkQ (dataQ (fold (\<lambda>h. upd_dlink h (\<lambda>l. l\<lparr>bBusy := bit m h\<rparr>)) [0..<n] s))) = 7 \<and>
    (\<forall>h < 7. bBusy (dlink (fold (\<lambda>h. upd_dlink h (\<lambda>l. l\<lparr>bBusy := bit m h\<rparr>)) [0..<n] s) h) = (if h < n then bit m h else bBusy (dlink s h)))"
  using assms(2)
proof (induction n)
  case (Suc n)
  then show ?case using assms(1) by (auto simp: dlink_upd less_Suc_eq)
qed (use assms in simp)

text \<open>
  C39: the data queues take the busy TIDs for busy links.  The link map that the transmit control passes on
  a change of the backpressure is not used: when the scheduler of the data queues starts, link \<open>h\<close> is
  marked busy exactly if TID \<open>h\<close> is, so a link that the hardware has stopped is served again, and a link
  of the same number as a busy TID is stalled.
\<close>

theorem tx_link_busy_from_tids:
  assumes "tx_run ops g tr s"
  shows "\<exists>t. txDataQ_UpdateBusyMap True ops tids linkMap s = txDataQ_RunScheduler True ops t \<and>
    (\<forall>h < WLANLINKS_MAX_LINKS. bBusy (dlink t h) \<longleftrightarrow> bit tids h)"
proof -
  have ok: "tx_ok [] s" using tx_run_inv [OF assms] by simp
  let ?u = "txDataQ_UpdateLinksBusyState tids s"
  have "dlink (txDataQ_UpdateQueuesBusyState tids ?u) h = dlink ?u h" for h
    by (simp add: txDataQ_UpdateQueuesBusyState_def upd_data_def dlink_def)
  moreover have "\<forall>h < 7. bBusy (dlink ?u h) \<longleftrightarrow> bit tids h"
    using LinksBusy_fold [OF tx_ok_lengths(2) [OF ok] order_refl, of tids] by (simp add: txDataQ_UpdateLinksBusyState_def)
  ultimately show ?thesis unfolding txDataQ_UpdateBusyMap_def by (intro exI [of _ "txDataQ_UpdateQueuesBusyState tids ?u"]) simp
qed

theorem tx_link_busy_from_tids_witness:
  "\<exists>t. txDataQ_UpdateBusyMap True ex_ops 2 4 ex_s0 = txDataQ_RunScheduler True ex_ops t \<and> bBusy (dlink t 1) \<and> \<not> bBusy (dlink t 2)"
proof -
  have b: "bit (2 :: u32) 1" "\<not> bit (2 :: u32) 2" by code_simp+
  obtain t where "txDataQ_UpdateBusyMap True ex_ops 2 4 ex_s0 = txDataQ_RunScheduler True ex_ops t" "\<forall>h < 7. bBusy (dlink t h) \<longleftrightarrow> bit (2 :: u32) h"
    using tx_link_busy_from_tids [OF ex_start(2) [of True], of 2 4] by blast
  then show ?thesis using b by (intro exI [of _ t]) simp
qed

text \<open>
  C40: marking the queues of one access category busy overwrites the others.  After \<^verbatim>\<open>txDataQ_StopQueue\<close> the
  four flags are those of the TIDs 3, 2, 5 and 7 in the map it is given, whatever they were; with the map
  of a single category, as the transmit control passes it, every other queue is marked free, even one that
  the hardware had stopped before.
\<close>

theorem tx_stop_queue_overwrites:
  assumes "length (aQueueBusy (dataQ s)) = MAX_NUM_OF_AC"
  shows "aQueueBusy (dataQ (txDataQ_StopQueue tids s)) = map (bit tids) [3, 2, 5, 7]"
proof -
  obtain a b c d where "aQueueBusy (dataQ s) = [a, b, c, d]" using assms by (auto simp: numeral_eq_Suc length_Suc_conv)
  then show ?thesis
    by (simp add: txDataQ_StopQueue_def txDataQ_UpdateQueuesBusyState_def upd_data_def aTidToQueueTable_def upt_rec numeral_eq_Suc)
qed

theorem tx_stop_queue_overwrites_witness:
  "aQueueBusy (dataQ (txDataQ_StopQueue 0x30 ((tx_zero (\<lambda>_. ex_pkt) ())\<lparr>dataQ := txDataQ_Create\<lparr>aQueueBusy := [False, False, False, True]\<rparr>\<rparr>)))
     = [False, False, True, False]"
  by (subst tx_stop_queue_overwrites) (simp add: txDataQ_Create_def, code_simp)

end
