(* ===== verification/TxStall.thy ===== *)
theory TxStall
  imports TxClaims
begin

text \<open>
  Management packets of several links that are sent together: the scheduler of the management queues
  serves all links, but the state machine of a link hears of its empty queues only if they were not
  empty when its turn came.
\<close>

section \<open>A link whose management queues another link has emptied\<close>

definition stalled :: "nat \<Rightarrow> 'w TxState \<Rightarrow> bool" where
  "stalled h s \<longleftrightarrow> eState (mlink s h) = SM_STATE_OPEN_MGMT \<and> items s (MgmtQ h QUEUE_TYPE_MGMT) = [] \<and> items s (MgmtQ h QUEUE_TYPE_EAPOL) = []"

lemma stalled_shrinks:
  "stalled h s \<Longrightarrow> shrinks s s' \<Longrightarrow> eState (mlink s' h) = eState (mlink s h) \<Longrightarrow> stalled h s'"
  unfolding stalled_def shrinks_def by (metis empty_set set_empty subset_empty)

lemma stalled_flow: "tx_ok H s \<Longrightarrow> h < 7 \<Longrightarrow> stalled h s \<Longrightarrow> flow K H s H s' \<Longrightarrow> shrinks s s' \<Longrightarrow> stalled h s'"
  using gates_oks(5) [OF _ flow_ok] stalled_shrinks by blast

lemma stalled_calm:
  assumes "tx_ok H s" and "h < 7" and "stalled h s" and "calm s s'"
  shows "stalled h s'"
proof -
  have "eState (mlink s' h) = eState (mlink s h)"
    using gates_oks(5) [OF assms(1) calm_tx_ok [OF assms(1,4)] _ assms(2)] assms(4) by (simp add: calm_def)
  then show ?thesis using assms(3) calm_items(1) [OF assms(4)] by (simp add: stalled_def)
qed

lemma stalled_port: "stalled h (upd_data (\<lambda>d. d\<lparr>bDataPortEnable := b\<rparr>) s) = stalled h s"
    "stalled h (upd_mgmt (\<lambda>m. m\<lparr>bMgmtPortEnable := b\<rparr>) s) = stalled h s"
  by (simp_all add: stalled_def upd_data_def upd_mgmt_def mlink_def items_def)

lemma sched_link_stalled:
  assumes ok: "tx_ok H s" and h: "h < 7" "h' < 7" and st: "stalled h s" and r: "sched_link True ops h' s = Some s'"
  shows "stalled h s'"
proof (cases "h' = h")
  case True
  then have "ARE_LINK_MGMT_QUEUES_EMPTY s h' = Some True" using ARE_EMPTY_eq [OF ok h(1)] st by (simp add: stalled_def)
  then show ?thesis using r st by (simp add: sched_link_def)
next
  case False
  obtain s1 where s1: "runScheduler True ops s = Some s1" "flow mgmtKs H s H s1" "shrinks s s1"
    using runScheduler_flow [OF ok] by blast
  note ok1 = flow_ok(1) [OF s1(2)]
  have st1: "stalled h s1" by (rule stalled_flow [OF ok h(1) st s1(2,3)])
  have "stalled h s2" if s2: "sm_run (\<lambda>_. None) True ops h' SM_EVENT_QUEUES_EMPTY s1 = Some s2" for s2
  proof (cases "eState (mlink s1 h') = SM_STATE_OPEN_MGMT")
    case True
    let ?l = "(mlink s1 h')\<lparr>eState := SM_STATE_OPEN_DATA, aQenabled := [False, False]\<rparr>"
    obtain s3 where "txDataQ_EnableLink True ops h' (txMgmtQ_DisableLink h' (upd_mlink h' (\<lambda>_. ?l) s1)) = Some s3"
      and s3: "shrinks s1 s3" "\<forall>i < 7. eState (mlink s3 i) = (if i = h' then SM_STATE_OPEN_DATA else eState (mlink s1 i))"
      using enable_data_work [OF ok1 h(2), of ?l ops] by auto
    then have "s3 = s2" using s2 True h by (simp add: sm_run_def sm_next_def)
    then show ?thesis using stalled_shrinks [OF st1 s3(1)] s3(2) h(1) False by simp
  next
    case False
    have "upd_mlink h' (\<lambda>_. mlink s1 h') s1 = s1" by (simp add: upd_mlink_def upd_mgmt_def mlink_def)
    then show ?thesis using s2 False h st1 by (simp add: sm_run_def sm_next_def)
  qed
  then show ?thesis
    using r s1(1) st st1 ARE_EMPTY_eq [OF ok h(2)] ARE_EMPTY_eq [OF ok1 h(2)] by (auto simp: sched_link_def split: bool.splits if_splits)
qed

lemma NotFromSm_stalled:
  assumes "tx_ok H s" and h: "h < 7" and "stalled h s"
  shows "\<exists>s'. runSchedulerNotFromSm True ops s = Some s' \<and> work True H s H s' \<and> stalled h s'"
proof -
  have "\<exists>s'. flush_links (sched_link True ops) hs s = Some s' \<and> work True H s H s' \<and> stalled h s'" if "\<forall>i \<in> set hs. i < 7" for hs
    using assms(1,3) that
  proof (induction hs arbitrary: s)
    case (Cons i hs)
    obtain s1 where s1: "sched_link True ops i s = Some s1" "work True H s H s1" using sched_link_work [OF Cons.prems(1), of i] Cons.prems(3) by auto
    have "stalled h s1" by (rule sched_link_stalled [OF Cons.prems(1) h _ Cons.prems(2) s1(1)]) (use Cons.prems(3) in simp)
    then obtain s' where "flush_links (sched_link True ops) hs s1 = Some s'" "work True H s1 H s'" "stalled h s'"
      using Cons.IH [OF work_ok [OF s1(2)]] Cons.prems(3) by auto
    then show ?case using s1 work_trans [OF s1(2)] by auto
  qed (use still_refl_work in auto)
  from this [of "[0..<7]"] show ?thesis by (simp add: runSchedulerNotFromSm_def)
qed

lemma RunScheduler_stalled:
  assumes ok: "tx_ok H s" and "h < 7" and "stalled h s"
  shows "\<exists>s'. txDataQ_RunScheduler True ops s = Some s' \<and> work True H s H s' \<and> stalled h s'"
  using RunScheduler_flow [OF ok] stalled_flow [OF assms] flow_work [OF ok] by blast


lemma ResumeTx_stalled:
  assumes ok: "tx_ok [] s" and h: "h < 7" and st: "stalled h s"
  shows "\<exists>s'. txMgmtQ_ResumeTx True ops s = Some s' \<and> work True [] s [] s' \<and> stalled h s'"
proof -
  let ?t = "upd_mgmt (\<lambda>m. m\<lparr>bMgmtPortEnable := True\<rparr>) s"
  have wt: "work True [] s [] ?t" by (rule port_work(2) [OF ok])
  have stt: "stalled h ?t" using st by (simp add: stalled_port)
  obtain s1 where s1: "runSchedulerNotFromSm True ops ?t = Some s1" "work True [] ?t [] s1" "stalled h s1"
    using NotFromSm_stalled [OF work_ok [OF wt] h stt] by metis
  let ?u = "upd_data (\<lambda>d. d\<lparr>bDataPortEnable := True\<rparr>) s1"
  have wu: "work True [] s1 [] ?u" by (rule port_work(1) [OF work_ok [OF s1(2)]])
  have stu: "stalled h ?u" using s1(3) by (simp add: stalled_port)
  obtain s2 where s2: "txDataQ_RunScheduler True ops ?u = Some s2" "work True [] ?u [] s2" "stalled h s2"
    using RunScheduler_stalled [OF work_ok [OF wu] h stu] by metis
  have "work True [] s [] s2" by (rule work_trans [OF work_trans [OF work_trans [OF wt s1(2)] wu] s2(2)])
  then show ?thesis using s1(1) s2(1,3) by (simp add: txMgmtQ_ResumeTx_def txMgmtQ_WakeAll_def txDataQ_WakeAll_def)
qed

subsection \<open>Checked runs\<close>

text \<open>The guards in executable form, for the calls of the example below.\<close>

definition pre_chk :: "tx_op \<Rightarrow> 'w TxState \<Rightarrow> bool" where
  "pre_chk op s \<longleftrightarrow> (case op of
     MgmtXmit p pkt ext \<Rightarrow> p \<noteq> NULL \<and> p \<notin> set (held_packets s) \<and> list_all (\<lambda>k. map_option tHead (queues s k) \<noteq> Some p) qids \<and>
       rsrc_fresh pkt \<and> (case buf pkt 0 of None \<Rightarrow> False | Some b \<Rightarrow> 14 \<le> length b)
   | SetLinkState h c \<Rightarrow> h < WLANLINKS_MAX_LINKS | LinkMacAdd h mac \<Rightarrow> True | SuspendTx \<Rightarrow> True | ResumeTx \<Rightarrow> True | _ \<Rightarrow> False)"

primrec chk_run :: "'w twd_ops \<Rightarrow> tx_op list \<Rightarrow> 'w TxState \<Rightarrow> 'w TxState option" where
  "chk_run ops [] s = Some s"
| "chk_run ops (op # tr) s = (if pre_chk op s \<and> tx_order op s then Option.bind (tx_exec ops op s) (chk_run ops tr) else None)"

lemma pre_chk_pre:
  assumes ok: "tx_ok [] s" and "pre_chk op s"
  shows "tx_pre op s"
proof (cases op)
  case (MgmtXmit p pkt ext)
  note c = assms(2) [unfolded pre_chk_def MgmtXmit tx_op.case]
  have p: "p \<notin> own [] s" using c held_packets_own(2) [OF ok] by simp
  have "p \<notin> fam_heads (queues s)"
  proof
    assume "p \<in> fam_heads (queues s)"
    then obtain k q where k: "queues s k = Some q" "tHead q = p" by (auto simp: fam_heads_def)
    then have "k \<in> set qids" using tx_coreD(9) [OF tx_ok_core(1) [OF ok], of k] by simp
    then show False using c k by (auto simp: list_all_iff)
  qed
  then show ?thesis using c p outside_pkt(2) [OF ok p, of "\<lambda>_. pkt"]
    by (auto simp: MgmtXmit tx_pre_def entry_ok_def fam_valid_def upd_pkt_def split: option.splits)
qed (use assms(2) in \<open>simp_all add: pre_chk_def tx_pre_def\<close>)

lemma chk_run_run:
  assumes "tx_run ops True tr s" and "chk_run ops tr' s = Some s'"
  shows "tx_run ops True (tr @ tr') s'"
  using assms
proof (induction tr' arbitrary: tr s)
  case (Cons op tr')
  then have "tx_ok [] s" and c: "pre_chk op s" "tx_order op s" using tx_run_inv by (auto split: if_splits)
  then obtain s1 where s1: "tx_exec ops op s = Some s1" "chk_run ops tr' s1 = Some s'" using Cons.prems(2) by (auto split: Option.bind_splits)
  have "tx_run ops True (tr @ [op]) s1"
    by (rule tx_run_step [OF Cons.prems(1) pre_chk_pre [OF \<open>tx_ok [] s\<close> c(1)] _ s1(1)]) (simp add: c(2))
  from Cons.IH [OF this s1(2)] show ?case by simp
qed simp

definition ex_mac :: "u8 \<Rightarrow> u8 list" where
  "ex_mac x = [2, 0, 0, 0, 0, x]"

definition ex_mgmt_pkt :: "u8 \<Rightarrow> TTxCtrlBlk" where
  "ex_mgmt_pkt x = \<lparr>uPktType = TX_PKT_TYPE_MGMT, uFlags = 0, hlid = 0, tid = 0,
     aBuf = [Some (replicate 4 0 @ ex_mac x @ replicate 14 0), None, None, None], aLen = [24, 0, 0, 0]\<rparr>"

definition stall_trace :: "tx_op list" where
  "stall_trace = [LinkMacAdd 1 (ex_mac 1), LinkMacAdd 3 (ex_mac 3), SetLinkState 1 TX_CONN_STATE_EAPOL, SetLinkState 1 TX_CONN_STATE_OPEN,
     SetLinkState 3 TX_CONN_STATE_EAPOL, SetLinkState 3 TX_CONN_STATE_OPEN, SuspendTx, MgmtXmit 256 (ex_mgmt_pkt 1) False,
     MgmtXmit 512 (ex_mgmt_pkt 3) False, ResumeTx]"

lemma stall_eval:
  "map_option (\<lambda>s. (eState (mlink s 1), eState (mlink s 3), items s (MgmtQ 3 0), items s (MgmtQ 3 1)))
     (Option.bind (tx_start ex_ops qaddr 1 1 ex_init (\<lambda>_. ex_pkt) ()) (chk_run ex_ops stall_trace)) =
   Some (SM_STATE_OPEN_DATA, SM_STATE_OPEN_MGMT, [], [])"
  by code_simp

text \<open>
  C11: a link can be left in OPEN_MGMT for good.  Once the management queues of a link are empty while it is
  in OPEN_MGMT, neither resuming the transmission nor a change of the backpressure takes it to OPEN_DATA:
  the event for empty queues is sent only to a link whose queues are not empty when its turn comes, but
  the scheduler serves the queues of all links.  The data queues of the link stay disabled until another
  management packet is queued for it.  Two links with a packet each, suspended and resumed, are enough to
  get there.
\<close>

theorem tx_open_mgmt_stalls:
  assumes "tx_run ops True tr s" and "h < WLANLINKS_MAX_LINKS" and "eState (mlink s h) = SM_STATE_OPEN_MGMT"
    and "items s (MgmtQ h QUEUE_TYPE_MGMT) = []" and "items s (MgmtQ h QUEUE_TYPE_EAPOL) = []"
  shows "\<exists>s'. tx_exec ops ResumeTx s = Some s' \<and> tx_run ops True (tr @ [ResumeTx]) s' \<and> eState (mlink s' h) = SM_STATE_OPEN_MGMT \<and> \<not> bEnabled (dlink s' h)"
proof -
  have ok: "tx_ok [] s" and g: "gate_ok s" using tx_run_inv [OF assms(1)] by simp_all
  have "stalled h s" using assms by (simp add: stalled_def)
  then obtain s' where s': "txMgmtQ_ResumeTx True ops s = Some s'" "work True [] s [] s'" "stalled h s'"
    using ResumeTx_stalled [OF ok assms(2)] by metis
  then have e: "eState (mlink s' h) = SM_STATE_OPEN_MGMT" and x: "tx_exec ops ResumeTx s = Some s'" by (simp_all add: stalled_def tx_exec_def)
  have "gate_ok s'" using s'(2) g by (simp add: work_def)
  then have "\<not> bEnabled (dlink s' h)" using assms(2) e by (simp add: gate_ok_def)
  moreover have "tx_run ops True (tr @ [ResumeTx]) s'"
    by (rule tx_run_step [OF assms(1) _ _ x]) (simp_all add: tx_pre_def tx_order_def)
  ultimately show ?thesis using e x by blast
qed

theorem tx_open_mgmt_stalls_witness:
  "\<exists>s s'. tx_run ex_ops True stall_trace s \<and> eState (mlink s 1) = SM_STATE_OPEN_DATA \<and> eState (mlink s 3) = SM_STATE_OPEN_MGMT \<and>
     tx_exec ex_ops ResumeTx s = Some s' \<and> eState (mlink s' 3) = SM_STATE_OPEN_MGMT \<and> \<not> bEnabled (dlink s' 3)"
proof -
  obtain s where s: "chk_run ex_ops stall_trace ex_s0 = Some s" "eState (mlink s 1) = SM_STATE_OPEN_DATA" "eState (mlink s 3) = SM_STATE_OPEN_MGMT"
    "items s (MgmtQ 3 0) = []" "items s (MgmtQ 3 1) = []" using stall_eval unfolding ex_start(1) by auto
  have r: "tx_run ex_ops True stall_trace s" using chk_run_run [OF ex_start(2) s(1)] by simp
  show ?thesis using tx_open_mgmt_stalls [OF r _ s(3,4)] s r by auto
qed

end
