(* ===== verification/Spec2Isabelle.thy ===== *)
theory Spec2Isabelle
  imports TxHwQueue RxReorder TxCtrlBlk Timer Rate TxnLedger TxStall
begin

text \<open>
  A verification development for the TI WiLink 6.2 access-point driver of this repository
  (src/linux-2.6.31/ti/WiLink62_AP, called the driver below).  The rest of the repository is the
  platform the driver runs on.  The build modelled is \<^verbatim>\<open>TNETW=1273\<close> with
  \<^verbatim>\<open>AP_MODE_ENABLED\<close> on a 32-bit little-endian ARM; \<^verbatim>\<open>TI_DBG\<close>, on by default, is a
  Boolean parameter wherever it changes what the code does.

  \<^bold>\<open>The program.\<close>  A packet to send gets a control block (TxCtrlBlk, TxPacket), is
  classified (TxDataClsfr) and admitted against the resources of its category and link (TxRsrc), waits
  in a data or management queue of its link until the state of the link lets the scheduler take it
  (TxPath, TxMgmt), is charged against the memory blocks of the firmware (TxHwQueue) and is written over
  the bus by a transaction that waits for it (TxnQueue).  A packet received is put into order per traffic identifier (RxQueue, RxReorder) and passed up.  Timers
  (Timer) and rate conversions (Rate) serve all parts; the queues of every part are those of Queue,
  and QueueFamily describes several of them on one heap of links.

  \<^bold>\<open>Conventions.\<close>  A C struct is a record with the fields of the source, an enum a datatype, a pointer a
  32-bit word with \<open>NULL = 0\<close>, an integer a word of its width.  Results of the allocator, of the bus
  and of client callbacks are parameters.  \<open>None\<close> is a dereference of a null or freed pointer, an
  access outside an array, or a loop that does not end.  Traces and statistics are dropped.  Constants
  of the source are input abbreviations.

  \<^bold>\<open>Prelude\<close>: integer types, \<open>TI_STATUS\<close>, facts on words and lists, and the locale \<open>safety\<close> by which
  every component lifts its invariant to its runs.

  \<^bold>\<open>Queue\<close> (utils/queue.c): doubly linked rings on a heap of node headers.  The lemmas relate the
  pointer operations to lists: locale \<open>fifo\<close> and its extension \<open>requeue_fifo\<close> state the contract, the
  interpretations discharge it for the code.  \<^bold>\<open>QueueFamily\<close> lifts this to several queues that share the
  node header of their items.

  \<^bold>\<open>TxHwQueue\<close> (TWD/Data_Service/txHwQueue.c): the accounting of memory blocks and descriptors per access
  category and per link.  The invariant \<open>hwq_inv\<close> says that every block is free or used by one category and that
  reservations are covered; further lemmas concern the guarantees that follow, the roundtrip of
  allocation and release, and the release of stopped queues.

  \<^bold>\<open>RxQueue, RxReorder\<close> (TWD/Data_Service/RxQueue.c): the block-ack reorder window, with the
  sequence-number comparison at its width.  The lemmas show that frames are passed up in order and
  none is lost or duplicated while no number near the wrap-around is skipped, and exhibit the
  two situations in which the code does lose a frame.

  \<^bold>\<open>TxCtrlBlk\<close> (TWD/Data_Service/txCtrlBlk.c): the free list of control blocks; locale \<open>entry_pool\<close>.

  \<^bold>\<open>Timer\<close> (utils/timer.c): expiry queues before and after the driver is operational, service of
  expired timers.  The service loop is a partial function; its lemma shows that it ends when the
  callbacks only change timers.

  \<^bold>\<open>TxnQueue\<close> (Txn/TxnQueue.c): the queues of bus transactions per function and priority, their scheduler,
  completion and restart.  \<^bold>\<open>TxnSched\<close> shows which transaction is selected, that the loops end and what
  they leave; \<^bold>\<open>TxnLedger\<close> describes each operation and keeps a ledger over runs: nothing accepted is lost.
  The bus driver and the callbacks are parameters; \<open>bus_quiet\<close> and \<open>cb_quiet\<close> say what they may change.

  \<^bold>\<open>TxPacket\<close> (TWD/TWDriver/TWDriver.h): the control block of a packet as far as the transmit path reads it.
  \<^bold>\<open>TxDataClsfr\<close> (stad/src/Data_link/TxDataClsfr.c): the classifier, which refines a finite map from keys to
  tags.  \<^bold>\<open>TxRsrc\<close> (the resource tables of txDataQueue.c): guarantees per category and link, with
  counting lemmas over the multiset of packets that hold resources.

  \<^bold>\<open>TxPath, TxMgmt\<close> (stad/src/Data_link/txDataQueue.c, txMgmtQueue.c, txCtrl.c): the state and the operations
  of the transmit path; the three modules share one state because they call one another.  The hardware
  queues and the firmware transfer are parameters (\<open>twd_ops\<close>) that may answer anything.  The two
  schedulers and the flushing of a queue are partial functions.  \<^bold>\<open>TxFlow\<close> has the invariant (\<open>tx_ok\<close>) and
  what a piece of work may do with the packets it has in hand (\<open>flow\<close>); locale \<open>xmit_kind\<close> proves the
  transmission of a packet once for data and management packets.  \<^bold>\<open>TxDrain\<close> has the schedulers, which end
  because every pass that goes on has shrunk the set of queued packets, and the gates of a link
  (\<open>gate_ok\<close>, \<open>work\<close>); \<^bold>\<open>TxOps\<close> the state machine of a link; \<^bold>\<open>TxEntry\<close> the entry of packets; \<^bold>\<open>TxRun\<close> the
  backpressure, the completion and the start of the modules; \<^bold>\<open>TxSystem\<close> the transition system of all calls
  with their guards; \<^bold>\<open>TxClaims\<close> and \<^bold>\<open>TxStall\<close> the properties: no packet is lost or leaked, the state of a
  link gates its traffic, every call returns, and four situations in which the code does not do what it
  means to.

  \<^bold>\<open>Rate\<close> (utils/rate.c): conversions between the encodings of rates and sets of rates.

  \<^bold>\<open>Bounds.\<close>  Loops with a fixed number of iterations are primitive recursions or folds over it; loops
  over data have a measure (the number of queued items); loops that call back into clients are
  partial functions with \<open>None\<close> for a run that does not end, and so are the schedulers of the transmit
  path, which are proved to end.  No fuel is used.

  \<^bold>\<open>Not modelled\<close>: hardware register access and firmware download, report and print output, memory
  allocation itself, the critical sections (every function is one step), the headers and descriptors of
  transmitted packets beyond their flags, transmit statistics and credit, the station connection and
  security state machines, scanning and roaming, command building for the firmware, and the Linux
  glue.  These are I/O, or modules that sit above the data path and reach it only through the calls
  that the transition systems above allow in any order.
\<close>

end
